(* ===== verification/Bcast_Prelude.thy ===== *)
theory Bcast_Prelude
  imports Main "HOL-Library.Word"
begin

text \<open>
  Shared vocabulary of the development: the machine integers of the module, C strings, status
  codes, flag words, and the generic facts on words and lists that the component theories use.
  A \<open>const char *\<close> that may be NULL is a \<open>string option\<close>; a \<open>char[]\<close> buffer is the string it
  holds (the terminating NUL is not part of it). \<open>uint8_t\<close>, \<open>uint32_t\<close> and \<open>uint64_t\<close> are words
  of their width; \<open>switch_time_t\<close> (signed 64-bit microseconds since 1970) is \<open>int\<close>.
\<close>

unbundle bit_operations_syntax

type_synonym u8 = "8 word"
type_synonym u32 = "32 word"
type_synonym u64 = "64 word"
type_synonym usec = int

named_theorems flag_simps
named_theorems preserved

section \<open>Status codes\<close>

text \<open>\<open>switch_status_t\<close>: the two codes the module tests and returns, a general error, and any other code of the core.\<close>

datatype switch_status = ST_SUCCESS | ST_FALSE | ST_GENERR | ST_TERM | ST_OTHER nat

section \<open>C strings\<close>

text \<open>\<open>zstr\<close>: the null-or-empty test the whole module uses on \<open>const char *\<close>.\<close>

definition zstr :: "string option \<Rightarrow> bool" where
  "zstr s = (case s of None \<Rightarrow> True | Some t \<Rightarrow> t = [])"

lemma zstr_simps [simp]: "zstr None" "zstr (Some t) = (t = [])"
  by (simp_all add: zstr_def)

text \<open>\<open>tolower\<close> and \<open>strcasecmp(..) == 0\<close> of the C library in the C locale.\<close>

definition to_lower :: "char \<Rightarrow> char" where
  "to_lower c = (let n = of_char c :: nat in if 65 \<le> n \<and> n \<le> 90 then char_of (n + 32) else c)"

definition strcaseeq :: "string \<Rightarrow> string \<Rightarrow> bool" where
  "strcaseeq s t = (map to_lower s = map to_lower t)"

text \<open>\<open>strncasecmp(s, t, n) == 0\<close> with \<open>n\<close> the length of the literal \<open>t\<close>: \<open>t\<close> is a prefix of \<open>s\<close> up to case.\<close>

definition has_case_prefix :: "string \<Rightarrow> string \<Rightarrow> bool" where
  "has_case_prefix t s = (map to_lower (take (length t) s) = map to_lower t)"

lemma strcaseeq_refl [simp]: "strcaseeq s s"
  by (simp add: strcaseeq_def)

lemma strcaseeq_sym: "strcaseeq s t = strcaseeq t s"
  by (auto simp: strcaseeq_def)

lemma strcaseeq_trans: "strcaseeq s t \<Longrightarrow> strcaseeq t u \<Longrightarrow> strcaseeq s u"
  by (simp add: strcaseeq_def)

lemma strcaseeq_length: "strcaseeq s t \<Longrightarrow> length s = length t"
  unfolding strcaseeq_def by (metis length_map)

section \<open>Flag words\<close>

text \<open>
  \<open>cflags\<close> and \<open>mflags\<close> are read with \<open>w & f\<close>, set with an atomic \<open>|=\<close> and cleared with an
  atomic \<open>&= ~f\<close>.
\<close>

definition has_flag :: "u32 \<Rightarrow> u32 \<Rightarrow> bool" where
  "has_flag w f = (w AND f \<noteq> 0)"

definition set_flag :: "u32 \<Rightarrow> u32 \<Rightarrow> u32" where
  "set_flag w f = w OR f"

definition clr_flag :: "u32 \<Rightarrow> u32 \<Rightarrow> u32" where
  "clr_flag w f = w AND NOT f"

lemma has_flag_iff: "has_flag w f = (\<exists>n. bit w n \<and> bit f n)"
proof -
  have "w AND f \<noteq> 0 \<longleftrightarrow> (\<exists>n. bit (w AND f) n)"
    by (metis bit_0_eq bit_eqI bot_apply bot_bool_def)
  then show ?thesis by (simp add: has_flag_def bit_and_iff)
qed

lemma has_flag_set [flag_simps]: "has_flag (set_flag w f) g = (has_flag w g \<or> has_flag f g)"
  by (auto simp: has_flag_iff set_flag_def bit_or_iff)

lemma has_flag_clr_other [flag_simps]: "\<not> has_flag f g \<Longrightarrow> has_flag (clr_flag w f) g = has_flag w g"
proof -
  assume *: "\<not> has_flag f g"
  have "bit (clr_flag w f) n \<and> bit g n \<longleftrightarrow> bit w n \<and> bit g n" for n
    using * bit_imp_le_length [of g n]
    by (auto simp: has_flag_iff clr_flag_def bit_and_iff bit_not_iff possible_bit_word)
  then show ?thesis by (simp add: has_flag_iff)
qed

lemma has_flag_clr_same [flag_simps]: "\<not> has_flag (clr_flag w f) f"
  by (auto simp: has_flag_iff clr_flag_def bit_and_iff bit_not_iff)

lemma has_flag_zero [flag_simps]: "\<not> has_flag 0 f"
  by (simp add: has_flag_def)

lemma clr_set_same: "\<not> has_flag w f \<Longrightarrow> clr_flag (set_flag w f) f = w"
  by (rule bit_eqI) (auto simp: has_flag_iff clr_flag_def set_flag_def bit_and_iff bit_not_iff bit_or_iff
      dest: bit_imp_le_length)

lemma set_clr_same: "set_flag (clr_flag w f) f = set_flag w f"
  by (rule bit_eqI) (auto simp: clr_flag_def set_flag_def bit_and_iff bit_not_iff bit_or_iff dest: bit_imp_le_length)

section \<open>Unsigned arithmetic without wrap-around\<close>

lemma unat_bound: "unat (w :: 'a::len word) < 2 ^ LENGTH('a)"
  by (rule unsigned_less)

lemma unat_Suc_nowrap:
  fixes x y :: "'a::len word"
  assumes "unat x < unat y"
  shows "unat (x + 1) = Suc (unat x)"
proof -
  have "unat x + 1 < 2 ^ LENGTH('a)"
    using assms unat_bound [of y] by linarith
  then show ?thesis by (simp add: unat_word_ariths)
qed

lemma unat_add_nowrap:
  fixes x y :: "'a::len word"
  assumes "unat x + unat y < 2 ^ LENGTH('a)"
  shows "unat (x + y) = unat x + unat y"
  using assms by (simp add: unat_word_ariths)

lemma unat_diff_nowrap:
  fixes x y :: "'a::len word"
  assumes "unat y \<le> unat x"
  shows "unat (x - y) = unat x - unat y"
  using assms by (simp add: unat_sub word_le_nat_alt)

lemma unat_inc64: "unat (x :: u64) < 2 ^ 64 - 1 \<Longrightarrow> unat (x + 1) = Suc (unat x)"
  by (simp add: unat_word_ariths)

lemma unat_inc32: "unat (x :: u32) < 2 ^ 32 - 1 \<Longrightarrow> unat (x + 1) = Suc (unat x)"
  by (simp add: unat_word_ariths)

lemma unat_dec_nowrap:
  fixes x :: "'a::len word"
  assumes "0 < unat x"
  shows "unat (x - 1) = unat x - 1"
  using assms unat_diff_nowrap [of 1 x] by simp

text \<open>A 32-bit count used where the code works in 64 bits.\<close>

definition u64_of :: "u32 \<Rightarrow> u64" where
  "u64_of x = ucast x"

lemma unat_u64_of [simp]: "unat (u64_of x) = unat x"
  proof -
  have "unat x < 2 ^ 64" using unat_bound [of x] by simp
  then show ?thesis by (simp add: u64_of_def unsigned_ucast_eq take_bit_nat_eq_self)
qed

section \<open>Lists read and written by index modulo a size\<close>

text \<open>Two indices that lie less than \<open>n\<close> apart and are equal modulo \<open>n\<close> are equal.\<close>

lemma mod_eq_close:
  fixes a b n :: nat
  assumes "a \<le> b" "b < a + n" "a mod n = b mod n"
  shows "a = b"
proof -
  have "(b - a) mod n = 0"
    using assms(1,3) by (metis mod_eq_dvd_iff_nat dvd_imp_mod_0)
  moreover have "b - a < n" using assms(1,2) by linarith
  ultimately show ?thesis using assms(1) by simp
qed

lemma mod_neq_close:
  fixes a b n :: nat
  assumes "a < b" "b < a + n"
  shows "a mod n \<noteq> b mod n"
  using mod_eq_close [of a b n] assms by auto

lemma map_upt_snoc: "a \<le> b \<Longrightarrow> map f [a..<Suc b] = map f [a..<b] @ [f b]"
  by simp

lemma map_upt_tl: "a < b \<Longrightarrow> map f [a..<b] = f a # map f [Suc a..<b]"
  by (simp add: upt_rec)

section \<open>Bounds-checked copies\<close>

text \<open>
  \<open>memcpy(dst, src, n)\<close> between byte buffers. A copy that reads or writes outside its buffers is
  undefined behaviour in C; the model makes it the value \<open>None\<close>, so that memory safety is a
  statement about the model and not an assumption of it.
\<close>

definition memcpy :: "'a list \<Rightarrow> 'a list \<Rightarrow> nat \<Rightarrow> 'a list option" where
  "memcpy dst src n = (if n \<le> length dst \<and> n \<le> length src then Some (take n src @ drop n dst) else None)"

lemma memcpy_Some:
  "memcpy dst src n = Some d \<longleftrightarrow> n \<le> length dst \<and> n \<le> length src \<and> d = take n src @ drop n dst"
  by (auto simp: memcpy_def)

lemma memcpy_length: "memcpy dst src n = Some d \<Longrightarrow> length d = length dst"
  by (auto simp: memcpy_Some)

lemma memcpy_take: "memcpy dst src n = Some d \<Longrightarrow> take n d = take n src"
  by (auto simp: memcpy_Some)

section \<open>Decimal digits\<close>

text \<open>The digits \<open>%u\<close> and \<open>%llu\<close> print.\<close>

fun dec_string :: "nat \<Rightarrow> string" where
  "dec_string n = (if n < 10 then [char_of (48 + n)] else dec_string (n div 10) @ [char_of (48 + n mod 10)])"

declare dec_string.simps [simp del]

lemma dec_string_length: "0 < k \<Longrightarrow> n < 10 ^ k \<Longrightarrow> length (dec_string n) \<le> k"
proof (induction n arbitrary: k rule: dec_string.induct)
  case (1 n)
  show ?case
  proof (cases "n < 10")
    case True
    then show ?thesis using 1(2) by (simp add: dec_string.simps)
  next
    case False
    then obtain j where k: "k = Suc j" "0 < j" using 1(2,3) by (cases k; cases "k - 1") auto
    then have "n div 10 < 10 ^ j" using 1(3) by (simp add: div_less_iff_less_mult mult.commute)
    with 1(1) [OF False k(2)] k False show ?thesis by (subst dec_string.simps) simp
  qed
qed

lemma dec_string_u64: "length (dec_string (unat (w :: u64))) \<le> 20"
proof -
  have "unat w < 10 ^ 20" using unat_bound [of w] by simp
  then show ?thesis by (intro dec_string_length) simp_all
qed

text \<open>\<open>switch_snprintf(buf, n, "%llu", v)\<close> into a buffer of \<open>n\<close> bytes.\<close>

definition snprintf_u :: "nat \<Rightarrow> nat \<Rightarrow> string" where
  "snprintf_u n v = take (n - 1) (dec_string v)"

lemma snprintf_u64 [simp]: "snprintf_u 24 (unat (w :: u64)) = dec_string (unat w)"
  using dec_string_u64 [of w] by (simp add: snprintf_u_def)

end
