(* ===== verification/Bcast_Types.thy ===== *)
theory Bcast_Types
  imports Bcast_Prelude
begin

text \<open>
  The data model of mod_broadcast.h: enums as datatypes, the flag bits, and one record per
  struct, field by field. Fields that only hold core objects (memory pools, mutexes, rwlocks,
  timers, threads as such) have no counterpart; a pointer whose being NULL is tested is an
  option or a flag. Pointers between members are addresses (\<open>maddr\<close>) into a heap of member
  objects, because the code links, unlinks and compares members by address.
\<close>

type_synonym maddr = nat
type_synonym baddr = nat

section \<open>Enums\<close>

datatype bmember_role = BMEMBER_ROLE_SPEAKER | BMEMBER_ROLE_LISTENER | BMEMBER_ROLE_OBSERVER

datatype bevt_type =
    BEVT_BROADCAST_CREATE | BEVT_BROADCAST_DESTROY | BEVT_SPEAKER_SET | BEVT_SPEAKER_CLEAR
  | BEVT_SPEAKER_TALKING | BEVT_SPEAKER_SILENT | BEVT_LISTENER_JOIN | BEVT_LISTENER_LEAVE
  | BEVT_LISTENER_RESYNC | BEVT_LISTENER_KICKED | BEVT_RECORDING_START | BEVT_RECORDING_STOP
  | BEVT_PAUSE | BEVT_RESUME | BEVT_LOCK | BEVT_UNLOCK | BEVT_SPEAKER_REQUEST
  | BEVT_RECORDING_FAILED | BEVT_PRODUCER_STALL | BEVT_HEARTBEAT | BEVT_DESTROY_GRACE
  | BEVT_DTMF_ACTION

datatype brec_type = BREC_TYPE_FILE | BREC_TYPE_SHOUT | BREC_TYPE_STREAM

datatype bctl_action =
    BCTL_ACTION_NONE | BCTL_ACTION_HANGUP | BCTL_ACTION_REQUEST_SPEAKER | BCTL_ACTION_ENERGY_UP
  | BCTL_ACTION_ENERGY_DOWN | BCTL_ACTION_LEAVE | BCTL_ACTION_MUTE_TOGGLE | BCTL_ACTION_VOL_UP
  | BCTL_ACTION_VOL_DOWN | BCTL_ACTION_VOL_RESET | BCTL_ACTION_EXECUTE_APP | BCTL_ACTION_LUA
  | BCTL_ACTION_JS | BCTL_ACTION_TRANSFER | BCTL_ACTION_EVENT

section \<open>Constants\<close>

definition BROADCAST_MODULE_VERSION :: string where "BROADCAST_MODULE_VERSION = ''mod_broadcast v1.0''"
definition BROADCAST_DEFAULT_RING_SIZE :: u32 where "BROADCAST_DEFAULT_RING_SIZE = 50"
definition BROADCAST_DEFAULT_MAX_LAG_FRAMES :: u32 where "BROADCAST_DEFAULT_MAX_LAG_FRAMES = 10"
definition BROADCAST_MAX_FRAME_BYTES :: nat where "BROADCAST_MAX_FRAME_BYTES = 1920"
definition BROADCAST_DEFAULT_INTERVAL_MS :: u32 where "BROADCAST_DEFAULT_INTERVAL_MS = 20"
definition BROADCAST_DESTROY_KICK_STACK :: nat where "BROADCAST_DESTROY_KICK_STACK = 512"
definition BROADCAST_DEFAULT_RATE :: u32 where "BROADCAST_DEFAULT_RATE = 8000"
definition BROADCAST_EVENT_RING_SIZE :: u32 where "BROADCAST_EVENT_RING_SIZE = 1024"

definition BFLAG_RUNNING :: u32 where "BFLAG_RUNNING = push_bit 0 1"
definition BFLAG_DESTRUCT :: u32 where "BFLAG_DESTRUCT = push_bit 1 1"
definition BFLAG_LOCKED :: u32 where "BFLAG_LOCKED = push_bit 2 1"
definition BFLAG_RECORDING :: u32 where "BFLAG_RECORDING = push_bit 3 1"
definition BFLAG_PAUSE :: u32 where "BFLAG_PAUSE = push_bit 4 1"
definition BFLAG_DYNAMIC :: u32 where "BFLAG_DYNAMIC = push_bit 5 1"
definition BFLAG_PLAY_FILE :: u32 where "BFLAG_PLAY_FILE = push_bit 6 1"

definition MFLAG_RUNNING :: u32 where "MFLAG_RUNNING = push_bit 0 1"
definition MFLAG_ITHREAD :: u32 where "MFLAG_ITHREAD = push_bit 1 1"
definition MFLAG_KICKED :: u32 where "MFLAG_KICKED = push_bit 2 1"
definition MFLAG_GHOST :: u32 where "MFLAG_GHOST = push_bit 3 1"
definition MFLAG_RECORDING_TARGET :: u32 where "MFLAG_RECORDING_TARGET = push_bit 4 1"
definition MFLAG_ROLE_TRANSITION_TO_SPEAKER :: u32 where "MFLAG_ROLE_TRANSITION_TO_SPEAKER = push_bit 5 1"
definition MFLAG_MUTED_SPEAKER :: u32 where "MFLAG_MUTED_SPEAKER = push_bit 6 1"

lemmas bflag_defs = BFLAG_RUNNING_def BFLAG_DESTRUCT_def BFLAG_LOCKED_def BFLAG_RECORDING_def
  BFLAG_PAUSE_def BFLAG_DYNAMIC_def BFLAG_PLAY_FILE_def

lemmas mflag_defs = MFLAG_RUNNING_def MFLAG_ITHREAD_def MFLAG_KICKED_def MFLAG_GHOST_def
  MFLAG_RECORDING_TARGET_def MFLAG_ROLE_TRANSITION_TO_SPEAKER_def MFLAG_MUTED_SPEAKER_def

text \<open>The seven bits of each flag word are pairwise distinct.\<close>

lemma bflags_distinct [flag_simps]:
  "has_flag BFLAG_RUNNING BFLAG_RUNNING" "\<not> has_flag BFLAG_RUNNING BFLAG_DESTRUCT"
  "\<not> has_flag BFLAG_RUNNING BFLAG_LOCKED" "\<not> has_flag BFLAG_RUNNING BFLAG_RECORDING"
  "\<not> has_flag BFLAG_RUNNING BFLAG_PAUSE" "\<not> has_flag BFLAG_RUNNING BFLAG_PLAY_FILE"
  "has_flag BFLAG_DESTRUCT BFLAG_DESTRUCT" "\<not> has_flag BFLAG_DESTRUCT BFLAG_LOCKED"
  "\<not> has_flag BFLAG_DESTRUCT BFLAG_RECORDING" "\<not> has_flag BFLAG_DESTRUCT BFLAG_PAUSE"
  "\<not> has_flag BFLAG_DESTRUCT BFLAG_PLAY_FILE"
  "has_flag BFLAG_LOCKED BFLAG_LOCKED" "\<not> has_flag BFLAG_LOCKED BFLAG_DESTRUCT"
  "\<not> has_flag BFLAG_LOCKED BFLAG_PAUSE"
  "has_flag BFLAG_RECORDING BFLAG_RECORDING" "\<not> has_flag BFLAG_RECORDING BFLAG_DESTRUCT"
  "\<not> has_flag BFLAG_RECORDING BFLAG_LOCKED" "\<not> has_flag BFLAG_RECORDING BFLAG_PAUSE"
  "\<not> has_flag BFLAG_RECORDING BFLAG_PLAY_FILE"
  "has_flag BFLAG_PAUSE BFLAG_PAUSE" "\<not> has_flag BFLAG_PAUSE BFLAG_DESTRUCT"
  "\<not> has_flag BFLAG_PAUSE BFLAG_LOCKED" "\<not> has_flag BFLAG_PAUSE BFLAG_PLAY_FILE"
  "has_flag BFLAG_PLAY_FILE BFLAG_PLAY_FILE" "\<not> has_flag BFLAG_PLAY_FILE BFLAG_DESTRUCT"
  "\<not> has_flag BFLAG_PLAY_FILE BFLAG_LOCKED" "\<not> has_flag BFLAG_PLAY_FILE BFLAG_PAUSE"
  "\<not> has_flag BFLAG_PLAY_FILE BFLAG_RECORDING"
  by (simp_all add: has_flag_def bflag_defs)

lemma mflags_distinct [flag_simps]:
  "has_flag MFLAG_RUNNING MFLAG_RUNNING" "\<not> has_flag MFLAG_RUNNING MFLAG_KICKED"
  "\<not> has_flag MFLAG_RUNNING MFLAG_GHOST" "\<not> has_flag MFLAG_RUNNING MFLAG_ROLE_TRANSITION_TO_SPEAKER"
  "\<not> has_flag MFLAG_RUNNING MFLAG_MUTED_SPEAKER" "\<not> has_flag MFLAG_RUNNING MFLAG_ITHREAD"
  "has_flag MFLAG_ITHREAD MFLAG_ITHREAD" "\<not> has_flag MFLAG_ITHREAD MFLAG_RUNNING"
  "\<not> has_flag MFLAG_ITHREAD MFLAG_GHOST" "\<not> has_flag MFLAG_ITHREAD MFLAG_KICKED"
  "has_flag MFLAG_KICKED MFLAG_KICKED" "\<not> has_flag MFLAG_KICKED MFLAG_RUNNING"
  "\<not> has_flag MFLAG_KICKED MFLAG_GHOST" "\<not> has_flag MFLAG_KICKED MFLAG_ROLE_TRANSITION_TO_SPEAKER"
  "has_flag MFLAG_GHOST MFLAG_GHOST" "\<not> has_flag MFLAG_GHOST MFLAG_RUNNING"
  "\<not> has_flag MFLAG_GHOST MFLAG_KICKED"
  "has_flag MFLAG_ROLE_TRANSITION_TO_SPEAKER MFLAG_ROLE_TRANSITION_TO_SPEAKER"
  "\<not> has_flag MFLAG_ROLE_TRANSITION_TO_SPEAKER MFLAG_RUNNING"
  "\<not> has_flag MFLAG_ROLE_TRANSITION_TO_SPEAKER MFLAG_KICKED"
  "\<not> has_flag MFLAG_ROLE_TRANSITION_TO_SPEAKER MFLAG_GHOST"
  "has_flag MFLAG_MUTED_SPEAKER MFLAG_MUTED_SPEAKER" "\<not> has_flag MFLAG_MUTED_SPEAKER MFLAG_RUNNING"
  "\<not> has_flag MFLAG_MUTED_SPEAKER MFLAG_GHOST" "\<not> has_flag MFLAG_MUTED_SPEAKER MFLAG_KICKED"
  by (simp_all add: has_flag_def mflag_defs)

section \<open>Structs\<close>

text \<open>The two float values the gain fields ever take, \<open>1.0f\<close> and \<open>1.1f\<close>; the code only tests for unity.\<close>

datatype gain = GAIN_1_0 | GAIN_1_1

text \<open>\<open>struct ring_frame\<close>: one slot of the media ring; \<open>rf_data\<close> is the 1920-byte array.\<close>

record ring_frame =
  rf_seq :: u64
  rf_datalen :: u32
  rf_samples :: u32
  rf_data :: "u8 list"
  rf_silence :: u8

record control_binding =
  cb_digits :: string
  cb_action :: bctl_action
  cb_arg :: "string option"

record control_group =
  cg_name :: string
  cg_bindings :: "control_binding list"

record broadcast_profile =
  p_name :: string
  p_rate :: u32
  p_interval_ms :: u32
  p_channels :: u32
  p_ring_size :: u32
  p_max_lag_frames :: u32
  p_speaker_override :: bool
  p_silence_window_ms :: u32
  p_silence_policy :: "string option"
  p_moh_sound :: "string option"
  p_max_listeners :: u32
  p_listener_pre_buffer_ms :: u32
  p_timer_name :: "string option"
  p_energy_detection :: bool
  p_comfort_noise_level :: u32
  p_agc :: bool
  p_enter_sound :: "string option"
  p_exit_sound :: "string option"
  p_kicked_sound :: "string option"
  p_locked_sound :: "string option"
  p_speaker_joined_sound :: "string option"
  p_verbose_events :: bool
  p_join_event_delay_ms :: u32
  p_caller_controls :: "string option"
  p_auto_record :: bool
  p_record_template :: "string option"
  p_heartbeat_interval_sec :: u32

text \<open>\<open>struct evt_msg\<close>: a queued event; \<open>ev_data\<close> is the \<open>char data[256]\<close> buffer.\<close>

record evt_msg =
  ev_type :: bevt_type
  ev_member_id :: u32
  ev_seq :: u64
  ev_when :: usec
  ev_data :: string

text \<open>\<open>struct rec_consumer\<close>: one recording; \<open>rc_written\<close> stands for what its file handle received.\<close>

record rec_consumer =
  rc_target :: string
  rc_type :: brec_type
  rc_written :: "u8 list list"
  rc_consumer_seq :: u64
  rc_writer_thread :: bool
  rc_running :: bool

text \<open>
  \<open>struct member_obj\<close>. \<open>m_session\<close>, \<open>m_channel\<close>, \<open>m_pool\<close>, the two codecs, the input thread and the
  audio mutex are present or absent; \<open>m_audio_buffer\<close> is the content of the dynamic buffer.
\<close>

record member_obj =
  m_id :: u32
  m_uuid :: "string option"
  m_role :: bmember_role
  m_pool :: bool
  m_session :: bool
  m_channel :: bool
  m_read_codec :: bool
  m_write_codec :: bool
  m_audio_buffer :: "u8 list option"
  m_audio_in_mutex :: bool
  m_input_thread :: bool
  m_input_running :: bool
  m_consumer_seq :: u64
  m_resync_count :: u32
  m_mflags :: u32
  m_next :: "maddr option"
  m_prev :: "maddr option"
  m_joined_at :: usec
  m_last_seen_seq_advance :: usec
  m_last_resync_evt_us :: usec
  m_dtmf_buf :: string
  m_dtmf_buf_time_us :: usec
  m_display_name :: "string option"
  m_tag :: "string option"
  m_energy_last_score :: u32
  m_silent_since_us :: usec
  m_talking_state :: bool
  m_energy_threshold :: u32
  m_in_listener_bridge :: bool
  m_in_speaker_wait :: bool
  m_speaker_since_us :: usec
  m_write_gain :: gain
  m_read_gain :: gain
  m_vol_idx :: int

text \<open>
  \<open>struct broadcast_obj\<close>. The recording list is the list of its consumers from \<open>recording_head\<close>
  on. File handles (\<open>play_fh\<close>, \<open>moh_fh\<close>) are opaque numbers of the file interface.
\<close>

record broadcast_obj =
  b_name :: string
  b_uuid_str :: string
  b_profile :: "broadcast_profile option"
  b_rate :: u32
  b_interval_ms :: u32
  b_samples_per_frame :: u32
  b_bytes_per_frame :: u32
  b_channels :: u8
  b_ring :: "ring_frame list"
  b_ring_size :: u32
  b_producer_seq :: u64
  b_producer_thread :: bool
  b_producer_running :: bool
  b_current_speaker :: "maddr option"
  b_listener_head :: "maddr option"
  b_listener_count :: u32
  b_recordings :: "rec_consumer list"
  b_next_member_id :: u32
  b_cflags :: u32
  b_silence_policy :: "string option"
  b_event_ring :: "evt_msg list option"
  b_event_prod_idx :: u64
  b_event_cons_idx :: u64
  b_event_ring_size :: u32
  b_stat_ticks :: u32
  b_stat_missed_ticks :: u32
  b_stat_speaker_silent_ticks :: u32
  b_stat_listener_resyncs :: u32
  b_stat_listeners_joined :: u32
  b_stat_listeners_left :: u32
  b_stat_events_dropped :: u32
  b_stat_tick_drift_us_max :: u64
  b_producer_first_tick_us :: usec
  b_last_producer_stall_evt_us :: usec
  b_last_heartbeat_us :: usec
  b_stat_peak_listeners :: u32
  b_created_at :: usec
  b_speaker_active_since :: usec
  b_destroyed :: bool
  b_play_fh :: "nat option"
  b_silence_zero_buf :: "u8 list option"
  b_producer_max_tick_us :: usec
  b_producer_max_tick_seen_us :: usec
  b_producer_tick_count_for_avg :: u64
  b_producer_tick_sum_us :: u64
  b_moh_fh :: nat
  b_moh_open :: bool
  b_live_refs :: int

text \<open>
  \<open>struct broadcast_globals\<close>. \<open>broadcast_hash\<close> maps a name to the address of a broadcast, in the order
  in which the hash table enumerates its entries.
\<close>

record broadcast_globals =
  g_broadcast_hash :: "(string \<times> baddr) list"
  g_emitter_running :: bool
  g_default_profile_name :: "string option"
  g_config_loaded :: bool
  g_config_pool :: bool
  g_profiles :: "broadcast_profile list"
  g_control_groups :: "control_group list"
  g_max_broadcasts :: u32
  g_event_ring_size :: u32
  g_total_broadcasts_created :: u32
  g_total_listeners_served :: u32
  g_active_broadcasts :: u32
  g_module_load_us :: usec
  g_running :: bool
  g_runtime_thread_running :: bool

section \<open>The core library's string copy\<close>

text \<open>
  \<open>switch_copy_string(dst, src, len)\<close> belongs to the core, not to this module: it is a parameter
  \<open>cpy src len\<close>, giving the string the buffer holds afterwards. Its documented behaviour is that
  of a bounded copy: the result fits a buffer of \<open>len\<close> bytes with its terminator, and a source
  that fits is copied unchanged.
\<close>

type_synonym copy_string = "string \<Rightarrow> nat \<Rightarrow> string"

definition copy_string_ok :: "copy_string \<Rightarrow> bool" where
  "copy_string_ok cpy \<longleftrightarrow>
     (\<forall>s n. 0 < n \<longrightarrow> length (cpy s n) < n) \<and> (\<forall>s n. length s < n \<longrightarrow> cpy s n = s)"

lemma copy_string_bound: "copy_string_ok cpy \<Longrightarrow> 0 < n \<Longrightarrow> length (cpy s n) < n"
  by (simp add: copy_string_ok_def)

lemma copy_string_fits: "copy_string_ok cpy \<Longrightarrow> length s < n \<Longrightarrow> cpy s n = s"
  by (simp add: copy_string_ok_def)

text \<open>A bounded copy that cuts at \<open>len - 1\<close> characters satisfies the contract.\<close>

definition cut_copy :: copy_string where
  "cut_copy s n = take (n - 1) s"

lemma cut_copy_ok: "copy_string_ok cut_copy"
  by (auto simp: copy_string_ok_def cut_copy_def)

section \<open>Example objects\<close>

text \<open>
  A broadcast and a member in zeroed memory, and a profile with the built-in defaults, as the
  allocations of the code leave them before the fields are set; the examples start from them.
\<close>

definition zero_msg :: evt_msg where
  "zero_msg = \<lparr>ev_type = BEVT_BROADCAST_CREATE, ev_member_id = 0, ev_seq = 0, ev_when = 0, ev_data = []\<rparr>"

definition zero_broadcast :: "u32 \<Rightarrow> broadcast_obj" where
  "zero_broadcast esz =
    \<lparr>b_name = [], b_uuid_str = [], b_profile = None, b_rate = 0, b_interval_ms = 0, b_samples_per_frame = 0,
     b_bytes_per_frame = 0, b_channels = 0, b_ring = [], b_ring_size = 0, b_producer_seq = 0,
     b_producer_thread = False, b_producer_running = False, b_current_speaker = None,
     b_listener_head = None, b_listener_count = 0, b_recordings = [], b_next_member_id = 0, b_cflags = 0,
     b_silence_policy = None, b_event_ring = Some (replicate (unat esz) zero_msg), b_event_prod_idx = 0,
     b_event_cons_idx = 0, b_event_ring_size = esz, b_stat_ticks = 0, b_stat_missed_ticks = 0,
     b_stat_speaker_silent_ticks = 0, b_stat_listener_resyncs = 0, b_stat_listeners_joined = 0,
     b_stat_listeners_left = 0, b_stat_events_dropped = 0, b_stat_tick_drift_us_max = 0,
     b_producer_first_tick_us = 0, b_last_producer_stall_evt_us = 0, b_last_heartbeat_us = 0,
     b_stat_peak_listeners = 0, b_created_at = 0, b_speaker_active_since = 0, b_destroyed = False,
     b_play_fh = None, b_silence_zero_buf = None, b_producer_max_tick_us = 0, b_producer_max_tick_seen_us = 0,
     b_producer_tick_count_for_avg = 0, b_producer_tick_sum_us = 0, b_moh_fh = 0, b_moh_open = False,
     b_live_refs = 0\<rparr>"

definition zero_profile :: broadcast_profile where
  "zero_profile =
    \<lparr>p_name = ''default'', p_rate = 8000, p_interval_ms = 20, p_channels = 1, p_ring_size = 50,
     p_max_lag_frames = 10, p_speaker_override = False, p_silence_window_ms = 800,
     p_silence_policy = Some ''zero'', p_moh_sound = Some [], p_max_listeners = 2,
     p_listener_pre_buffer_ms = 0, p_timer_name = Some ''timerfd'', p_energy_detection = True,
     p_comfort_noise_level = 0, p_agc = False, p_enter_sound = Some [], p_exit_sound = Some [],
     p_kicked_sound = Some [], p_locked_sound = Some [], p_speaker_joined_sound = Some [],
     p_verbose_events = False, p_join_event_delay_ms = 0, p_caller_controls = Some ''default'',
     p_auto_record = False, p_record_template = Some [], p_heartbeat_interval_sec = 60\<rparr>"

definition zero_member :: "string \<Rightarrow> member_obj" where
  "zero_member uuid =
    \<lparr>m_id = 0, m_uuid = Some uuid, m_role = BMEMBER_ROLE_LISTENER, m_pool = True, m_session = True,
     m_channel = True, m_read_codec = False, m_write_codec = True, m_audio_buffer = None,
     m_audio_in_mutex = False, m_input_thread = False, m_input_running = False, m_consumer_seq = 0,
     m_resync_count = 0, m_mflags = 0, m_next = None, m_prev = None, m_joined_at = 0,
     m_last_seen_seq_advance = 0, m_last_resync_evt_us = 0, m_dtmf_buf = [], m_dtmf_buf_time_us = 0,
     m_display_name = None, m_tag = None, m_energy_last_score = 0, m_silent_since_us = 0,
     m_talking_state = False, m_energy_threshold = 500, m_in_listener_bridge = False,
     m_in_speaker_wait = False, m_speaker_since_us = 0, m_write_gain = GAIN_1_0, m_read_gain = GAIN_1_0,
     m_vol_idx = 0\<rparr>"

end
