(* ===== verification/Event_Queue.thy ===== *)
theory Event_Queue
  imports Bcast_Types "HOL-Library.Sublist"
begin

text \<open>
  broadcast_events.c: the per-broadcast event ring, the enqueue operation of the producer side,
  the emitter's drain loop, and the subclass names. The first part is the interface the ring
  offers (a bounded queue that loses entries when full), with its client lemmas proved once.
\<close>

section \<open>The interface: a bounded queue with loss\<close>

datatype 'a qop = QPut 'a | QGet

text \<open>Any interleaving of enqueues and single dequeues; the result is what was dequeued, in order, and the final state.\<close>

fun q_run :: "('a \<Rightarrow> 's \<Rightarrow> 's) \<Rightarrow> ('s \<Rightarrow> ('m \<times> 's) option) \<Rightarrow> 's \<Rightarrow> 'a qop list \<Rightarrow> 'm list \<times> 's" where
  "q_run put get s [] = ([], s)"
| "q_run put get s (QPut a # ops) = q_run put get (put a s) ops"
| "q_run put get s (QGet # ops) =
     (case get s of
        None \<Rightarrow> q_run put get s ops
      | Some (m, s') \<Rightarrow> (let (ms, t) = q_run put get s' ops in (m # ms, t)))"

text \<open>The messages handed to \<open>put\<close> during a run, as the queue would store them.\<close>

fun q_offered :: "('a \<Rightarrow> 's \<Rightarrow> 's) \<Rightarrow> ('s \<Rightarrow> ('m \<times> 's) option) \<Rightarrow> ('s \<Rightarrow> 'a \<Rightarrow> 'm) \<Rightarrow> 's \<Rightarrow> 'a qop list \<Rightarrow> 'm list" where
  "q_offered put get mk s [] = []"
| "q_offered put get mk s (QPut a # ops) = mk s a # q_offered put get mk (put a s) ops"
| "q_offered put get mk s (QGet # ops) =
     (case get s of None \<Rightarrow> q_offered put get mk s ops | Some (m, s') \<Rightarrow> q_offered put get mk s' ops)"

fun q_puts :: "'a qop list \<Rightarrow> nat" where
  "q_puts [] = 0"
| "q_puts (QPut a # ops) = Suc (q_puts ops)"
| "q_puts (QGet # ops) = q_puts ops"

text \<open>
  The laws: an invariant, the queue as a list of at most \<open>cap\<close> messages, a count of lost drops,
  and a budget of index values that every stored message uses up. A full queue answers \<open>put\<close>
  by losing its oldest entry and the new one.
\<close>

locale lossy_queue =
  fixes inv :: "'s \<Rightarrow> bool"
    and put :: "'a \<Rightarrow> 's \<Rightarrow> 's"
    and get :: "'s \<Rightarrow> ('m \<times> 's) option"
    and mk :: "'s \<Rightarrow> 'a \<Rightarrow> 'm"
    and contents :: "'s \<Rightarrow> 'm list"
    and cap :: "'s \<Rightarrow> nat"
    and drops :: "'s \<Rightarrow> nat"
    and budget :: "'s \<Rightarrow> nat"
  assumes cap_pos: "inv s \<Longrightarrow> 0 < cap s"
    and bound: "inv s \<Longrightarrow> length (contents s) \<le> cap s"
    and put_inv: "inv s \<Longrightarrow> 0 < budget s \<Longrightarrow> inv (put a s)"
    and put_cap: "inv s \<Longrightarrow> 0 < budget s \<Longrightarrow> cap (put a s) = cap s"
    and put_budget: "inv s \<Longrightarrow> 0 < budget s \<Longrightarrow> budget s - 1 \<le> budget (put a s)"
    and put_room: "inv s \<Longrightarrow> 0 < budget s \<Longrightarrow> length (contents s) < cap s \<Longrightarrow>
        contents (put a s) = contents s @ [mk s a] \<and> drops (put a s) = drops s"
    and put_full: "inv s \<Longrightarrow> 0 < budget s \<Longrightarrow> length (contents s) = cap s \<Longrightarrow>
        contents (put a s) = tl (contents s) \<and> drops (put a s) = Suc (drops s)"
    and get_empty: "inv s \<Longrightarrow> contents s = [] \<Longrightarrow> get s = None"
    and get_some: "inv s \<Longrightarrow> contents s \<noteq> [] \<Longrightarrow>
        \<exists>s'. get s = Some (hd (contents s), s') \<and> inv s' \<and> contents s' = tl (contents s)
          \<and> cap s' = cap s \<and> drops s' = drops s \<and> budget s' = budget s"
begin

lemma put_cases:
  assumes "inv s" "0 < budget s"
  obtains "length (contents s) < cap s" "contents (put a s) = contents s @ [mk s a]"
      "drops (put a s) = drops s"
  | m ms where "contents s = m # ms" "contents (put a s) = ms" "drops (put a s) = Suc (drops s)"
proof (cases "length (contents s) < cap s")
  case True
  then show ?thesis using that(1) put_room [OF assms True] by blast
next
  case False
  then have full: "length (contents s) = cap s" using bound [OF assms(1)] by simp
  with cap_pos [OF assms(1)] obtain m ms where "contents s = m # ms"
    by (cases "contents s") auto
  then show ?thesis using that(2) put_full [OF assms full] by simp
qed

lemma get_cases:
  assumes "inv s"
  obtains "contents s = []" "get s = None"
  | m s' where "get s = Some (m, s')" "contents s = m # contents s'" "inv s'"
      "cap s' = cap s" "drops s' = drops s" "budget s' = budget s"
proof (cases "contents s")
  case Nil
  then show ?thesis using that(1) get_empty [OF assms] by simp
next
  case (Cons m ms)
  then show ?thesis using that(2) get_some [OF assms] by auto
qed

lemma put_step:
  assumes "inv s" "q_puts (QPut a # ops) \<le> budget s"
  shows "0 < budget s" "inv (put a s)" "q_puts ops \<le> budget (put a s)"
  using assms put_inv [of s a] put_budget [of s a] by auto

text \<open>The invariant survives every interleaving that fits the budget.\<close>

lemma run_inv:
  "inv s \<Longrightarrow> q_puts ops \<le> budget s \<Longrightarrow> inv (snd (q_run put get s ops))"
proof (induction ops arbitrary: s rule: q_puts.induct)
  case (2 a ops)
  from put_step [OF 2(2,3)] 2(1) show ?case by simp
next
  case (3 ops)
  from 3(2) show ?case
  proof (rule get_cases)
    assume "get s = None"
    with 3 show ?case by simp
  next
    fix m s' assume "get s = Some (m, s')" "inv s'" "budget s' = budget s"
    with 3(1) [of s'] 3(3) show ?case by (simp add: case_prod_unfold Let_def)
  qed
qed simp

text \<open>
  First in, first out, without duplication or invention: what came out, followed by what is
  still queued, is a subsequence of what was queued at the start followed by what was offered.
\<close>

lemma run_fifo:
  "inv s \<Longrightarrow> q_puts ops \<le> budget s \<Longrightarrow>
   subseq (fst (q_run put get s ops) @ contents (snd (q_run put get s ops)))
     (contents s @ q_offered put get mk s ops)"
proof (induction ops arbitrary: s rule: q_puts.induct)
  case (2 a ops)
  note st = put_step [OF 2(2,3)]
  let ?off = "q_offered put get mk (put a s) ops"
  from 2(1) [OF st(2,3)] have *: "subseq (fst (q_run put get (put a s) ops) @ contents (snd (q_run put get (put a s) ops)))
     (contents (put a s) @ ?off)" .
  from 2(2) st(1) show ?case
  proof (rule put_cases [where a = a])
    assume "contents (put a s) = contents s @ [mk s a]"
    with * show ?case by simp
  next
    fix m ms assume ms: "contents s = m # ms" "contents (put a s) = ms"
    have "subseq (ms @ ?off) (ms @ mk s a # ?off)" by (simp add: subseq_append' list_emb_Cons)
    then have "subseq (ms @ ?off) (m # ms @ mk s a # ?off)" by (rule list_emb_Cons)
    with * ms show ?case using subseq_order.trans by fastforce
  qed
next
  case (3 ops)
  from 3(2) show ?case
  proof (rule get_cases)
    assume "get s = None"
    with 3 show ?case by simp
  next
    fix m s' assume "get s = Some (m, s')" "contents s = m # contents s'" "inv s'" "budget s' = budget s"
    with 3(1) [of s'] 3(3) show ?case by (simp add: case_prod_unfold Let_def)
  qed
qed simp

text \<open>Exact accounting: every enqueue is dequeued, still queued, or one half of a counted drop.\<close>

lemma run_count:
  "inv s \<Longrightarrow> q_puts ops \<le> budget s \<Longrightarrow>
   length (contents s) + q_puts ops + 2 * drops s =
   length (fst (q_run put get s ops)) + length (contents (snd (q_run put get s ops)))
     + 2 * drops (snd (q_run put get s ops))"
proof (induction ops arbitrary: s rule: q_puts.induct)
  case (2 a ops)
  note st = put_step [OF 2(2,3)]
  note * = 2(1) [OF st(2,3)]
  from 2(2) st(1) show ?case
    by (rule put_cases [where a = a]) (use * in simp_all)
next
  case (3 ops)
  from 3(2) show ?case
  proof (rule get_cases)
    assume "get s = None"
    with 3 show ?case by simp
  next
    fix m s' assume "get s = Some (m, s')" "contents s = m # contents s'" "inv s'"
      "budget s' = budget s" "drops s' = drops s"
    with 3(1) [of s'] 3(3) show ?case by (simp add: case_prod_unfold Let_def)
  qed
qed simp

end

section \<open>The event ring of a broadcast\<close>

text \<open>
  \<open>broadcast_enqueue_event\<close>. The test and the update run under \<open>event_mutex\<close>, so one call is one
  step. \<open>now\<close> is the clock, \<open>cpy\<close> the core's bounded string copy.
\<close>

definition broadcast_enqueue_event ::
  "copy_string \<Rightarrow> usec \<Rightarrow> broadcast_obj \<Rightarrow> bevt_type \<Rightarrow> u32 \<Rightarrow> string option \<Rightarrow> broadcast_obj" where
  "broadcast_enqueue_event cpy now b ty mid data =
     (if b_destroyed b then b
      else
        let sz = u64_of (b_event_ring_size b); prod = b_event_prod_idx b; cons = b_event_cons_idx b
        in case b_event_ring b of
             None \<Rightarrow> b
           | Some ring \<Rightarrow>
               if sz = 0 then b
               else if sz - 1 \<le> prod - cons then
                 b\<lparr>b_stat_events_dropped := b_stat_events_dropped b + 1, b_event_cons_idx := cons + 1\<rparr>
               else
                 b\<lparr>b_event_ring := Some (ring[unat (prod mod sz) :=
                      \<lparr>ev_type = ty, ev_member_id = mid, ev_seq = prod, ev_when = now,
                       ev_data = (if zstr data then [] else cpy (the data) 256)\<rparr>]),
                   b_event_prod_idx := prod + 1\<rparr>)"

text \<open>One round of the emitter's inner loop: take the slot at \<open>event_cons_idx\<close> and step over it.\<close>

definition emit_one :: "broadcast_obj \<Rightarrow> (evt_msg \<times> broadcast_obj) option" where
  "emit_one b =
     (if b_event_cons_idx b < b_event_prod_idx b then
        Some (the (b_event_ring b) ! unat (b_event_cons_idx b mod u64_of (b_event_ring_size b)),
              b\<lparr>b_event_cons_idx := b_event_cons_idx b + 1\<rparr>)
      else None)"

lemma emit_one_less:
  "emit_one b = Some (m, b') \<Longrightarrow>
   unat (b_event_prod_idx b') - unat (b_event_cons_idx b') < unat (b_event_prod_idx b) - unat (b_event_cons_idx b)"
  by (auto simp: emit_one_def word_less_nat_alt unat_Suc_nowrap split: if_splits)

text \<open>The inner loop run to its end (no enqueue in between): the messages fired and the state left.\<close>

function emitter_drain :: "broadcast_obj \<Rightarrow> evt_msg list \<times> broadcast_obj" where
  "emitter_drain b =
     (case emit_one b of
        None \<Rightarrow> ([], b)
      | Some (m, b') \<Rightarrow> (let (ms, b'') = emitter_drain b' in (m # ms, b'')))"
  by pat_completeness auto
termination
  by (relation "measure (\<lambda>b. unat (b_event_prod_idx b) - unat (b_event_cons_idx b))") (auto dest: emit_one_less)

declare emitter_drain.simps [simp del]

text \<open>A visit of the emitter to one broadcast of the hash: a destroyed one is skipped.\<close>

definition emitter_visit :: "broadcast_obj \<Rightarrow> evt_msg list \<times> broadcast_obj" where
  "emitter_visit b = (if b_destroyed b then ([], b) else emitter_drain b)"

text \<open>
  One pass of \<open>broadcast_event_emitter_run\<close> over the hash: for each broadcast what was fired, the
  hash afterwards, and whether anything was done (\<open>worked\<close>; otherwise the thread yields 5 ms).
\<close>

definition emitter_pass ::
  "(string \<times> broadcast_obj) list \<Rightarrow> (string \<times> evt_msg list) list \<times> (string \<times> broadcast_obj) list \<times> bool" where
  "emitter_pass hash =
     (let vs = map (\<lambda>(k, b). (k, emitter_visit b)) hash
      in (map (\<lambda>(k, ms, b). (k, ms)) vs, map (\<lambda>(k, ms, b). (k, b)) vs, \<exists>(k, ms, b) \<in> set vs. ms \<noteq> []))"

section \<open>Invariant and abstraction\<close>

definition evq_inv :: "broadcast_obj \<Rightarrow> bool" where
  "evq_inv b \<longleftrightarrow> \<not> b_destroyed b \<and> 2 \<le> unat (b_event_ring_size b)
     \<and> (\<exists>r. b_event_ring b = Some r \<and> length r = unat (b_event_ring_size b))
     \<and> unat (b_event_cons_idx b) \<le> unat (b_event_prod_idx b)
     \<and> unat (b_event_prod_idx b) < unat (b_event_cons_idx b) + unat (b_event_ring_size b)"

definition evq_contents :: "broadcast_obj \<Rightarrow> evt_msg list" where
  "evq_contents b = map (\<lambda>i. the (b_event_ring b) ! (i mod unat (b_event_ring_size b)))
     [unat (b_event_cons_idx b)..<unat (b_event_prod_idx b)]"

definition evq_cap :: "broadcast_obj \<Rightarrow> nat" where
  "evq_cap b = unat (b_event_ring_size b) - 1"

text \<open>How many more enqueues fit before the 64-bit index or the 32-bit drop counter would wrap.\<close>

definition evq_budget :: "broadcast_obj \<Rightarrow> nat" where
  "evq_budget b = min (2 ^ 64 - 1 - unat (b_event_prod_idx b)) (2 ^ 32 - 1 - unat (b_stat_events_dropped b))"

definition evq_drops :: "broadcast_obj \<Rightarrow> nat" where
  "evq_drops b = unat (b_stat_events_dropped b)"

type_synonym evt_req = "usec \<times> bevt_type \<times> u32 \<times> string option"

definition evq_put :: "copy_string \<Rightarrow> evt_req \<Rightarrow> broadcast_obj \<Rightarrow> broadcast_obj" where
  "evq_put cpy = (\<lambda>(now, ty, mid, data) b. broadcast_enqueue_event cpy now b ty mid data)"

definition evq_mk :: "copy_string \<Rightarrow> broadcast_obj \<Rightarrow> evt_req \<Rightarrow> evt_msg" where
  "evq_mk cpy b = (\<lambda>(now, ty, mid, data).
     \<lparr>ev_type = ty, ev_member_id = mid, ev_seq = b_event_prod_idx b, ev_when = now,
      ev_data = (if zstr data then [] else cpy (the data) 256)\<rparr>)"

lemma evq_length: "evq_inv b \<Longrightarrow> length (evq_contents b) = unat (b_event_prod_idx b) - unat (b_event_cons_idx b)"
  by (simp add: evq_contents_def)

lemma evq_size_nonzero: "evq_inv b \<Longrightarrow> u64_of (b_event_ring_size b) \<noteq> 0"
  by (metis evq_inv_def not_numeral_le_zero unat_0 unat_u64_of)

text \<open>The fullness test of the code, read on the indices.\<close>

lemma evq_full_iff:
  assumes "evq_inv b"
  shows "(u64_of (b_event_ring_size b) - 1 \<le> b_event_prod_idx b - b_event_cons_idx b)
     \<longleftrightarrow> length (evq_contents b) = evq_cap b"
proof -
  have "unat (u64_of (b_event_ring_size b) - 1) = evq_cap b"
    using assms by (subst unat_dec_nowrap) (auto simp: evq_inv_def evq_cap_def)
  moreover have "unat (b_event_prod_idx b - b_event_cons_idx b) = length (evq_contents b)"
    using assms by (simp add: evq_length unat_diff_nowrap evq_inv_def)
  moreover have "length (evq_contents b) \<le> evq_cap b"
    using assms by (auto simp: evq_length evq_inv_def evq_cap_def)
  ultimately show ?thesis by (auto simp: word_le_nat_alt)
qed

lemma enqueue_full:
  assumes "evq_inv b" "length (evq_contents b) = evq_cap b"
  shows "broadcast_enqueue_event cpy now b ty mid data =
    b\<lparr>b_stat_events_dropped := b_stat_events_dropped b + 1, b_event_cons_idx := b_event_cons_idx b + 1\<rparr>"
  using assms evq_full_iff [OF assms(1)] evq_size_nonzero [OF assms(1)]
  by (auto simp: broadcast_enqueue_event_def evq_inv_def Let_def)

lemma enqueue_room:
  assumes "evq_inv b" "length (evq_contents b) < evq_cap b"
  shows "broadcast_enqueue_event cpy now b ty mid data =
    b\<lparr>b_event_ring := Some ((the (b_event_ring b))[unat (b_event_prod_idx b) mod unat (b_event_ring_size b) :=
        evq_mk cpy b (now, ty, mid, data)]), b_event_prod_idx := b_event_prod_idx b + 1\<rparr>"
  using assms evq_full_iff [OF assms(1)] evq_size_nonzero [OF assms(1)]
  by (auto simp: broadcast_enqueue_event_def evq_inv_def Let_def evq_mk_def unat_mod)

lemma contents_enqueue_full:
  assumes "evq_inv b" "length (evq_contents b) = evq_cap b"
  shows "evq_contents (evq_put cpy r b) = tl (evq_contents b)"
proof -
  from assms have lt: "unat (b_event_cons_idx b) < unat (b_event_prod_idx b)"
    by (auto simp: evq_inv_def evq_cap_def evq_length)
  then have "unat (b_event_cons_idx b + 1) = Suc (unat (b_event_cons_idx b))"
    by (rule unat_Suc_nowrap)
  with lt show ?thesis
    by (auto simp: evq_put_def enqueue_full [OF assms] evq_contents_def map_upt_tl split: prod.splits)
qed

lemma contents_enqueue_room:
  assumes "evq_inv b" "length (evq_contents b) < evq_cap b" "0 < evq_budget b"
  shows "evq_contents (evq_put cpy r b) = evq_contents b @ [evq_mk cpy b r]"
proof -
  let ?n = "unat (b_event_ring_size b)" and ?p = "unat (b_event_prod_idx b)" and ?c = "unat (b_event_cons_idx b)"
  obtain ring where ring: "b_event_ring b = Some ring" "length ring = ?n"
    using assms(1) by (auto simp: evq_inv_def)
  have n: "2 \<le> ?n" "?c \<le> ?p" "?p < ?c + ?n" using assms(1) by (auto simp: evq_inv_def)
  have p1: "unat (b_event_prod_idx b + 1) = Suc ?p"
    using assms(3) by (intro unat_inc64) (auto simp: evq_budget_def)
  have old: "ring[?p mod ?n := x] ! (i mod ?n) = ring ! (i mod ?n)" if "i \<in> set [?c..<?p]" for i x
    using that n mod_neq_close [of i ?p ?n] by auto
  have "evq_contents (evq_put cpy r b) =
      map (\<lambda>i. ring[?p mod ?n := evq_mk cpy b r] ! (i mod ?n)) [?c..<Suc ?p]"
    by (cases r) (simp add: evq_put_def enqueue_room [OF assms(1,2)] evq_contents_def p1 ring)
  also have "\<dots> = map (\<lambda>i. ring[?p mod ?n := evq_mk cpy b r] ! (i mod ?n)) [?c..<?p]
      @ [ring[?p mod ?n := evq_mk cpy b r] ! (?p mod ?n)]"
    using n by (simp add: map_upt_snoc)
  also have "map (\<lambda>i. ring[?p mod ?n := evq_mk cpy b r] ! (i mod ?n)) [?c..<?p] = evq_contents b"
    unfolding evq_contents_def ring(1) option.sel by (rule map_cong [OF refl old])
  also have "ring[?p mod ?n := evq_mk cpy b r] ! (?p mod ?n) = evq_mk cpy b r"
    using n ring(2) by simp
  finally show ?thesis .
qed

lemma evq_put_inv:
  assumes "evq_inv b" "0 < evq_budget b"
  shows "evq_inv (evq_put cpy r b)"
proof (cases "length (evq_contents b) < evq_cap b")
  case True
  then have "unat (b_event_prod_idx b + 1) = Suc (unat (b_event_prod_idx b))"
    using assms(2) by (intro unat_inc64) (auto simp: evq_budget_def)
  with True assms(1) show ?thesis
    by (cases r) (auto simp: evq_put_def enqueue_room evq_inv_def evq_cap_def evq_length [OF assms(1)])
next
  case False
  then have full: "length (evq_contents b) = evq_cap b"
    using assms(1) by (auto simp: evq_length evq_inv_def evq_cap_def)
  then have lt: "unat (b_event_cons_idx b) < unat (b_event_prod_idx b)"
    using assms(1) by (auto simp: evq_inv_def evq_cap_def evq_length)
  then have "unat (b_event_cons_idx b + 1) = Suc (unat (b_event_cons_idx b))" by (rule unat_Suc_nowrap)
  with lt assms(1) show ?thesis
    by (cases r) (auto simp: evq_put_def enqueue_full [OF assms(1) full] evq_inv_def)
qed

lemma emit_one_step:
  assumes "evq_inv b" "evq_contents b \<noteq> []"
  shows "\<exists>b'. emit_one b = Some (hd (evq_contents b), b') \<and> evq_inv b'
    \<and> evq_contents b' = tl (evq_contents b) \<and> evq_cap b' = evq_cap b
    \<and> evq_drops b' = evq_drops b \<and> evq_budget b' = evq_budget b"
proof -
  let ?b' = "b\<lparr>b_event_cons_idx := b_event_cons_idx b + 1\<rparr>"
  from assms have lt: "unat (b_event_cons_idx b) < unat (b_event_prod_idx b)"
    by (auto simp: evq_contents_def)
  then have s: "unat (b_event_cons_idx b + 1) = Suc (unat (b_event_cons_idx b))" by (rule unat_Suc_nowrap)
  have "emit_one b = Some (hd (evq_contents b), ?b')"
    using lt by (simp add: emit_one_def word_less_nat_alt evq_contents_def map_upt_tl unat_mod)
  moreover have "evq_inv ?b'" using assms(1) lt s by (auto simp: evq_inv_def)
  moreover have "evq_contents ?b' = tl (evq_contents b)"
    using lt s by (simp add: evq_contents_def map_upt_tl)
  ultimately show ?thesis by (simp add: evq_cap_def evq_drops_def evq_budget_def)
qed

lemma evq_put_frame:
  assumes "evq_inv b" "0 < evq_budget b"
  shows "evq_cap (evq_put cpy r b) = evq_cap b" "evq_budget b - 1 \<le> evq_budget (evq_put cpy r b)"
proof -
  have s: "unat (b_event_prod_idx b + 1) = Suc (unat (b_event_prod_idx b))"
    "unat (b_stat_events_dropped b + 1) = Suc (unat (b_stat_events_dropped b))"
    using assms(2) by (auto simp: evq_budget_def intro!: unat_inc64 unat_inc32)
  obtain now ty mid data where r: "r = (now, ty, mid, data)" by (cases r)
  have "evq_cap (evq_put cpy r b) = evq_cap b \<and> evq_budget b - 1 \<le> evq_budget (evq_put cpy r b)"
  proof (cases "length (evq_contents b) < evq_cap b")
    case True
    then show ?thesis
      by (simp add: r evq_put_def enqueue_room [OF assms(1)] evq_cap_def evq_budget_def s) linarith
  next
    case False
    then have "length (evq_contents b) = evq_cap b"
      using assms(1) by (auto simp: evq_length evq_inv_def evq_cap_def)
    then show ?thesis
      by (simp add: r evq_put_def enqueue_full [OF assms(1)] evq_cap_def evq_budget_def s) linarith
  qed
  then show "evq_cap (evq_put cpy r b) = evq_cap b" "evq_budget b - 1 \<le> evq_budget (evq_put cpy r b)" by auto
qed

lemma evq_drops_put:
  assumes "evq_inv b" "0 < evq_budget b"
  shows "evq_drops (evq_put cpy r b) =
    (if length (evq_contents b) < evq_cap b then evq_drops b else Suc (evq_drops b))"
proof -
  have "unat (b_stat_events_dropped b + 1) = Suc (unat (b_stat_events_dropped b))"
    using assms(2) by (auto simp: evq_budget_def intro!: unat_inc32)
  moreover have "length (evq_contents b) < evq_cap b \<or> length (evq_contents b) = evq_cap b"
    using assms(1) by (auto simp: evq_length evq_inv_def evq_cap_def)
  ultimately show ?thesis
    using enqueue_room [OF assms(1)] enqueue_full [OF assms(1)]
    by (cases r) (auto simp: evq_put_def evq_drops_def)
qed

interpretation evq: lossy_queue evq_inv "evq_put cpy" emit_one "evq_mk cpy" evq_contents evq_cap evq_drops evq_budget
  for cpy
proof unfold_locales
  fix b r
  show "evq_inv b \<Longrightarrow> 0 < evq_cap b" by (auto simp: evq_inv_def evq_cap_def)
  show "evq_inv b \<Longrightarrow> length (evq_contents b) \<le> evq_cap b"
    by (auto simp: evq_length evq_inv_def evq_cap_def)
  show "evq_inv b \<Longrightarrow> 0 < evq_budget b \<Longrightarrow> evq_inv (evq_put cpy r b)" by (rule evq_put_inv)
  show "evq_inv b \<Longrightarrow> 0 < evq_budget b \<Longrightarrow> evq_cap (evq_put cpy r b) = evq_cap b" by (rule evq_put_frame)
  show "evq_inv b \<Longrightarrow> 0 < evq_budget b \<Longrightarrow> evq_budget b - 1 \<le> evq_budget (evq_put cpy r b)"
    by (rule evq_put_frame)
  show "evq_inv b \<Longrightarrow> 0 < evq_budget b \<Longrightarrow> length (evq_contents b) < evq_cap b \<Longrightarrow>
      evq_contents (evq_put cpy r b) = evq_contents b @ [evq_mk cpy b r] \<and> evq_drops (evq_put cpy r b) = evq_drops b"
    by (simp add: contents_enqueue_room evq_drops_put)
  show "evq_inv b \<Longrightarrow> 0 < evq_budget b \<Longrightarrow> length (evq_contents b) = evq_cap b \<Longrightarrow>
      evq_contents (evq_put cpy r b) = tl (evq_contents b) \<and> evq_drops (evq_put cpy r b) = Suc (evq_drops b)"
    by (simp add: contents_enqueue_full evq_drops_put)
  show "evq_inv b \<Longrightarrow> evq_contents b = [] \<Longrightarrow> emit_one b = None"
    by (auto simp: evq_contents_def emit_one_def word_less_nat_alt evq_inv_def)
  show "evq_inv b \<Longrightarrow> evq_contents b \<noteq> [] \<Longrightarrow>
      \<exists>s'. emit_one b = Some (hd (evq_contents b), s') \<and> evq_inv s' \<and> evq_contents s' = tl (evq_contents b)
        \<and> evq_cap s' = evq_cap b \<and> evq_drops s' = evq_drops b \<and> evq_budget s' = evq_budget b"
    by (rule emit_one_step)
qed

section \<open>Frame: an enqueue touches the event fields only\<close>

lemma enqueue_frame [simp]:
  "b_name (broadcast_enqueue_event cpy now b ty mid data) = b_name b"
  "b_profile (broadcast_enqueue_event cpy now b ty mid data) = b_profile b"
  "b_ring (broadcast_enqueue_event cpy now b ty mid data) = b_ring b"
  "b_ring_size (broadcast_enqueue_event cpy now b ty mid data) = b_ring_size b"
  "b_producer_seq (broadcast_enqueue_event cpy now b ty mid data) = b_producer_seq b"
  "b_interval_ms (broadcast_enqueue_event cpy now b ty mid data) = b_interval_ms b"
  "b_bytes_per_frame (broadcast_enqueue_event cpy now b ty mid data) = b_bytes_per_frame b"
  "b_samples_per_frame (broadcast_enqueue_event cpy now b ty mid data) = b_samples_per_frame b"
  "b_channels (broadcast_enqueue_event cpy now b ty mid data) = b_channels b"
  "b_silence_policy (broadcast_enqueue_event cpy now b ty mid data) = b_silence_policy b"
  "b_silence_zero_buf (broadcast_enqueue_event cpy now b ty mid data) = b_silence_zero_buf b"
  "b_current_speaker (broadcast_enqueue_event cpy now b ty mid data) = b_current_speaker b"
  "b_listener_head (broadcast_enqueue_event cpy now b ty mid data) = b_listener_head b"
  "b_listener_count (broadcast_enqueue_event cpy now b ty mid data) = b_listener_count b"
  "b_recordings (broadcast_enqueue_event cpy now b ty mid data) = b_recordings b"
  "b_next_member_id (broadcast_enqueue_event cpy now b ty mid data) = b_next_member_id b"
  "b_cflags (broadcast_enqueue_event cpy now b ty mid data) = b_cflags b"
  "b_event_ring_size (broadcast_enqueue_event cpy now b ty mid data) = b_event_ring_size b"
  "b_stat_ticks (broadcast_enqueue_event cpy now b ty mid data) = b_stat_ticks b"
  "b_stat_listeners_joined (broadcast_enqueue_event cpy now b ty mid data) = b_stat_listeners_joined b"
  "b_stat_listeners_left (broadcast_enqueue_event cpy now b ty mid data) = b_stat_listeners_left b"
  "b_stat_peak_listeners (broadcast_enqueue_event cpy now b ty mid data) = b_stat_peak_listeners b"
  "b_stat_listener_resyncs (broadcast_enqueue_event cpy now b ty mid data) = b_stat_listener_resyncs b"
  "b_destroyed (broadcast_enqueue_event cpy now b ty mid data) = b_destroyed b"
  "b_play_fh (broadcast_enqueue_event cpy now b ty mid data) = b_play_fh b"
  "b_live_refs (broadcast_enqueue_event cpy now b ty mid data) = b_live_refs b"
  by (simp_all add: broadcast_enqueue_event_def Let_def split: option.splits)

section \<open>Subclass names\<close>

fun b_evt_subclass :: "bevt_type \<Rightarrow> string" where
  "b_evt_subclass BEVT_BROADCAST_CREATE = ''broadcast::create''"
| "b_evt_subclass BEVT_BROADCAST_DESTROY = ''broadcast::destroy''"
| "b_evt_subclass BEVT_SPEAKER_SET = ''broadcast::speaker-set''"
| "b_evt_subclass BEVT_SPEAKER_CLEAR = ''broadcast::speaker-clear''"
| "b_evt_subclass BEVT_SPEAKER_TALKING = ''broadcast::speaker-talking''"
| "b_evt_subclass BEVT_SPEAKER_SILENT = ''broadcast::speaker-silent''"
| "b_evt_subclass BEVT_LISTENER_JOIN = ''broadcast::listener-join''"
| "b_evt_subclass BEVT_LISTENER_LEAVE = ''broadcast::listener-leave''"
| "b_evt_subclass BEVT_LISTENER_RESYNC = ''broadcast::listener-resync''"
| "b_evt_subclass BEVT_LISTENER_KICKED = ''broadcast::listener-kicked''"
| "b_evt_subclass BEVT_RECORDING_START = ''broadcast::recording-start''"
| "b_evt_subclass BEVT_RECORDING_STOP = ''broadcast::recording-stop''"
| "b_evt_subclass BEVT_PAUSE = ''broadcast::pause''"
| "b_evt_subclass BEVT_RESUME = ''broadcast::resume''"
| "b_evt_subclass BEVT_LOCK = ''broadcast::lock''"
| "b_evt_subclass BEVT_UNLOCK = ''broadcast::unlock''"
| "b_evt_subclass BEVT_SPEAKER_REQUEST = ''broadcast::speaker-request''"
| "b_evt_subclass BEVT_RECORDING_FAILED = ''broadcast::recording-failed''"
| "b_evt_subclass BEVT_PRODUCER_STALL = ''broadcast::producer-stall''"
| "b_evt_subclass BEVT_HEARTBEAT = ''broadcast::heartbeat''"
| "b_evt_subclass BEVT_DESTROY_GRACE = ''broadcast::destroy-grace''"
| "b_evt_subclass BEVT_DTMF_ACTION = ''broadcast::dtmf-action''"

text \<open>The subclasses reserved at load and freed at unload, in the order of the calls.\<close>

definition broadcast_event_reserve_all :: "string list" where
  "broadcast_event_reserve_all =
    [''broadcast::create'', ''broadcast::destroy'', ''broadcast::speaker-set'', ''broadcast::speaker-clear'',
     ''broadcast::speaker-talking'', ''broadcast::speaker-silent'', ''broadcast::listener-join'',
     ''broadcast::listener-leave'', ''broadcast::listener-resync'', ''broadcast::listener-kicked'',
     ''broadcast::recording-start'', ''broadcast::recording-stop'', ''broadcast::pause'', ''broadcast::resume'',
     ''broadcast::lock'', ''broadcast::unlock'', ''broadcast::speaker-request'', ''broadcast::recording-failed'',
     ''broadcast::producer-stall'', ''broadcast::heartbeat'', ''broadcast::destroy-grace'', ''broadcast::dtmf-action'']"

definition broadcast_event_free_all :: "string list" where
  "broadcast_event_free_all =
    [''broadcast::create'', ''broadcast::destroy'', ''broadcast::speaker-set'', ''broadcast::speaker-clear'',
     ''broadcast::speaker-talking'', ''broadcast::speaker-silent'', ''broadcast::listener-join'',
     ''broadcast::listener-leave'', ''broadcast::listener-resync'', ''broadcast::listener-kicked'',
     ''broadcast::recording-start'', ''broadcast::recording-stop'', ''broadcast::pause'', ''broadcast::resume'',
     ''broadcast::lock'', ''broadcast::unlock'', ''broadcast::speaker-request'', ''broadcast::recording-failed'',
     ''broadcast::producer-stall'', ''broadcast::heartbeat'', ''broadcast::destroy-grace'', ''broadcast::dtmf-action'']"

section \<open>A small broadcast for examples\<close>

text \<open>The zeroed object of \<open>broadcast_create\<close> with the given event ring size; other theories extend it.\<close>

lemma zero_broadcast_inv: "2 \<le> unat esz \<Longrightarrow> evq_inv (zero_broadcast esz)"
  by (simp add: evq_inv_def zero_broadcast_def)

lemma zero_broadcast_budget: "evq_budget (zero_broadcast esz) = 2 ^ 32 - 1"
  by (simp add: evq_budget_def zero_broadcast_def)

lemma zero_broadcast_contents: "evq_contents (zero_broadcast esz) = []"
  by (simp add: evq_contents_def zero_broadcast_def)

text \<open>An enqueue, a dequeue and another enqueue, for the examples.\<close>

definition lock_unlock_ops :: "evt_req qop list" where
  "lock_unlock_ops = [QPut (7, BEVT_LOCK, 0, None), QGet, QPut (8, BEVT_UNLOCK, 0, None)]"

lemma lock_unlock_puts: "q_puts lock_unlock_ops = 2"
  by (simp add: lock_unlock_ops_def)

section \<open>Theorems\<close>

text \<open>
  C10. Under any interleaving of enqueues (joins, leaves, resyncs, DTMF, ...) with the emitter's
  dequeues, the event ring keeps its index invariant, and what the emitter fired followed by what
  is still queued is a subsequence, in order and without duplicates, of what was enqueued.
\<close>

theorem event_ring_fifo:
  assumes "evq_inv b" and "q_puts ops \<le> evq_budget b"
  shows "evq_inv (snd (q_run (evq_put cpy) emit_one b ops))
    \<and> subseq (fst (q_run (evq_put cpy) emit_one b ops) @ evq_contents (snd (q_run (evq_put cpy) emit_one b ops)))
        (evq_contents b @ q_offered (evq_put cpy) emit_one (evq_mk cpy) b ops)"
  using evq.run_inv [OF assms] evq.run_fifo [OF assms] by blast

theorem event_ring_fifo_witness:
  "subseq (fst (q_run (evq_put cut_copy) emit_one (zero_broadcast 4)
       lock_unlock_ops)
     @ evq_contents (snd (q_run (evq_put cut_copy) emit_one (zero_broadcast 4)
       lock_unlock_ops)))
   (evq_contents (zero_broadcast 4) @ q_offered (evq_put cut_copy) emit_one (evq_mk cut_copy) (zero_broadcast 4)
       lock_unlock_ops)"
  by (rule event_ring_fifo [THEN conjunct2])
     (simp_all add: zero_broadcast_inv zero_broadcast_budget lock_unlock_puts)

text \<open>
  C31. Exact accounting of a run: the number of enqueues equals the messages fired, plus the
  messages still queued, plus twice the growth of \<open>stat_events_dropped\<close>. The counter therefore
  reports half of the events that are lost.
\<close>

theorem event_ring_accounting:
  assumes "evq_inv b" and "q_puts ops \<le> evq_budget b"
  shows "length (evq_contents b) + q_puts ops + 2 * unat (b_stat_events_dropped b) =
    length (fst (q_run (evq_put cpy) emit_one b ops))
    + length (evq_contents (snd (q_run (evq_put cpy) emit_one b ops)))
    + 2 * unat (b_stat_events_dropped (snd (q_run (evq_put cpy) emit_one b ops)))"
  using evq.run_count [OF assms, of cpy] by (simp add: evq_drops_def)

theorem event_ring_accounting_witness:
  "length (evq_contents (zero_broadcast 2)) + q_puts lock_unlock_ops
     + 2 * unat (b_stat_events_dropped (zero_broadcast 2)) =
   length (fst (q_run (evq_put cut_copy) emit_one (zero_broadcast 2) lock_unlock_ops))
    + length (evq_contents (snd (q_run (evq_put cut_copy) emit_one (zero_broadcast 2) lock_unlock_ops)))
    + 2 * unat (b_stat_events_dropped (snd (q_run (evq_put cut_copy) emit_one (zero_broadcast 2) lock_unlock_ops)))"
  by (rule event_ring_accounting) (simp_all add: zero_broadcast_inv zero_broadcast_budget lock_unlock_puts)

text \<open>
  One enqueue on a live ring: with room, the new message is appended and nothing else
  changes in the queue; on a full ring (size - 1 messages) the oldest message is dropped, the new
  message is not stored either, and the drop counter grows by one.
\<close>

theorem enqueue_contents:
  assumes "evq_inv b" and "0 < evq_budget b"
  shows "evq_contents (broadcast_enqueue_event cpy now b ty mid data) =
      (if length (evq_contents b) < unat (b_event_ring_size b) - 1
       then evq_contents b @ [\<lparr>ev_type = ty, ev_member_id = mid, ev_seq = b_event_prod_idx b, ev_when = now,
              ev_data = (if zstr data then [] else cpy (the data) 256)\<rparr>]
       else tl (evq_contents b))
    \<and> unat (b_stat_events_dropped (broadcast_enqueue_event cpy now b ty mid data)) =
      unat (b_stat_events_dropped b) + (if length (evq_contents b) < unat (b_event_ring_size b) - 1 then 0 else 1)"
proof -
  have "length (evq_contents b) < evq_cap b \<or> length (evq_contents b) = evq_cap b"
    using evq.bound [OF assms(1)] by auto
  then show ?thesis
    using contents_enqueue_room [OF assms(1) _ assms(2), where r = "(now, ty, mid, data)" and cpy = cpy]
      contents_enqueue_full [OF assms(1), where r = "(now, ty, mid, data)" and cpy = cpy]
      evq_drops_put [OF assms, where r = "(now, ty, mid, data)" and cpy = cpy]
    by (auto simp: evq_put_def evq_mk_def evq_cap_def evq_drops_def)
qed

theorem enqueue_contents_witness:
  "evq_contents (broadcast_enqueue_event cut_copy 5 (zero_broadcast 4) BEVT_PAUSE 0 None) =
    (if length (evq_contents (zero_broadcast 4)) < unat (b_event_ring_size (zero_broadcast 4)) - 1
       then evq_contents (zero_broadcast 4) @ [\<lparr>ev_type = BEVT_PAUSE, ev_member_id = 0, ev_seq = b_event_prod_idx (zero_broadcast 4),
              ev_when = 5, ev_data = (if zstr None then [] else cut_copy (the None) 256)\<rparr>]
       else tl (evq_contents (zero_broadcast 4)))"
  by (rule enqueue_contents [THEN conjunct1]) (simp_all add: zero_broadcast_inv zero_broadcast_budget lock_unlock_puts)

text \<open>
  The emitter's inner loop terminates and, undisturbed, fires every queued message in queue
  order and leaves the ring empty.
\<close>

theorem emitter_drain_all:
  assumes "evq_inv b"
  shows "fst (emitter_visit b) = evq_contents b \<and> evq_contents (snd (emitter_visit b)) = []
    \<and> evq_inv (snd (emitter_visit b))"
proof -
  have "fst (emitter_drain b) = evq_contents b \<and> evq_contents (snd (emitter_drain b)) = []
    \<and> evq_inv (snd (emitter_drain b))" using assms
  proof (induction b rule: emitter_drain.induct)
    case (1 b)
    from 1(2) show ?case
    proof (rule evq.get_cases)
      assume "evq_contents b = []" "emit_one b = None"
      with 1(2) show ?case by (simp add: emitter_drain.simps)
    next
      fix m b' assume s: "emit_one b = Some (m, b')" "evq_contents b = m # evq_contents b'" "evq_inv b'"
      with 1(1) [OF s(1) refl s(3)] show ?case
        by (simp add: emitter_drain.simps [of b] case_prod_unfold Let_def)
    qed
  qed
  with assms show ?thesis by (simp add: emitter_visit_def evq_inv_def)
qed

theorem emitter_drain_all_witness:
  "fst (emitter_visit (zero_broadcast 4)) = evq_contents (zero_broadcast 4)
   \<and> evq_contents (snd (emitter_visit (zero_broadcast 4))) = [] \<and> evq_inv (snd (emitter_visit (zero_broadcast 4)))"
  by (rule emitter_drain_all) (simp add: zero_broadcast_inv)

lemma ring_size_one_run:
  "b_event_ring_size b = 1 \<Longrightarrow> b_event_prod_idx b = 0 \<Longrightarrow>
   fst (q_run (evq_put cpy) emit_one b ops) = []"
proof (induction ops arbitrary: b rule: q_puts.induct)
  case (2 a ops)
  have "b_event_prod_idx (evq_put cpy a b) = 0 \<and> b_event_ring_size (evq_put cpy a b) = 1"
    using 2(2,3) by (cases a)
      (auto simp: evq_put_def broadcast_enqueue_event_def Let_def u64_of_def split: option.splits)
  with 2(1) show ?case by simp
next
  case (3 ops)
  have "emit_one b = None" using 3(3) by (simp add: emit_one_def)
  with 3 show ?case by simp
qed simp

text \<open>
  With \<open>event-ring-size\<close> 1 (the loader accepts any value) a fresh broadcast never delivers a
  deferred event: whatever is enqueued, in whatever interleaving with the emitter, nothing is fired.
\<close>

theorem event_ring_size_one_delivers_nothing:
  "fst (q_run (evq_put cpy) emit_one (zero_broadcast 1) ops) = []"
  by (rule ring_size_one_run) (simp_all add: zero_broadcast_def)

lemma evt_type_list: "b_evt_subclass t \<in> set broadcast_event_reserve_all"
  by (cases t) (simp_all add: broadcast_event_reserve_all_def)

lemma evt_subclass_inj: "b_evt_subclass t = b_evt_subclass u \<Longrightarrow> t = u"
  by (cases t; cases u; simp)

text \<open>
  Event subclasses: different event types have different subclass names, every subclass the
  module can fire was reserved at load, nothing is reserved twice, and exactly the reserved
  subclasses are freed at unload.
\<close>

theorem evt_subclasses_reserved:
  "inj b_evt_subclass \<and> range b_evt_subclass = set broadcast_event_reserve_all
   \<and> distinct broadcast_event_reserve_all \<and> broadcast_event_free_all = broadcast_event_reserve_all"
proof -
  have "s \<in> range b_evt_subclass" if "s \<in> set broadcast_event_reserve_all" for s
    using that unfolding broadcast_event_reserve_all_def by (auto simp: image_iff intro: b_evt_subclass.simps [symmetric])
  moreover have "distinct broadcast_event_reserve_all" by code_simp
  ultimately show ?thesis
    using evt_type_list evt_subclass_inj
    by (auto simp: inj_def broadcast_event_free_all_def broadcast_event_reserve_all_def)
qed

end
