(* ===== verification/Listener_List.thy ===== *)
theory Listener_List
  imports Event_Queue "HOL-Library.Monad_Syntax"
begin

text \<open>
  broadcast_member.c: member ids, the start position of a new listener, and the doubly linked
  listener list that \<open>broadcast_listener_add\<close>, \<open>broadcast_listener_unlink_for_promotion\<close> and
  \<open>broadcast_listener_del\<close> keep under \<open>listener_lock\<close>. Members live in a heap of objects; an
  access through a NULL or dangling pointer is undefined behaviour in C and the value \<open>None\<close>
  here, so every theorem below that gives \<open>Some\<close> also states memory safety.
\<close>

section \<open>The interface: a list of members\<close>

datatype 'a lop = LAdd 'a | LUnlink 'a | LDel 'a

fun l_run :: "('a \<Rightarrow> 'r \<Rightarrow> (switch_status \<times> 'r) option) \<Rightarrow> ('a \<Rightarrow> 'r \<Rightarrow> (switch_status \<times> 'r) option)
    \<Rightarrow> ('a \<Rightarrow> 'r \<Rightarrow> (switch_status \<times> 'r) option) \<Rightarrow> 'a lop list \<Rightarrow> 'r \<Rightarrow> (switch_status list \<times> 'r) option" where
  "l_run add unlink del [] r = Some ([], r)"
| "l_run add unlink del (op # ops) r = do {
     (st, r') \<leftarrow> (case op of LAdd a \<Rightarrow> add a r | LUnlink a \<Rightarrow> unlink a r | LDel a \<Rightarrow> del a r);
     (sts, r'') \<leftarrow> l_run add unlink del ops r';
     Some (st # sts, r'') }"

text \<open>The specification: a duplicate-free list, newest member first, and the status each call returns.\<close>

fun l_spec :: "'a lop list \<Rightarrow> switch_status list \<Rightarrow> 'a list \<Rightarrow> 'a list" where
  "l_spec (LAdd a # ops) (st # sts) xs = l_spec ops sts (if st = ST_SUCCESS then a # xs else xs)"
| "l_spec (LUnlink a # ops) (st # sts) xs = l_spec ops sts (remove1 a xs)"
| "l_spec (LDel a # ops) (st # sts) xs = l_spec ops sts (remove1 a xs)"
| "l_spec _ _ xs = xs"

text \<open>The callers' side of the contract: a member is added only while it is not on the list.\<close>

fun l_usage :: "('a \<Rightarrow> bool) \<Rightarrow> 'a lop list \<Rightarrow> 'a set \<Rightarrow> bool" where
  "l_usage known [] S = True"
| "l_usage known (LAdd a # ops) S = (known a \<and> a \<notin> S \<and> l_usage known ops (insert a S))"
| "l_usage known (LUnlink a # ops) S = l_usage known ops (S - {a})"
| "l_usage known (LDel a # ops) S = l_usage known ops (S - {a})"

lemma l_usage_mono: "l_usage known ops S \<Longrightarrow> T \<subseteq> S \<Longrightarrow> l_usage known ops T"
proof (induction ops arbitrary: S T)
  case (Cons op ops)
  show ?case
  proof (cases op)
    case (LAdd a)
    with Cons.prems Cons.IH [of "insert a S" "insert a T"] show ?thesis by auto
  next
    case (LUnlink a)
    with Cons.prems Cons.IH [of "S - {a}" "T - {a}"] show ?thesis by auto
  next
    case (LDel a)
    with Cons.prems Cons.IH [of "S - {a}" "T - {a}"] show ?thesis by auto
  qed
qed simp

locale member_list =
  fixes rep :: "'r \<Rightarrow> 'a list \<Rightarrow> bool"
    and known :: "'r \<Rightarrow> 'a \<Rightarrow> bool"
    and admits :: "'r \<Rightarrow> bool"
    and add unlink del :: "'a \<Rightarrow> 'r \<Rightarrow> (switch_status \<times> 'r) option"
  assumes rep_distinct: "rep r xs \<Longrightarrow> distinct xs"
    and add_ok: "rep r xs \<Longrightarrow> known r a \<Longrightarrow> a \<notin> set xs \<Longrightarrow> admits r \<Longrightarrow>
        \<exists>r'. add a r = Some (ST_SUCCESS, r') \<and> rep r' (a # xs) \<and> known r' = known r"
    and add_refused: "rep r xs \<Longrightarrow> \<not> admits r \<Longrightarrow> add a r = Some (ST_FALSE, r)"
    and unlink_ok: "rep r xs \<Longrightarrow> a \<in> set xs \<Longrightarrow>
        \<exists>r'. unlink a r = Some (ST_SUCCESS, r') \<and> rep r' (remove1 a xs) \<and> known r' = known r"
    and unlink_absent: "rep r xs \<Longrightarrow> a \<notin> set xs \<Longrightarrow> unlink a r = Some (ST_FALSE, r)"
    and del_ok: "rep r xs \<Longrightarrow> a \<in> set xs \<Longrightarrow>
        \<exists>r'. del a r = Some (ST_SUCCESS, r') \<and> rep r' (remove1 a xs) \<and> known r' = known r"
    and del_absent: "rep r xs \<Longrightarrow> a \<notin> set xs \<Longrightarrow> del a r = Some (ST_SUCCESS, r)"
begin

lemma op_step:
  assumes "rep r xs" "l_usage (known r) (op # ops) (set xs)"
  obtains st r' xs' where
    "(case op of LAdd a \<Rightarrow> add a r | LUnlink a \<Rightarrow> unlink a r | LDel a \<Rightarrow> del a r) = Some (st, r')"
    "rep r' xs'" "known r' = known r" "l_usage (known r) ops (set xs')"
    "\<And>sts. l_spec (op # ops) (st # sts) xs = l_spec ops sts xs'"
proof (cases op)
  case (LAdd a)
  show ?thesis
  proof (cases "admits r")
    case True
    with assms LAdd add_ok [of r xs a] obtain r' where "add a r = Some (ST_SUCCESS, r')"
      "rep r' (a # xs)" "known r' = known r" by auto
    with that [of ST_SUCCESS r' "a # xs"] assms(2) LAdd show ?thesis by simp
  next
    case False
    with that [of ST_FALSE r xs] assms LAdd add_refused [OF assms(1)] l_usage_mono
    show ?thesis by (force simp: subset_insertI)
  qed
next
  case (LUnlink a)
  show ?thesis
  proof (cases "a \<in> set xs")
    case True
    with assms(1) unlink_ok [of r xs a] obtain r' where "unlink a r = Some (ST_SUCCESS, r')"
      "rep r' (remove1 a xs)" "known r' = known r" by auto
    with that [of ST_SUCCESS r' "remove1 a xs"] assms LUnlink rep_distinct [OF assms(1)] show ?thesis by simp
  next
    case False
    with that [of ST_FALSE r xs] assms LUnlink unlink_absent [OF assms(1)] show ?thesis
      by (simp add: remove1_idem)
  qed
next
  case (LDel a)
  show ?thesis
  proof (cases "a \<in> set xs")
    case True
    with assms(1) del_ok [of r xs a] obtain r' where "del a r = Some (ST_SUCCESS, r')"
      "rep r' (remove1 a xs)" "known r' = known r" by auto
    with that [of ST_SUCCESS r' "remove1 a xs"] assms LDel rep_distinct [OF assms(1)] show ?thesis by simp
  next
    case False
    with that [of ST_SUCCESS r xs] assms LDel del_absent [OF assms(1)] show ?thesis
      by (simp add: remove1_idem)
  qed
qed

text \<open>Any sequence of calls runs without a bad access and yields the list the specification gives.\<close>

lemma run_refines:
  "rep r xs \<Longrightarrow> l_usage (known r) ops (set xs) \<Longrightarrow>
   \<exists>sts r'. l_run add unlink del ops r = Some (sts, r') \<and> rep r' (l_spec ops sts xs) \<and> length sts = length ops"
proof (induction ops arbitrary: r xs)
  case (Cons op ops)
  from Cons.prems show ?case
  proof (rule op_step)
    fix st r' xs'
    assume s: "(case op of LAdd a \<Rightarrow> add a r | LUnlink a \<Rightarrow> unlink a r | LDel a \<Rightarrow> del a r) = Some (st, r')"
      "rep r' xs'" "known r' = known r" "l_usage (known r) ops (set xs')"
      and sp: "\<And>sts. l_spec (op # ops) (st # sts) xs = l_spec ops sts xs'"
    from Cons.IH [OF s(2)] s(3,4) obtain sts r'' where
      "l_run add unlink del ops r' = Some (sts, r'')" "rep r'' (l_spec ops sts xs')" "length sts = length ops"
      by auto
    with s(1) sp show ?case by auto
  qed
qed simp

end

section \<open>The model\<close>

type_synonym mheap = "maddr \<Rightarrow> member_obj option"

text \<open>A broadcast with its members' objects, and the module counter the join path also bumps.\<close>

record room =
  rm_b :: broadcast_obj
  rm_heap :: mheap
  rm_served :: u32

definition broadcast_member_next_id :: "broadcast_obj \<Rightarrow> u32 \<times> broadcast_obj" where
  "broadcast_member_next_id b =
     (let i = b_next_member_id b + 1 in (i, b\<lparr>b_next_member_id := i\<rparr>))"

text \<open>Where a new listener starts reading: at the producer, or \<open>listener_pre_buffer_ms\<close> behind it.\<close>

definition listener_start_seq :: "broadcast_profile \<Rightarrow> broadcast_obj \<Rightarrow> u64" where
  "listener_start_seq prof b =
     (let cs = b_producer_seq b; pre = p_listener_pre_buffer_ms prof
      in if pre \<noteq> 0 \<and> pre < b_interval_ms b * b_ring_size b then
           (let back = u64_of (pre div b_interval_ms b) in if back < cs then cs - back else cs)
         else cs)"

definition link_head :: "maddr \<Rightarrow> maddr option \<Rightarrow> mheap \<Rightarrow> mheap option" where
  "link_head a head h = do {
     m \<leftarrow> h a;
     let h = h(a \<mapsto> m\<lparr>m_next := head, m_prev := None\<rparr>);
     (case head of
        None \<Rightarrow> Some h
      | Some x \<Rightarrow> do { mx \<leftarrow> h x; Some (h(x \<mapsto> mx\<lparr>m_prev := Some a\<rparr>)) }) }"

text \<open>\<open>broadcast_listener_add\<close>; \<open>now\<close> and \<open>now'\<close> are the clock at the join and at the event.\<close>

definition broadcast_listener_add ::
  "copy_string \<Rightarrow> usec \<Rightarrow> usec \<Rightarrow> maddr \<Rightarrow> room \<Rightarrow> (switch_status \<times> room) option" where
  "broadcast_listener_add cpy now now' a r =
     (let b = rm_b r in
      if b_destroyed b then Some (ST_FALSE, r)
      else if has_flag (b_cflags b) BFLAG_LOCKED then Some (ST_FALSE, r)
      else do {
        prof \<leftarrow> b_profile b;
        if p_max_listeners prof \<le> b_listener_count b then Some (ST_FALSE, r)
        else do {
          m \<leftarrow> rm_heap r a;
          let (mid, b) = (if m_id m = 0 then broadcast_member_next_id b else (m_id m, b));
          let m = m\<lparr>m_id := mid, m_role := BMEMBER_ROLE_LISTENER, m_joined_at := now,
                    m_consumer_seq := listener_start_seq prof b\<rparr>;
          h \<leftarrow> link_head a (b_listener_head b) ((rm_heap r)(a \<mapsto> m));
          let count = b_listener_count b + 1;
          let b = b\<lparr>b_listener_head := Some a, b_listener_count := count,
                    b_stat_peak_listeners := (if b_stat_peak_listeners b < count then count else b_stat_peak_listeners b)\<rparr>;
          m \<leftarrow> h a;
          let (b, served) =
            (if \<not> has_flag (m_mflags m) MFLAG_GHOST then
               (broadcast_enqueue_event cpy now' (b\<lparr>b_stat_listeners_joined := b_stat_listeners_joined b + 1\<rparr>)
                  BEVT_LISTENER_JOIN mid None, rm_served r + 1)
             else (b, rm_served r));
          Some (ST_SUCCESS, \<lparr>rm_b = b, rm_heap = h(a \<mapsto> m\<lparr>m_mflags := set_flag (m_mflags m) MFLAG_RUNNING\<rparr>),
                  rm_served = served\<rparr>) } })"

text \<open>The search loops \<open>for (cur = head; cur; cur = cur->next)\<close>: the address of the first hit, if any.\<close>

partial_function (option) list_find ::
  "(maddr \<Rightarrow> member_obj \<Rightarrow> bool) \<Rightarrow> mheap \<Rightarrow> maddr option \<Rightarrow> maddr option option" where
  "list_find P h p =
     (case p of
        None \<Rightarrow> Some None
      | Some x \<Rightarrow> Option.bind (h x) (\<lambda>m. if P x m then Some (Some x) else list_find P h (m_next m)))"

declare list_find.simps [code]

text \<open>The unlink block shared by promotion and leave: the neighbours' links, then the node's own and the counter.\<close>

definition unlink_prev :: "member_obj \<Rightarrow> mheap \<Rightarrow> maddr option \<Rightarrow> (mheap \<times> maddr option) option" where
  "unlink_prev m h head =
     (case m_prev m of
        Some p \<Rightarrow> do { mp \<leftarrow> h p; Some (h(p \<mapsto> mp\<lparr>m_next := m_next m\<rparr>), head) }
      | None \<Rightarrow> Some (h, m_next m))"

definition unlink_next :: "member_obj \<Rightarrow> mheap \<Rightarrow> mheap option" where
  "unlink_next m h =
     (case m_next m of
        Some n \<Rightarrow> do { mn \<leftarrow> h n; Some (h(n \<mapsto> mn\<lparr>m_prev := m_prev m\<rparr>)) }
      | None \<Rightarrow> Some h)"

definition unlink_node :: "maddr \<Rightarrow> room \<Rightarrow> room option" where
  "unlink_node a r = do {
     m \<leftarrow> rm_heap r a;
     (h, head) \<leftarrow> unlink_prev m (rm_heap r) (b_listener_head (rm_b r));
     m \<leftarrow> h a;
     h \<leftarrow> unlink_next m h;
     m \<leftarrow> h a;
     let b = rm_b r;
     Some (r\<lparr>rm_b := b\<lparr>b_listener_head := head,
                b_listener_count := (if b_listener_count b \<noteq> 0 then b_listener_count b - 1 else b_listener_count b)\<rparr>,
             rm_heap := h(a \<mapsto> m\<lparr>m_next := None, m_prev := None\<rparr>)\<rparr>) }"

definition broadcast_listener_unlink_for_promotion :: "maddr \<Rightarrow> room \<Rightarrow> (switch_status \<times> room) option" where
  "broadcast_listener_unlink_for_promotion a r = do {
     found \<leftarrow> list_find (\<lambda>x m. x = a) (rm_heap r) (b_listener_head (rm_b r));
     (case found of
        None \<Rightarrow> Some (ST_FALSE, r)
      | Some x \<Rightarrow> do { r \<leftarrow> unlink_node a r; Some (ST_SUCCESS, r) }) }"

definition broadcast_listener_del ::
  "copy_string \<Rightarrow> usec \<Rightarrow> maddr \<Rightarrow> room \<Rightarrow> (switch_status \<times> room) option" where
  "broadcast_listener_del cpy now a r = do {
     found \<leftarrow> list_find (\<lambda>x m. x = a) (rm_heap r) (b_listener_head (rm_b r));
     (case found of
        None \<Rightarrow> Some (ST_SUCCESS, r)
      | Some x \<Rightarrow> do {
          r \<leftarrow> unlink_node a r;
          m \<leftarrow> rm_heap r a;
          let b = rm_b r;
          Some (ST_SUCCESS,
            (if \<not> has_flag (m_mflags m) MFLAG_GHOST then
               r\<lparr>rm_b := broadcast_enqueue_event cpy now (b\<lparr>b_stat_listeners_left := b_stat_listeners_left b + 1\<rparr>)
                    BEVT_LISTENER_LEAVE (m_id m) None\<rparr>
             else r)) }) }"

section \<open>Doubly linked segments\<close>

definition lk :: "mheap \<Rightarrow> maddr \<Rightarrow> (maddr option \<times> maddr option) option" where
  "lk h x = map_option (\<lambda>m. (m_prev m, m_next m)) (h x)"

text \<open>
  \<open>dll h pr p xs lst q\<close>: from pointer \<open>p\<close> the \<open>next\<close> fields lead through \<open>xs\<close> to pointer \<open>q\<close>, the
  \<open>prev\<close> fields lead back, the first one to \<open>pr\<close>; \<open>lst\<close> is the last node (or \<open>pr\<close>).
\<close>

fun dll :: "mheap \<Rightarrow> maddr option \<Rightarrow> maddr option \<Rightarrow> maddr list \<Rightarrow> maddr option \<Rightarrow> maddr option \<Rightarrow> bool" where
  "dll h pr p [] lst q = (p = q \<and> lst = pr)"
| "dll h pr p (x # xs) lst q = (p = Some x \<and> (\<exists>nx. lk h x = Some (pr, nx) \<and> dll h (Some x) nx xs lst q))"

lemma dll_append:
  "dll h pr p (xs @ ys) lst q = (\<exists>l m. dll h pr p xs l m \<and> dll h l m ys lst q)"
  by (induction xs arbitrary: pr p) auto

lemma dll_cong:
  "(\<And>x. x \<in> set xs \<Longrightarrow> lk h x = lk h' x) \<Longrightarrow> dll h pr p xs lst q = dll h' pr p xs lst q"
  by (induction xs arbitrary: pr p) auto

lemma dll_snoc_last: "dll h pr p (xs @ [y]) lst q \<Longrightarrow> lst = Some y"
  by (auto simp: dll_append)

lemma lk_Some: "lk h x = Some (pr, nx) \<longleftrightarrow> (\<exists>m. h x = Some m \<and> m_prev m = pr \<and> m_next m = nx)"
  by (auto simp: lk_def)

lemma lk_upd: "lk (h(x \<mapsto> m)) y = (if y = x then Some (m_prev m, m_next m) else lk h y)"
  by (simp add: lk_def)

lemma dll_known: "dll h pr p xs lst q \<Longrightarrow> x \<in> set xs \<Longrightarrow> h x \<noteq> None"
  by (induction xs arbitrary: pr p) (auto simp: lk_Some)

text \<open>The search loops terminate on such a list, never leave it, and find the first hit.\<close>

lemma list_find_dll:
  "dll h pr p xs lst None \<Longrightarrow>
   list_find P h p = Some (find (\<lambda>x. P x (the (h x))) xs)"
proof (induction xs arbitrary: pr p)
  case Nil
  then show ?case by (simp add: list_find.simps)
next
  case (Cons x xs)
  from Cons.prems obtain m where m: "p = Some x" "h x = Some m" "dll h (Some x) (m_next m) xs lst None"
    by (auto simp: lk_Some)
  from Cons.IH [OF m(3)] m(1,2) show ?case by (subst list_find.simps) simp
qed

lemma list_find_node:
  assumes "dll h pr p xs lst None"
  shows "list_find (\<lambda>x m. x = a) h p = Some (if a \<in> set xs then Some a else None)"
proof -
  have "find (\<lambda>x. x = a) xs = (if a \<in> set xs then Some a else None)"
    by (induction xs) auto
  with list_find_dll [OF assms, of "\<lambda>x m. x = a"] show ?thesis by simp
qed

text \<open>Two heaps that agree on everything but the links.\<close>

definition strip_links :: "member_obj \<Rightarrow> member_obj" where
  "strip_links m = m\<lparr>m_next := None, m_prev := None\<rparr>"

definition same_data :: "mheap \<Rightarrow> mheap \<Rightarrow> bool" where
  "same_data h h' \<longleftrightarrow> (\<forall>x. map_option strip_links (h x) = map_option strip_links (h' x))"

lemma same_data_trans: "same_data h h' \<Longrightarrow> same_data h' h'' \<Longrightarrow> same_data h h''"
  by (simp add: same_data_def)

lemma same_data_refl [simp]: "same_data h h"
  by (simp add: same_data_def)

lemma strip_links_upd [simp]:
  "strip_links (m\<lparr>m_next := a\<rparr>) = strip_links m" "strip_links (m\<lparr>m_prev := a\<rparr>) = strip_links m"
  by (simp_all add: strip_links_def)

lemma same_data_upd: "h x = Some m \<Longrightarrow> strip_links m' = strip_links m \<Longrightarrow> same_data h (h(x \<mapsto> m'))"
  by (simp add: same_data_def)

lemma same_data_known: "same_data h h' \<Longrightarrow> (h' x = None) = (h x = None)"
  unfolding same_data_def by (metis map_option_is_None)

lemma same_data_field:
  assumes "same_data h h'" "h x = Some m" "h' x = Some m'"
  shows "m_mflags m' = m_mflags m" "m_id m' = m_id m" "m_consumer_seq m' = m_consumer_seq m"
    "m_role m' = m_role m" "m_uuid m' = m_uuid m"
proof -
  have e: "strip_links m = strip_links m'" using assms unfolding same_data_def by (metis option.map(2) option.inject)
  have p: "m_mflags (strip_links k) = m_mflags k" "m_id (strip_links k) = m_id k"
    "m_consumer_seq (strip_links k) = m_consumer_seq k" "m_role (strip_links k) = m_role k"
    "m_uuid (strip_links k) = m_uuid k" for k
    by (simp_all add: strip_links_def)
  show "m_mflags m' = m_mflags m" "m_id m' = m_id m" "m_consumer_seq m' = m_consumer_seq m"
    "m_role m' = m_role m" "m_uuid m' = m_uuid m"
    using p [of m] p [of m'] e by metis+
qed

section \<open>Linking at the head\<close>

lemma link_head_dll:
  assumes "dll h None p xs lst None" "h a = Some m" "a \<notin> set xs"
  obtains h' lst' where "link_head a p h = Some h'" "dll h' None (Some a) (a # xs) lst' None" "same_data h h'"
proof -
  let ?h1 = "h(a \<mapsto> m\<lparr>m_next := p, m_prev := None\<rparr>)"
  have sd: "same_data h ?h1" using assms(2) by (rule same_data_upd) simp
  show ?thesis
  proof (cases xs)
    case Nil
    with assms(1) have "p = None" by simp
    moreover have "dll ?h1 None (Some a) [a] (Some a) None" using \<open>p = None\<close> by (simp add: lk_upd)
    ultimately show ?thesis using that [of ?h1 "Some a"] assms(2) sd Nil by (simp add: link_head_def)
  next
    case (Cons x ys)
    with assms obtain mx where x: "p = Some x" "h x = Some mx" "m_prev mx = None" "x \<noteq> a"
      "dll h (Some x) (m_next mx) ys lst None" "a \<notin> set ys"
      by (auto simp: lk_Some)
    let ?h2 = "?h1(x \<mapsto> mx\<lparr>m_prev := Some a\<rparr>)"
    have "x \<notin> set ys \<or> x \<in> set ys" by simp
    have hd: "link_head a p h = Some ?h2" using assms(2) x by (simp add: link_head_def)
    have "same_data ?h1 ?h2" using x by (intro same_data_upd [where m = mx]) auto
    with sd have sd2: "same_data h ?h2" by (rule same_data_trans)
    show ?thesis
    proof (cases "x \<in> set ys")
      case False
      then have "dll ?h2 (Some x) (m_next mx) ys lst None"
        using x by (subst dll_cong [where h' = h]) (auto simp: lk_upd)
      with x have "dll ?h2 None (Some a) (a # x # ys) lst None" by (simp add: lk_upd)
      with hd sd2 Cons show ?thesis using that by blast
    next
      case True
      then obtain us vs where "ys = us @ x # vs" by (auto simp: in_set_conv_decomp)
      with x(5) obtain l nx where "dll h (Some x) (m_next mx) us l (Some x)" "lk h x = Some (l, nx)"
        by (auto simp: dll_append)
      then have "l = None" using x by (simp add: lk_Some)
      with \<open>dll h (Some x) (m_next mx) us l (Some x)\<close> show ?thesis
        by (cases us rule: rev_cases) (auto dest: dll_snoc_last)
    qed
  qed
qed

section \<open>Unlinking\<close>

lemma dll_set_last_next:
  assumes "dll h pr p (ys @ [y]) l q" "h y = Some my" "y \<notin> set ys" "m_prev my' = m_prev my" "m_next my' = q'"
  shows "dll (h(y \<mapsto> my')) pr p (ys @ [y]) (Some y) q'"
  using assms by (auto simp: dll_append lk_upd lk_Some cong: dll_cong)
    (metis (no_types, lifting) dll_cong lk_upd)

lemma dll_set_first_prev:
  assumes "dll h pr p (z # zs) l q" "h z = Some mz" "z \<notin> set zs" "m_next mz' = m_next mz"
  shows "dll (h(z \<mapsto> mz')) (m_prev mz') p (z # zs) l q"
proof -
  from assms(1,2) have p: "p = Some z" and t: "dll h (Some z) (m_next mz) zs l q" by (auto simp: lk_Some)
  from assms(3) have "dll (h(z \<mapsto> mz')) (Some z) (m_next mz) zs l q = dll h (Some z) (m_next mz) zs l q"
    by (intro dll_cong) (auto simp: lk_upd)
  with p t assms(4) show ?thesis by (simp add: lk_upd)
qed

lemma unlink_prev_dll:
  assumes "dll h None head ys (m_prev m) (Some a)" "distinct ys"
  obtains h1 head' where "unlink_prev m h head = Some (h1, head')" "dll h1 None head' ys (m_prev m) (m_next m)"
    "same_data h h1" "\<And>x. x \<notin> set ys \<Longrightarrow> h1 x = h x"
proof (cases ys rule: rev_cases)
  case Nil
  with assms that [of h "m_next m"] show ?thesis by (simp add: unlink_prev_def)
next
  case (snoc us y)
  with assms(1) have prev: "m_prev m = Some y" by (auto dest: dll_snoc_last)
  from assms(1) snoc obtain my where my: "h y = Some my" by (auto simp: dll_append lk_Some)
  let ?h1 = "h(y \<mapsto> my\<lparr>m_next := m_next m\<rparr>)"
  have "dll ?h1 None head (us @ [y]) (Some y) (m_next m)"
    using assms snoc my by (intro dll_set_last_next [where my = my]) auto
  moreover have "same_data h ?h1" using my by (rule same_data_upd) simp
  ultimately show ?thesis
    using that [of ?h1 head] prev my snoc by (auto simp: unlink_prev_def)
qed

lemma unlink_next_dll:
  assumes "dll h (Some a) (m_next m) zs lst None" "distinct zs"
  obtains h2 lst' where "unlink_next m h = Some h2" "dll h2 (m_prev m) (m_next m) zs lst' None"
    "same_data h h2" "\<And>x. x \<notin> set zs \<Longrightarrow> h2 x = h x"
proof (cases zs)
  case Nil
  with assms that [of h "m_prev m"] show ?thesis by (simp add: unlink_next_def)
next
  case (Cons z ws)
  with assms(1) obtain mz where mz: "m_next m = Some z" "h z = Some mz" by (auto simp: lk_Some)
  let ?h2 = "h(z \<mapsto> mz\<lparr>m_prev := m_prev m\<rparr>)"
  have "dll ?h2 (m_prev (mz\<lparr>m_prev := m_prev m\<rparr>)) (m_next m) (z # ws) lst None"
    using assms Cons mz by (intro dll_set_first_prev [where mz = mz]) auto
  moreover have "same_data h ?h2" using mz(2) by (rule same_data_upd) simp
  ultimately show ?thesis
    using that [of ?h2 lst] mz Cons by (auto simp: unlink_next_def)
qed

lemma unlink_node_dll:
  assumes "dll (rm_heap r) None (b_listener_head (rm_b r)) (ys @ a # zs) lst None" "distinct (ys @ a # zs)"
  obtains h' head' lst' where
    "unlink_node a r = Some (r\<lparr>rm_b := (rm_b r)\<lparr>b_listener_head := head', b_listener_count :=
        (if b_listener_count (rm_b r) \<noteq> 0 then b_listener_count (rm_b r) - 1 else b_listener_count (rm_b r))\<rparr>,
      rm_heap := h'\<rparr>)"
    "dll h' None head' (ys @ zs) lst' None" "same_data (rm_heap r) h'"
proof -
  let ?h = "rm_heap r"
  from assms(1) obtain m where m: "?h a = Some m" "dll ?h None (b_listener_head (rm_b r)) ys (m_prev m) (Some a)"
    "dll ?h (Some a) (m_next m) zs lst None"
    by (auto simp: dll_append lk_Some)
  from m(2) assms(2) obtain h1 head' where h1: "unlink_prev m ?h (b_listener_head (rm_b r)) = Some (h1, head')"
    "dll h1 None head' ys (m_prev m) (m_next m)" "same_data ?h h1" "\<And>x. x \<notin> set ys \<Longrightarrow> h1 x = ?h x"
    by (auto elim: unlink_prev_dll)
  have a1: "h1 a = Some m" using h1(4) [of a] m(1) assms(2) by simp
  have "h1 x = ?h x" if "x \<in> set zs" for x using that assms(2) h1(4) [of x] by auto
  with m(3) have "dll h1 (Some a) (m_next m) zs lst None"
    by (subst dll_cong [where h' = ?h]) (auto simp: lk_def)
  with assms(2) obtain h2 lst' where h2: "unlink_next m h1 = Some h2" "dll h2 (m_prev m) (m_next m) zs lst' None"
    "same_data h1 h2" "\<And>x. x \<notin> set zs \<Longrightarrow> h2 x = h1 x"
    by (auto elim: unlink_next_dll)
  let ?h3 = "h2(a \<mapsto> m\<lparr>m_next := None, m_prev := None\<rparr>)"
  have a2: "h2 a = Some m" using h2(4) [of a] a1 assms(2) by simp
  have "h2 x = h1 x" if "x \<in> set ys" for x using that assms(2) h2(4) [of x] by auto
  with h1(2) have "dll h2 None head' ys (m_prev m) (m_next m)"
    by (subst dll_cong [where h' = h1]) (auto simp: lk_def)
  with h2(2) have "dll h2 None head' (ys @ zs) lst' None" by (auto simp: dll_append)
  then have "dll ?h3 None head' (ys @ zs) lst' None"
    using assms(2) by (subst dll_cong [where h' = h2]) (auto simp: lk_upd)
  moreover have "same_data h2 ?h3" using a2 by (rule same_data_upd) simp
  with h1(3) h2(3) have "same_data ?h ?h3" by (blast intro: same_data_trans)
  moreover have "unlink_node a r = Some (r\<lparr>rm_b := (rm_b r)\<lparr>b_listener_head := head', b_listener_count :=
        (if b_listener_count (rm_b r) \<noteq> 0 then b_listener_count (rm_b r) - 1 else b_listener_count (rm_b r))\<rparr>,
      rm_heap := ?h3\<rparr>)"
    using m(1) h1(1) a1 h2(1) a2 by (simp add: unlink_node_def Let_def)
  ultimately show ?thesis using that by blast
qed

section \<open>The list invariant and the interface\<close>

definition listener_rep :: "room \<Rightarrow> maddr list \<Rightarrow> bool" where
  "listener_rep r xs \<longleftrightarrow>
     (\<exists>lst. dll (rm_heap r) None (b_listener_head (rm_b r)) xs lst None) \<and> distinct xs
     \<and> unat (b_listener_count (rm_b r)) = length xs
     \<and> b_listener_count (rm_b r) \<le> b_stat_peak_listeners (rm_b r)
     \<and> (\<exists>prof. b_profile (rm_b r) = Some prof \<and> b_listener_count (rm_b r) \<le> p_max_listeners prof)"

definition listener_admits :: "room \<Rightarrow> bool" where
  "listener_admits r \<longleftrightarrow> \<not> b_destroyed (rm_b r) \<and> \<not> has_flag (b_cflags (rm_b r)) BFLAG_LOCKED
     \<and> (\<exists>prof. b_profile (rm_b r) = Some prof \<and> b_listener_count (rm_b r) < p_max_listeners prof)"

definition member_known :: "room \<Rightarrow> maddr \<Rightarrow> bool" where
  "member_known r a \<longleftrightarrow> rm_heap r a \<noteq> None"

lemma next_id_frame [simp]:
  "b_listener_head (snd (broadcast_member_next_id b)) = b_listener_head b"
  "b_listener_count (snd (broadcast_member_next_id b)) = b_listener_count b"
  "b_stat_peak_listeners (snd (broadcast_member_next_id b)) = b_stat_peak_listeners b"
  "b_profile (snd (broadcast_member_next_id b)) = b_profile b"
  "b_producer_seq (snd (broadcast_member_next_id b)) = b_producer_seq b"
  "b_stat_listeners_joined (snd (broadcast_member_next_id b)) = b_stat_listeners_joined b"
  by (simp_all add: broadcast_member_next_id_def Let_def)

lemma listener_add_refused:
  "listener_rep r xs \<Longrightarrow> \<not> listener_admits r \<Longrightarrow> broadcast_listener_add cpy now now' a r = Some (ST_FALSE, r)"
  by (auto simp: broadcast_listener_add_def listener_rep_def listener_admits_def Let_def)

text \<open>The effect of a successful join: the list, the member's fields, the counters and the event.\<close>

definition join_mid :: "broadcast_obj \<Rightarrow> member_obj \<Rightarrow> u32" where
  "join_mid b m = (if m_id m = 0 then b_next_member_id b + 1 else m_id m)"

definition joined_member :: "usec \<Rightarrow> broadcast_obj \<Rightarrow> member_obj \<Rightarrow> member_obj \<Rightarrow> bool" where
  "joined_member now b m m' \<longleftrightarrow> m_id m' = join_mid b m \<and> m_role m' = BMEMBER_ROLE_LISTENER
     \<and> m_joined_at m' = now \<and> m_consumer_seq m' = listener_start_seq (the (b_profile b)) b
     \<and> m_mflags m' = set_flag (m_mflags m) MFLAG_RUNNING \<and> m_uuid m' = m_uuid m"

lemma listener_add_ok:
  assumes rep: "listener_rep r xs" and m: "rm_heap r a = Some m" and notin: "a \<notin> set xs"
    and adm: "listener_admits r"
  obtains r' m' where "broadcast_listener_add cpy now now' a r = Some (ST_SUCCESS, r')"
    "listener_rep r' (a # xs)" "member_known r' = member_known r"
    "rm_heap r' a = Some m'" "joined_member now (rm_b r) m m'"
    "b_listener_count (rm_b r') = b_listener_count (rm_b r) + 1"
    "b_stat_listeners_joined (rm_b r') = b_stat_listeners_joined (rm_b r) + (if has_flag (m_mflags m) MFLAG_GHOST then 0 else 1)"
    "rm_served r' = rm_served r + (if has_flag (m_mflags m) MFLAG_GHOST then 0 else 1)"
    "b_event_prod_idx (rm_b r') = b_event_prod_idx (rm_b r) \<or> \<not> has_flag (m_mflags m) MFLAG_GHOST"
proof -
  let ?b = "rm_b r"
  from adm obtain prof where prof: "b_profile ?b = Some prof" "b_listener_count ?b < p_max_listeners prof"
    "\<not> b_destroyed ?b" "\<not> has_flag (b_cflags ?b) BFLAG_LOCKED"
    by (auto simp: listener_admits_def)
  define b1 where "b1 = (if m_id m = 0 then snd (broadcast_member_next_id ?b) else ?b)"
  define m1 where "m1 = m\<lparr>m_id := join_mid ?b m, m_role := BMEMBER_ROLE_LISTENER, m_joined_at := now,
                    m_consumer_seq := listener_start_seq prof b1\<rparr>"
  have seq: "listener_start_seq prof b1 = listener_start_seq prof ?b"
    by (simp add: b1_def listener_start_seq_def broadcast_member_next_id_def Let_def)
  have b1: "b_listener_head b1 = b_listener_head ?b" "b_listener_count b1 = b_listener_count ?b"
    "b_stat_peak_listeners b1 = b_stat_peak_listeners ?b" "b_profile b1 = b_profile ?b"
    "b_stat_listeners_joined b1 = b_stat_listeners_joined ?b" "b_event_prod_idx b1 = b_event_prod_idx ?b"
    by (simp_all add: b1_def broadcast_member_next_id_def Let_def)
  have ids: "(if m_id m = 0 then broadcast_member_next_id ?b else (m_id m, ?b)) = (join_mid ?b m, b1)"
    by (simp add: b1_def join_mid_def broadcast_member_next_id_def Let_def)
  let ?h0 = "(rm_heap r)(a \<mapsto> m1)"
  from rep obtain lst where "dll (rm_heap r) None (b_listener_head ?b) xs lst None"
    by (auto simp: listener_rep_def)
  then have "dll ?h0 None (b_listener_head ?b) xs lst None"
    using notin by (subst dll_cong [where h' = "rm_heap r"]) (auto simp: lk_upd)
  then obtain h lst' where h: "link_head a (b_listener_head ?b) ?h0 = Some h"
    "dll h None (Some a) (a # xs) lst' None" "same_data ?h0 h"
    using link_head_dll [of ?h0 "b_listener_head ?b" xs lst a m1] notin by auto
  from h(2) obtain m2 where m2: "h a = Some m2" by (auto simp: lk_Some)
  have mf: "m_mflags m2 = m_mflags m" "m_id m2 = join_mid ?b m" "m_consumer_seq m2 = listener_start_seq prof ?b"
    "m_role m2 = BMEMBER_ROLE_LISTENER" "m_uuid m2 = m_uuid m"
    using same_data_field [OF h(3) _ m2, of m1] by (auto simp: m1_def seq)
  have mj: "m_joined_at m2 = now"
  proof -
    have "strip_links m1 = strip_links m2" using h(3) m2 unfolding same_data_def
      by (metis fun_upd_same option.map(2) option.inject)
    then have "m_joined_at (strip_links m1) = m_joined_at (strip_links m2)" by simp
    then show ?thesis by (simp add: strip_links_def m1_def)
  qed
  let ?m' = "m2\<lparr>m_mflags := set_flag (m_mflags m2) MFLAG_RUNNING\<rparr>"
  let ?count = "b_listener_count ?b + 1"
  let ?b2 = "b1\<lparr>b_listener_head := Some a, b_listener_count := ?count,
     b_stat_peak_listeners := (if b_stat_peak_listeners ?b < ?count then ?count else b_stat_peak_listeners ?b)\<rparr>"
  let ?g = "has_flag (m_mflags m) MFLAG_GHOST"
  let ?b3 = "if \<not> ?g then broadcast_enqueue_event cpy now' (?b2\<lparr>b_stat_listeners_joined := b_stat_listeners_joined ?b + 1\<rparr>)
                  BEVT_LISTENER_JOIN (join_mid ?b m) None else ?b2"
  let ?r' = "\<lparr>rm_b = ?b3, rm_heap = h(a \<mapsto> ?m'), rm_served = (if \<not> ?g then rm_served r + 1 else rm_served r)\<rparr>"
  have res: "broadcast_listener_add cpy now now' a r = Some (ST_SUCCESS, ?r')"
    using prof m h(1) m2 mf
    by (simp add: broadcast_listener_add_def Let_def ids b1 not_le m1_def case_prod_unfold)
  have cnt: "unat ?count = Suc (unat (b_listener_count ?b))"
    using prof(2) by (intro unat_Suc_nowrap [of _ "p_max_listeners prof"]) (simp add: word_less_nat_alt)
  have le: "?count \<le> p_max_listeners prof"
    using prof(2) cnt by (simp add: word_le_nat_alt word_less_nat_alt)
  have "dll (h(a \<mapsto> ?m')) None (Some a) (a # xs) lst' None"
    using h(2) m2 by (subst dll_cong [where h' = h]) (auto simp: lk_upd lk_def)
  then have "listener_rep ?r' (a # xs)"
    using rep notin prof(1) cnt le by (auto simp: listener_rep_def b1 not_less)
  moreover have "(h x = None) = (rm_heap r x = None)" for x
    using same_data_known [OF h(3), of x] m by (simp split: if_splits)
  then have "member_known ?r' = member_known r"
    using m by (simp add: member_known_def fun_eq_iff del: not_None_eq)
  moreover have "joined_member now ?b m ?m'"
    using mf mj prof(1) by (simp add: joined_member_def)
  ultimately show ?thesis
    using that [OF res] b1 by simp
qed

lemma unlink_keeps_rep:
  assumes "listener_rep r xs" "a \<in> set xs"
  obtains r' where "unlink_node a r = Some r'" "listener_rep r' (remove1 a xs)" "member_known r' = member_known r"
    "same_data (rm_heap r) (rm_heap r')" "rm_served r' = rm_served r"
    "\<exists>hd. rm_b r' = (rm_b r)\<lparr>b_listener_head := hd, b_listener_count := b_listener_count (rm_b r) - 1\<rparr>"
proof -
  from assms(1) obtain lst where d: "dll (rm_heap r) None (b_listener_head (rm_b r)) xs lst None" "distinct xs"
    by (auto simp: listener_rep_def)
  from assms(2) obtain ys zs where xs: "xs = ys @ a # zs" "a \<notin> set ys" by (metis split_list_first)
  have rem: "remove1 a xs = ys @ zs" using xs by (simp add: remove1_append)
  have n: "unat (b_listener_count (rm_b r)) = length xs" "0 < length xs"
    using assms xs by (auto simp: listener_rep_def)
  then have nz: "b_listener_count (rm_b r) \<noteq> 0" by auto
  from n have dec: "unat (b_listener_count (rm_b r) - 1) = length xs - 1" by (simp add: unat_dec_nowrap)
  then have le: "b_listener_count (rm_b r) - 1 \<le> b_listener_count (rm_b r)" using n by (simp add: word_le_nat_alt)
  from d [unfolded xs(1)] obtain h' head' lst' where
    u: "unlink_node a r = Some (r\<lparr>rm_b := (rm_b r)\<lparr>b_listener_head := head', b_listener_count :=
        b_listener_count (rm_b r) - 1\<rparr>, rm_heap := h'\<rparr>)"
    "dll h' None head' (ys @ zs) lst' None" "same_data (rm_heap r) h'"
    using nz by (auto elim!: unlink_node_dll)
  let ?r' = "r\<lparr>rm_b := (rm_b r)\<lparr>b_listener_head := head', b_listener_count := b_listener_count (rm_b r) - 1\<rparr>, rm_heap := h'\<rparr>"
  have "length xs - 1 = length (ys @ zs)" using xs by simp
  then have rep': "listener_rep ?r' (remove1 a xs)"
    using assms(1) u(2) dec le d(2) xs rem by (auto simp: listener_rep_def)
  have known': "member_known ?r' = member_known r"
    using same_data_known [OF u(3)] by (simp add: member_known_def fun_eq_iff del: not_None_eq)
  show ?thesis
    by (rule that [OF u(1) rep' known']) (use u(3) in auto)
qed

lemma find_in_rep:
  "listener_rep r xs \<Longrightarrow>
   list_find (\<lambda>x m. x = a) (rm_heap r) (b_listener_head (rm_b r)) = Some (if a \<in> set xs then Some a else None)"
  by (auto simp: listener_rep_def list_find_node)

lemma unlink_promotion_ok:
  assumes "listener_rep r xs" "a \<in> set xs"
  shows "\<exists>r'. broadcast_listener_unlink_for_promotion a r = Some (ST_SUCCESS, r')
    \<and> listener_rep r' (remove1 a xs) \<and> member_known r' = member_known r"
proof -
  from assms obtain r' where "unlink_node a r = Some r'" "listener_rep r' (remove1 a xs)"
    "member_known r' = member_known r" by (rule unlink_keeps_rep)
  then show ?thesis
    using find_in_rep [OF assms(1), of a] assms(2) by (simp add: broadcast_listener_unlink_for_promotion_def)
qed

lemma listener_del_result:
  assumes "listener_rep r xs" "a \<in> set xs" "rm_heap r a = Some m"
  obtains r' where "broadcast_listener_del cpy now a r = Some (ST_SUCCESS, r')"
    "listener_rep r' (remove1 a xs)" "member_known r' = member_known r"
    "b_stat_listeners_left (rm_b r') = b_stat_listeners_left (rm_b r) + (if has_flag (m_mflags m) MFLAG_GHOST then 0 else 1)"
    "same_data (rm_heap r) (rm_heap r')"
    "b_stat_listeners_joined (rm_b r') = b_stat_listeners_joined (rm_b r)"
proof -
  from assms(1,2) obtain r' where r':
    "unlink_node a r = Some r'" "listener_rep r' (remove1 a xs)" "member_known r' = member_known r"
    "same_data (rm_heap r) (rm_heap r')" "rm_served r' = rm_served r"
    "\<exists>hd. rm_b r' = (rm_b r)\<lparr>b_listener_head := hd, b_listener_count := b_listener_count (rm_b r) - 1\<rparr>"
    by (rule unlink_keeps_rep)
  from same_data_known [OF r'(4), of a] assms(3) obtain m0 where "rm_heap r' a = Some m0" by auto
  with same_data_field(1) [OF r'(4) assms(3) this] obtain m' where
    m': "rm_heap r' a = Some m'" "m_mflags m' = m_mflags m" by blast
  let ?r'' = "if \<not> has_flag (m_mflags m') MFLAG_GHOST then
     r'\<lparr>rm_b := broadcast_enqueue_event cpy now ((rm_b r')\<lparr>b_stat_listeners_left := b_stat_listeners_left (rm_b r') + 1\<rparr>)
          BEVT_LISTENER_LEAVE (m_id m') None\<rparr> else r'"
  have "broadcast_listener_del cpy now a r = Some (ST_SUCCESS, ?r'')"
    using r'(1) m'(1) assms(2) find_in_rep [OF assms(1), of a] by (simp add: broadcast_listener_del_def Let_def)
  moreover have "listener_rep ?r'' (remove1 a xs)" using r'(2) by (simp add: listener_rep_def)
  moreover have "member_known ?r'' = member_known r" using r'(3) by (simp add: member_known_def fun_eq_iff)
  moreover have "b_stat_listeners_left (rm_b r') = b_stat_listeners_left (rm_b r)"
    "b_stat_listeners_joined (rm_b r') = b_stat_listeners_joined (rm_b r)" using r'(6) by auto
  ultimately show ?thesis
    by (intro that [of ?r'']) (use m'(2) r'(4) in simp_all)
qed

interpretation llist: member_list listener_rep member_known listener_admits
  "broadcast_listener_add cpy now now'" broadcast_listener_unlink_for_promotion "broadcast_listener_del cpy now''"
  for cpy now now' now''
proof unfold_locales
  fix r xs a
  show "listener_rep r xs \<Longrightarrow> distinct xs" by (simp add: listener_rep_def)
  show "listener_rep r xs \<Longrightarrow> \<not> listener_admits r \<Longrightarrow> broadcast_listener_add cpy now now' a r = Some (ST_FALSE, r)"
    by (rule listener_add_refused)
  show "listener_rep r xs \<Longrightarrow> a \<notin> set xs \<Longrightarrow> broadcast_listener_unlink_for_promotion a r = Some (ST_FALSE, r)"
    by (simp add: broadcast_listener_unlink_for_promotion_def find_in_rep)
  show "listener_rep r xs \<Longrightarrow> a \<notin> set xs \<Longrightarrow> broadcast_listener_del cpy now'' a r = Some (ST_SUCCESS, r)"
    by (simp add: broadcast_listener_del_def find_in_rep)
  show "listener_rep r xs \<Longrightarrow> a \<in> set xs \<Longrightarrow>
      \<exists>r'. broadcast_listener_unlink_for_promotion a r = Some (ST_SUCCESS, r')
        \<and> listener_rep r' (remove1 a xs) \<and> member_known r' = member_known r"
    by (rule unlink_promotion_ok)
next
  fix r xs a
  assume "listener_rep r xs" "member_known r a" "a \<notin> set xs" "listener_admits r"
  then obtain m where "rm_heap r a = Some m" by (auto simp: member_known_def)
  with \<open>listener_rep r xs\<close> \<open>a \<notin> set xs\<close> \<open>listener_admits r\<close>
  show "\<exists>r'. broadcast_listener_add cpy now now' a r = Some (ST_SUCCESS, r') \<and> listener_rep r' (a # xs)
     \<and> member_known r' = member_known r"
    by (metis listener_add_ok)
next
  fix r xs a
  assume *: "listener_rep r xs" "a \<in> set xs"
  then obtain m where "rm_heap r a = Some m"
    using dll_known by (fastforce simp: listener_rep_def)
  with * show "\<exists>r'. broadcast_listener_del cpy now'' a r = Some (ST_SUCCESS, r') \<and> listener_rep r' (remove1 a xs)
     \<and> member_known r' = member_known r"
    by (metis listener_del_result)
qed

section \<open>Examples\<close>

definition two_member_room :: room where
  "two_member_room = \<lparr>rm_b = (zero_broadcast 4)\<lparr>b_profile := Some zero_profile\<rparr>,
     rm_heap = [1 \<mapsto> zero_member ''aa'', 2 \<mapsto> zero_member ''bb''], rm_served = 0\<rparr>"

lemma two_member_room_rep: "listener_rep two_member_room []"
  by (simp add: listener_rep_def two_member_room_def zero_broadcast_def zero_profile_def)

lemma two_member_room_known: "member_known two_member_room 1" "member_known two_member_room 2"
  by (simp_all add: member_known_def two_member_room_def)

section \<open>Theorems\<close>

text \<open>
  C3. The listener list. From any state that represents a duplicate-free list, every sequence of
  joins, unlinks for promotion and leaves (each join of an existing member that is not on the
  list) runs without touching a NULL or dangling pointer, keeps the doubly linked list, the
  counter (equal to the list's length, at most \<open>max_listeners\<close>, at most the recorded peak), and
  produces exactly the list that the abstract specification gives for the returned statuses.
\<close>

theorem listener_list_refinement:
  assumes "listener_rep r xs" and "l_usage (member_known r) ops (set xs)"
  shows "\<exists>sts r'. l_run (broadcast_listener_add cpy now now') broadcast_listener_unlink_for_promotion
      (broadcast_listener_del cpy now'') ops r = Some (sts, r')
    \<and> listener_rep r' (l_spec ops sts xs) \<and> length sts = length ops"
  by (rule llist.run_refines [OF assms])

theorem listener_list_refinement_witness:
  "\<exists>sts r'. l_run (broadcast_listener_add cut_copy 5 6) broadcast_listener_unlink_for_promotion
      (broadcast_listener_del cut_copy 7) [LAdd 1, LAdd 2, LUnlink 1, LDel 1, LDel 2] two_member_room = Some (sts, r')
    \<and> listener_rep r' (l_spec [LAdd 1, LAdd 2, LUnlink 1, LDel 1, LDel 2] sts [])
    \<and> length sts = length [LAdd 1, LAdd 2, LUnlink 1, LDel 1, LDel (2::maddr)]"
  by (rule listener_list_refinement) (simp_all add: two_member_room_rep two_member_room_known [simplified])

text \<open>
  C23. A join is decided by the broadcast's state alone: refused (status FALSE, nothing changed)
  exactly when the broadcast is destroyed, locked, or holds \<open>max_listeners\<close> listeners; otherwise
  the member is put first on the list with a fresh id if it had none, the listener role, its start
  position and MFLAG_RUNNING, and, unless it is a ghost, the two join counters grow by one.
\<close>

theorem listener_join_outcome:
  assumes "listener_rep r xs" and "rm_heap r a = Some m" and "a \<notin> set xs"
  shows "if b_destroyed (rm_b r) \<or> has_flag (b_cflags (rm_b r)) BFLAG_LOCKED
           \<or> unat (b_listener_count (rm_b r)) = unat (p_max_listeners (the (b_profile (rm_b r))))
         then broadcast_listener_add cpy now now' a r = Some (ST_FALSE, r)
         else \<exists>r' m'. broadcast_listener_add cpy now now' a r = Some (ST_SUCCESS, r')
           \<and> listener_rep r' (a # xs) \<and> rm_heap r' a = Some m' \<and> joined_member now (rm_b r) m m'
           \<and> b_stat_listeners_joined (rm_b r') =
               b_stat_listeners_joined (rm_b r) + (if has_flag (m_mflags m) MFLAG_GHOST then 0 else 1)
           \<and> rm_served r' = rm_served r + (if has_flag (m_mflags m) MFLAG_GHOST then 0 else 1)"
proof -
  have adm: "listener_admits r \<longleftrightarrow> \<not> (b_destroyed (rm_b r) \<or> has_flag (b_cflags (rm_b r)) BFLAG_LOCKED
           \<or> unat (b_listener_count (rm_b r)) = unat (p_max_listeners (the (b_profile (rm_b r)))))"
    using assms(1) by (auto simp: listener_admits_def listener_rep_def word_less_nat_alt word_le_nat_alt)
  show ?thesis
  proof (cases "listener_admits r")
    case True
    from listener_add_ok [OF assms True, of cpy now now'] obtain r' m' where
      "broadcast_listener_add cpy now now' a r = Some (ST_SUCCESS, r')"
      "listener_rep r' (a # xs)" "rm_heap r' a = Some m'" "joined_member now (rm_b r) m m'"
      "b_stat_listeners_joined (rm_b r') = b_stat_listeners_joined (rm_b r) + (if has_flag (m_mflags m) MFLAG_GHOST then 0 else 1)"
      "rm_served r' = rm_served r + (if has_flag (m_mflags m) MFLAG_GHOST then 0 else 1)" by metis
    with True adm show ?thesis by auto
  next
    case False
    with adm listener_add_refused [OF assms(1) False] show ?thesis by auto
  qed
qed

theorem listener_join_outcome_witness:
  "\<exists>r' m'. broadcast_listener_add cut_copy 5 6 1 two_member_room = Some (ST_SUCCESS, r')
     \<and> listener_rep r' [1] \<and> rm_heap r' 1 = Some m' \<and> m_id m' = 1"
  using listener_join_outcome [of two_member_room "[]" 1 "zero_member ''aa''" cut_copy 5 6, OF two_member_room_rep]
  by (auto simp: two_member_room_def zero_broadcast_def zero_profile_def has_flag_zero joined_member_def join_mid_def zero_member_def)

text \<open>
  The start position of a listener: never ahead of the producer, at most
  \<open>listener_pre_buffer_ms / interval_ms\<close> frames behind it, and, when \<open>interval_ms * ring_size\<close> does
  not wrap, always less than \<open>ring_size\<close> frames behind, so the first frame is still in the ring.
\<close>

theorem listener_start_in_ring:
  assumes "unat (b_interval_ms b) * unat (b_ring_size b) < 2 ^ 32"
  shows "unat (listener_start_seq prof b) \<le> unat (b_producer_seq b)
    \<and> unat (b_producer_seq b) - unat (listener_start_seq prof b)
        \<le> unat (p_listener_pre_buffer_ms prof) div unat (b_interval_ms b)
    \<and> (listener_start_seq prof b \<noteq> b_producer_seq b \<longrightarrow>
        unat (b_producer_seq b) - unat (listener_start_seq prof b) < unat (b_ring_size b))"
proof -
  let ?pre = "p_listener_pre_buffer_ms prof" and ?bk = "u64_of (p_listener_pre_buffer_ms prof div b_interval_ms b)"
  show ?thesis
  proof (cases "?pre \<noteq> 0 \<and> ?pre < b_interval_ms b * b_ring_size b \<and> ?bk < b_producer_seq b")
    case True
    then have lt: "unat ?pre < unat (b_interval_ms b) * unat (b_ring_size b)"
      using assms by (simp add: word_less_nat_alt unat_word_ariths)
    have bk: "unat ?bk = unat ?pre div unat (b_interval_ms b)" by (simp add: unat_div)
    have ring: "unat ?bk < unat (b_ring_size b)"
      using lt unfolding bk by (simp add: less_mult_imp_div_less mult.commute)
    from True have d: "listener_start_seq prof b = b_producer_seq b - ?bk"
      by (simp add: listener_start_seq_def Let_def)
    from True have "unat ?bk \<le> unat (b_producer_seq b)" by (simp add: word_less_nat_alt)
    then have "unat (b_producer_seq b - ?bk) = unat (b_producer_seq b) - unat ?bk"
      by (rule unat_diff_nowrap)
    with d bk ring \<open>unat ?bk \<le> unat (b_producer_seq b)\<close> show ?thesis by auto
  next
    case False
    then have "listener_start_seq prof b = b_producer_seq b"
      by (auto simp: listener_start_seq_def Let_def)
    then show ?thesis by simp
  qed
qed

theorem listener_start_in_ring_witness:
  "unat (listener_start_seq (zero_profile\<lparr>p_listener_pre_buffer_ms := 100\<rparr>)
      ((zero_broadcast 4)\<lparr>b_interval_ms := 20, b_ring_size := 50, b_producer_seq := 70\<rparr>)) \<le> 70
   \<and> listener_start_seq (zero_profile\<lparr>p_listener_pre_buffer_ms := 100\<rparr>)
      ((zero_broadcast 4)\<lparr>b_interval_ms := 20, b_ring_size := 50, b_producer_seq := 70\<rparr>) = 65"
  using listener_start_in_ring [of "(zero_broadcast 4)\<lparr>b_interval_ms := 20, b_ring_size := 50, b_producer_seq := 70\<rparr>"
      "zero_profile\<lparr>p_listener_pre_buffer_ms := 100\<rparr>"]
  by (simp add: listener_start_seq_def u64_of_def zero_profile_def zero_broadcast_def)

end
