(* ===== verification/Frame_Ring.thy ===== *)
theory Frame_Ring
  imports Bcast_Types "HOL-Library.Sublist" "HOL-Library.Monad_Syntax"
begin

text \<open>
  The media ring between one producer and many consumers: publication of a frame
  (broadcast_producer.c), the slot check every consumer makes, the cursor step of a listener
  (broadcast_listener.c) and of a recorder (broadcast_record.c). The interface \<open>media_ring\<close> states
  what a consumer may rely on: the ring is the last \<open>size\<close> frames of the published history.
\<close>

section \<open>Consumer cursors\<close>

text \<open>
  The cursor part of one listener tick: \<open>lookup\<close> is the slot check, \<open>pseq\<close> the producer position,
  \<open>cs\<close> the listener's position. The result is the frame to send (\<open>None\<close>: silence), the new
  position, and the lag when the listener was snapped forward.
\<close>

definition cursor_step :: "(u64 \<Rightarrow> 'f option) \<Rightarrow> u64 \<Rightarrow> u32 \<Rightarrow> u64 \<Rightarrow> 'f option \<times> u64 \<times> u64 option" where
  "cursor_step lookup pseq max_lag cs =
     (if cs < pseq then
        let (cs, resync) = (if u64_of max_lag < pseq - cs then (pseq - 1, Some (pseq - cs)) else (cs, None))
        in case lookup cs of
             Some f \<Rightarrow> (Some f, cs + 1, resync)
           | None \<Rightarrow> (None, pseq - 1 + 1, resync)
      else (None, cs, None))"

text \<open>One iteration of the recorder's inner loop: write the frame if its slot still holds it, and go on.\<close>

definition rec_step :: "(u64 \<Rightarrow> 'f option) \<Rightarrow> u64 \<Rightarrow> 'f option \<times> u64" where
  "rec_step lookup cs = (lookup cs, cs + 1)"

datatype 'p rop = RPub 'p | RTick

text \<open>A listener ticking while the producer publishes, in any interleaving: what it sent, and the end state.\<close>

fun listener_runs :: "('p \<Rightarrow> 's \<Rightarrow> 's option) \<Rightarrow> ('s \<Rightarrow> u64 \<Rightarrow> 'f option) \<Rightarrow> ('s \<Rightarrow> u64) \<Rightarrow> u32
    \<Rightarrow> 's \<Rightarrow> u64 \<Rightarrow> 'p rop list \<Rightarrow> ('f list \<times> 's \<times> u64) option" where
  "listener_runs publish lookup head max_lag s cs [] = Some ([], s, cs)"
| "listener_runs publish lookup head max_lag s cs (RPub p # ops) = do {
     s' \<leftarrow> publish p s; listener_runs publish lookup head max_lag s' cs ops }"
| "listener_runs publish lookup head max_lag s cs (RTick # ops) = do {
     let (f, cs', rs) = cursor_step (lookup s) (head s) max_lag cs;
     (fs, t) \<leftarrow> listener_runs publish lookup head max_lag s cs' ops;
     Some ((case f of None \<Rightarrow> fs | Some x \<Rightarrow> x # fs), t) }"

text \<open>A recorder iterating while the producer publishes; it never iterates past the producer.\<close>

fun recorder_runs :: "('p \<Rightarrow> 's \<Rightarrow> 's option) \<Rightarrow> ('s \<Rightarrow> u64 \<Rightarrow> 'f option) \<Rightarrow> ('s \<Rightarrow> u64)
    \<Rightarrow> 's \<Rightarrow> u64 \<Rightarrow> 'p rop list \<Rightarrow> ('f list \<times> 's \<times> u64) option" where
  "recorder_runs publish lookup head s cs [] = Some ([], s, cs)"
| "recorder_runs publish lookup head s cs (RPub p # ops) = do {
     s' \<leftarrow> publish p s; recorder_runs publish lookup head s' cs ops }"
| "recorder_runs publish lookup head s cs (RTick # ops) =
     (if cs < head s then do {
        let (f, cs') = rec_step (lookup s) cs;
        (fs, t) \<leftarrow> recorder_runs publish lookup head s cs' ops;
        Some ((case f of None \<Rightarrow> fs | Some x \<Rightarrow> x # fs), t) }
      else recorder_runs publish lookup head s cs ops)"

fun pubs :: "'p rop list \<Rightarrow> 'p list" where
  "pubs [] = []"
| "pubs (RPub p # ops) = p # pubs ops"
| "pubs (RTick # ops) = pubs ops"

text \<open>At every tick of the schedule the consumer is at most \<open>lim\<close> frames behind.\<close>

fun keeps_up :: "nat \<Rightarrow> nat \<Rightarrow> 'p rop list \<Rightarrow> bool" where
  "keeps_up lim lag [] = True"
| "keeps_up lim lag (RPub p # ops) = keeps_up lim (Suc lag) ops"
| "keeps_up lim lag (RTick # ops) = (lag \<le> lim \<and> keeps_up lim (lag - 1) ops)"

section \<open>The interface\<close>

locale media_ring =
  fixes ring :: "'s \<Rightarrow> 'f list \<Rightarrow> bool"
    and size :: "'s \<Rightarrow> nat"
    and head :: "'s \<Rightarrow> u64"
    and lookup :: "'s \<Rightarrow> u64 \<Rightarrow> 'f option"
    and fits :: "'p \<Rightarrow> bool"
    and publish :: "'p \<Rightarrow> 's \<Rightarrow> 's option"
    and carries :: "'p \<Rightarrow> 'f \<Rightarrow> bool"
  assumes size_pos: "ring s h \<Longrightarrow> 0 < size s"
    and head_len: "ring s h \<Longrightarrow> unat (head s) = length h"
    and hit: "ring s h \<Longrightarrow> unat i < length h \<Longrightarrow> length h \<le> unat i + size s \<Longrightarrow> lookup s i = Some (h ! unat i)"
    and miss: "ring s h \<Longrightarrow> unat i + size s < length h \<Longrightarrow> lookup s i = None"
    and pub: "ring s h \<Longrightarrow> fits p \<Longrightarrow> Suc (length h) < 2 ^ 64 \<Longrightarrow>
        \<exists>s' f. publish p s = Some s' \<and> ring s' (h @ [f]) \<and> size s' = size s \<and> carries p f"
begin

text \<open>The four cases of a listener tick.\<close>

lemma cursor_idle: "ring s h \<Longrightarrow> unat cs = length h \<Longrightarrow> cursor_step (lookup s) (head s) ml cs = (None, cs, None)"
  using head_len [of s h] by (simp add: cursor_step_def word_less_nat_alt)

lemma lag_nat:
  assumes "ring s h" "unat cs < length h"
  shows "unat (head s - cs) = length h - unat cs" "unat (head s - 1) = length h - 1" "head s - 1 + 1 = head s"
    "cs < head s"
  using assms head_len [OF assms(1)] by (auto simp: unat_diff_nowrap unat_dec_nowrap word_less_nat_alt)

lemma cursor_follow:
  assumes "ring s h" "unat cs < length h" "length h - unat cs \<le> unat ml" "length h \<le> unat cs + size s"
  shows "cursor_step (lookup s) (head s) ml cs = (Some (h ! unat cs), cs + 1, None)"
  using assms hit [OF assms(1), of cs] lag_nat [OF assms(1,2)]
  by (simp add: cursor_step_def word_less_nat_alt)

lemma cursor_overrun:
  assumes "ring s h" "unat cs < length h" "length h - unat cs \<le> unat ml" "unat cs + size s < length h"
  shows "cursor_step (lookup s) (head s) ml cs = (None, head s, None)"
  using assms miss [OF assms(1), of cs] lag_nat [OF assms(1,2)]
  by (simp add: cursor_step_def word_less_nat_alt)

lemma cursor_resync:
  assumes "ring s h" "unat cs < length h" "unat ml < length h - unat cs"
  shows "cursor_step (lookup s) (head s) ml cs = (Some (last h), head s, Some (head s - cs))"
proof -
  note l = lag_nat [OF assms(1,2)]
  have "h \<noteq> []" using assms(2) by auto
  have "lookup s (head s - 1) = Some (h ! (length h - 1))"
    using hit [OF assms(1), of "head s - 1"] size_pos [OF assms(1)] assms(2) l(2) by simp
  then show ?thesis
    using assms(2,3) l \<open>h \<noteq> []\<close> by (simp add: cursor_step_def word_less_nat_alt last_conv_nth)
qed

text \<open>In every case the cursor stays within the history, moves forward, and what is sent lies between.\<close>

lemma cursor_props:
  assumes "ring s h" "unat cs \<le> length h" "cursor_step (lookup s) (head s) ml cs = (f, cs', rs)"
  shows "unat cs' \<le> length h" "unat cs \<le> unat cs'"
    "f = Some x \<Longrightarrow> \<exists>i. unat cs \<le> i \<and> unat cs' = Suc i \<and> i < length h \<and> x = h ! i"
proof -
  have hl: "unat (head s) = length h" by (rule head_len [OF assms(1)])
  have "unat cs' \<le> length h \<and> unat cs \<le> unat cs' \<and>
     (f = Some x \<longrightarrow> (\<exists>i. unat cs \<le> i \<and> unat cs' = Suc i \<and> i < length h \<and> x = h ! i))"
  proof (cases "unat cs < length h")
    case False
    with assms cursor_idle [OF assms(1), of cs ml] show ?thesis by auto
  next
    case lt: True
    then have suc: "unat (cs + 1) = Suc (unat cs)"
      using unat_Suc_nowrap [of cs "head s"] hl by simp
    show ?thesis
    proof (cases "unat ml < length h - unat cs")
      case True
      have "h \<noteq> []" using lt by auto
      then have "last h = h ! (length h - 1)" by (rule last_conv_nth)
      with assms(3) cursor_resync [OF assms(1) lt True] hl lt show ?thesis
        by (auto intro!: exI [of _ "length h - 1"])
    next
      case False
      then show ?thesis
        using assms(3) lt hl suc cursor_follow [OF assms(1) lt] cursor_overrun [OF assms(1) lt]
        by (cases "length h \<le> unat cs + size s") auto
    qed
  qed
  then show "unat cs' \<le> length h" "unat cs \<le> unat cs'"
    "f = Some x \<Longrightarrow> \<exists>i. unat cs \<le> i \<and> unat cs' = Suc i \<and> i < length h \<and> x = h ! i" by auto
qed

lemma subseq_drop_later: "a \<le> b \<Longrightarrow> subseq xs (drop b h) \<Longrightarrow> subseq xs (drop a h)"
proof -
  assume "a \<le> b" "subseq xs (drop b h)"
  moreover have "drop b h = drop (b - a) (drop a h)" using \<open>a \<le> b\<close> by simp
  moreover have "subseq (drop (b - a) (drop a h)) (drop a h)" by (intro suffix_imp_subseq suffix_drop)
  ultimately show ?thesis by (metis subseq_order.trans)
qed

lemma subseq_emit:
  assumes "subseq fs (drop (Suc i) h)" "a \<le> i" "i < length h" "x = h ! i"
  shows "subseq (x # fs) (drop a h)"
proof -
  have "drop i h = x # drop (Suc i) h" using assms(3,4) by (simp add: Cons_nth_drop_Suc)
  with assms(1) have "subseq (x # fs) (drop i h)" by simp
  with assms(2) show ?thesis by (rule subseq_drop_later)
qed

text \<open>
  No interleaving makes a listener repeat, reorder or invent a frame: what it sends is a
  subsequence of what was published from its start position on.
\<close>

lemma listener_subseq:
  "ring s h \<Longrightarrow> unat cs \<le> length h \<Longrightarrow> list_all fits (pubs ops) \<Longrightarrow> length h + length (pubs ops) < 2 ^ 64 - 1 \<Longrightarrow>
   \<exists>fs s' cs' h'. listener_runs publish lookup head ml s cs ops = Some (fs, s', cs') \<and> ring s' (h @ h')
     \<and> list_all2 carries (pubs ops) h' \<and> unat cs' \<le> length (h @ h') \<and> subseq fs (drop (unat cs) (h @ h'))"
proof (induction ops arbitrary: s h cs rule: pubs.induct)
  case 1
  then show ?case by (auto intro!: exI [of _ "[]"])
next
  case (2 p ops)
  from pub [of s h p] 2(2,4,5) obtain s' f where s': "publish p s = Some s'" "ring s' (h @ [f])" "carries p f"
    by fastforce
  from 2(1) [OF s'(2), of cs] 2(3,4,5) obtain fs s'' cs' h' where
    "listener_runs publish lookup head ml s' cs ops = Some (fs, s'', cs')" "ring s'' ((h @ [f]) @ h')"
    "list_all2 carries (pubs ops) h'" "unat cs' \<le> length ((h @ [f]) @ h')"
    "subseq fs (drop (unat cs) ((h @ [f]) @ h'))" by auto
  with s'(1,3) show ?case by (auto intro!: exI [of _ "f # h'"])
next
  case (3 ops)
  obtain f cs' rs where st: "cursor_step (lookup s) (head s) ml cs = (f, cs', rs)" by (cases "cursor_step (lookup s) (head s) ml cs")
  note pr = cursor_props [OF 3(2,3) st]
  from 3(1) [OF 3(2) pr(1)] 3(4,5) obtain fs s'' cs'' h' where r:
    "listener_runs publish lookup head ml s cs' ops = Some (fs, s'', cs'')" "ring s'' (h @ h')"
    "list_all2 carries (pubs ops) h'" "unat cs'' \<le> length (h @ h')" "subseq fs (drop (unat cs') (h @ h'))" by auto
  show ?case
  proof (cases f)
    case None
    with r st subseq_drop_later [OF pr(2) r(5)] show ?thesis by auto
  next
    case (Some x)
    from pr(3) [OF Some] obtain i where i: "unat cs \<le> i" "unat cs' = Suc i" "i < length h" "x = h ! i" by blast
    have "subseq (x # fs) (drop (unat cs) (h @ h'))"
      using r(5) i by (intro subseq_emit [of _ i]) (auto simp: nth_append)
    with r st Some show ?thesis by auto
  qed
qed

text \<open>A listener that never lags more than \<open>max_lag\<close> and the ring size sends every frame, in order, exactly once.\<close>

lemma listener_complete:
  "ring s h \<Longrightarrow> unat cs \<le> length h \<Longrightarrow> list_all fits (pubs ops) \<Longrightarrow> length h + length (pubs ops) < 2 ^ 64 - 1 \<Longrightarrow>
   keeps_up (min (unat ml) (size s)) (length h - unat cs) ops \<Longrightarrow>
   \<exists>fs s' cs' h'. listener_runs publish lookup head ml s cs ops = Some (fs, s', cs') \<and> ring s' (h @ h')
     \<and> list_all2 carries (pubs ops) h' \<and> unat cs \<le> unat cs' \<and> unat cs' \<le> length (h @ h') \<and> fs = map ((!) (h @ h')) [unat cs..<unat cs']"
proof (induction ops arbitrary: s h cs rule: pubs.induct)
  case 1
  then show ?case by (auto intro!: exI [of _ "[]"])
next
  case (2 p ops)
  from pub [of s h p] 2(2,4,5) obtain s' f where s': "publish p s = Some s'" "ring s' (h @ [f])" "size s' = size s" "carries p f"
    by fastforce
  from 2(3,6) s'(3) have "keeps_up (min (unat ml) (size s')) (length (h @ [f]) - unat cs) ops"
    by (simp add: Suc_diff_le)
  with 2(1) [OF s'(2), of cs] 2(3,4,5) obtain fs s'' cs' h' where
    "listener_runs publish lookup head ml s' cs ops = Some (fs, s'', cs')" "ring s'' ((h @ [f]) @ h')"
    "list_all2 carries (pubs ops) h'" "unat cs \<le> unat cs'" "unat cs' \<le> length ((h @ [f]) @ h')"
    "fs = map ((!) ((h @ [f]) @ h')) [unat cs..<unat cs']" by auto
  with s'(1,4) show ?case by (intro exI [of _ fs] exI [of _ s''] exI [of _ cs'] exI [of _ "f # h'"]) simp
next
  case (3 ops)
  show ?case
  proof (cases "unat cs = length h")
    case True
    with 3 cursor_idle [OF 3(2) True, of ml] show ?thesis by fastforce
  next
    case False
    then have lt: "unat cs < length h" using 3(3) by simp
    have st: "cursor_step (lookup s) (head s) ml cs = (Some (h ! unat cs), cs + 1, None)"
      using 3(6) lt by (intro cursor_follow [OF 3(2) lt]) auto
    have suc: "unat (cs + 1) = Suc (unat cs)"
      using unat_Suc_nowrap [of cs "head s"] head_len [OF 3(2)] lt by simp
    from 3(6) suc have "keeps_up (min (unat ml) (size s)) (length h - unat (cs + 1)) ops" by simp
    with 3(1) [OF 3(2), of "cs + 1"] 3(4,5) lt suc obtain fs s'' cs'' h' where r:
      "listener_runs publish lookup head ml s (cs + 1) ops = Some (fs, s'', cs'')" "ring s'' (h @ h')"
      "list_all2 carries (pubs ops) h'" "Suc (unat cs) \<le> unat cs''" "unat cs'' \<le> length (h @ h')"
      "fs = map ((!) (h @ h')) [Suc (unat cs)..<unat cs'']" by auto
    have "h ! unat cs # fs = map ((!) (h @ h')) [unat cs..<unat cs'']"
      using r(4,6) lt by (subst map_upt_tl) (auto simp: nth_append)
    with r st show ?thesis by auto
  qed
qed

text \<open>The recorder: a subsequence always, and every frame when it stays within the ring size.\<close>

lemma recorder_subseq:
  "ring s h \<Longrightarrow> unat cs \<le> length h \<Longrightarrow> list_all fits (pubs ops) \<Longrightarrow> length h + length (pubs ops) < 2 ^ 64 - 1 \<Longrightarrow>
   \<exists>fs s' cs' h'. recorder_runs publish lookup head s cs ops = Some (fs, s', cs') \<and> ring s' (h @ h')
     \<and> list_all2 carries (pubs ops) h' \<and> unat cs \<le> unat cs' \<and> unat cs' \<le> length (h @ h') \<and> subseq fs (drop (unat cs) (h @ h'))
     \<and> (keeps_up (size s) (length h - unat cs) ops \<longrightarrow> fs = map ((!) (h @ h')) [unat cs..<unat cs'])"
proof (induction ops arbitrary: s h cs rule: pubs.induct)
  case 1
  then show ?case by (auto intro!: exI [of _ "[]"])
next
  case (2 p ops)
  from pub [of s h p] 2(2,4,5) obtain s' f where s': "publish p s = Some s'" "ring s' (h @ [f])" "size s' = size s" "carries p f"
    by fastforce
  have k: "keeps_up (size s) (length h - unat cs) (RPub p # ops) \<Longrightarrow> keeps_up (size s') (length (h @ [f]) - unat cs) ops"
    using 2(3) s'(3) by (simp add: Suc_diff_le)
  from 2(1) [OF s'(2), of cs] 2(3,4,5) obtain fs s'' cs' h' where
    "recorder_runs publish lookup head s' cs ops = Some (fs, s'', cs')" "ring s'' ((h @ [f]) @ h')"
    "list_all2 carries (pubs ops) h'" "unat cs \<le> unat cs'" "unat cs' \<le> length ((h @ [f]) @ h')" "subseq fs (drop (unat cs) ((h @ [f]) @ h'))"
    "keeps_up (size s') (length (h @ [f]) - unat cs) ops \<longrightarrow> fs = map ((!) ((h @ [f]) @ h')) [unat cs..<unat cs']"
    by auto
  with s'(1,4) k show ?case by (intro exI [of _ fs] exI [of _ s''] exI [of _ cs'] exI [of _ "f # h'"]) simp
next
  case (3 ops)
  show ?case
  proof (cases "cs < head s")
    case False
    with 3 head_len [OF 3(2)] have "unat cs = length h" by (simp add: word_less_nat_alt)
    with 3 False show ?thesis by fastforce
  next
    case True
    with head_len [OF 3(2)] have lt: "unat cs < length h" by (simp add: word_less_nat_alt)
    have suc: "unat (cs + 1) = Suc (unat cs)" using True by (intro unat_Suc_nowrap) (simp add: word_less_nat_alt)
    from 3(1) [OF 3(2), of "cs + 1"] 3(4,5) lt suc obtain fs s'' cs'' h' where r:
      "recorder_runs publish lookup head s (cs + 1) ops = Some (fs, s'', cs'')" "ring s'' (h @ h')"
      "list_all2 carries (pubs ops) h'" "Suc (unat cs) \<le> unat cs''" "unat cs'' \<le> length (h @ h')" "subseq fs (drop (Suc (unat cs)) (h @ h'))"
      "keeps_up (size s) (length h - Suc (unat cs)) ops \<longrightarrow> fs = map ((!) (h @ h')) [Suc (unat cs)..<unat cs'']" by auto
    show ?thesis
    proof (cases "length h \<le> unat cs + size s")
      case True
      then have hit': "lookup s cs = Some (h ! unat cs)" using hit [OF 3(2) lt] by simp
      have "subseq (h ! unat cs # fs) (drop (unat cs) (h @ h'))"
        using r(6) lt by (intro subseq_emit [of _ "unat cs"]) (auto simp: nth_append)
      moreover have "keeps_up (size s) (length h - unat cs) (RTick # ops) \<Longrightarrow>
          h ! unat cs # fs = map ((!) (h @ h')) [unat cs..<unat cs'']"
        using r(4,7) lt by (subst map_upt_tl) (auto simp: nth_append)
      ultimately show ?thesis using r hit' \<open>cs < head s\<close> by (auto simp: rec_step_def)
    next
      case False
      then have "lookup s cs = None" using miss [OF 3(2)] by simp
      moreover have "\<not> keeps_up (size s) (length h - unat cs) (RTick # ops)" using False by auto
      moreover have "subseq fs (drop (unat cs) (h @ h'))" using r(6) by (rule subseq_drop_later [rotated]) simp
      ultimately show ?thesis using r \<open>cs < head s\<close> by (auto simp: rec_step_def)
    qed
  qed
qed

end

section \<open>The ring of a broadcast\<close>

text \<open>\<open>&b->ring[seq % b->ring_size]\<close>: a zero ring size (division by zero) or an index outside the array is \<open>None\<close>.\<close>

definition ring_slot :: "broadcast_obj \<Rightarrow> u64 \<Rightarrow> ring_frame option" where
  "ring_slot b s =
     (let i = unat (s mod u64_of (b_ring_size b))
      in if b_ring_size b \<noteq> 0 \<and> i < length (b_ring b) then Some (b_ring b ! i) else None)"

text \<open>
  Publication, in the code's three parts: the slot's fields and data (\<open>slot->seq\<close> still the old
  one), the release store of \<open>slot->seq\<close>, and the release store of \<open>producer_seq\<close>. Here they follow each other
  with no load of another thread between them; \<open>Ring_Steps\<close> divides them into single accesses, and
  \<open>stores_publish\<close> there shows that together they are this function.
\<close>

definition slot_fill :: "u8 list \<Rightarrow> u32 \<Rightarrow> u8 \<Rightarrow> broadcast_obj \<Rightarrow> broadcast_obj option" where
  "slot_fill local datalen silence b = do {
     slot \<leftarrow> ring_slot b (b_producer_seq b);
     data \<leftarrow> memcpy (rf_data slot) local (unat datalen);
     Some (b\<lparr>b_ring := (b_ring b)[unat (b_producer_seq b mod u64_of (b_ring_size b)) :=
       slot\<lparr>rf_datalen := datalen, rf_samples := b_samples_per_frame b, rf_silence := silence, rf_data := data\<rparr>]\<rparr>) }"

definition slot_seal :: "broadcast_obj \<Rightarrow> broadcast_obj option" where
  "slot_seal b = do {
     slot \<leftarrow> ring_slot b (b_producer_seq b);
     Some (b\<lparr>b_ring := (b_ring b)[unat (b_producer_seq b mod u64_of (b_ring_size b)) := slot\<lparr>rf_seq := b_producer_seq b\<rparr>]\<rparr>) }"

definition seq_advance :: "broadcast_obj \<Rightarrow> broadcast_obj" where
  "seq_advance b = b\<lparr>b_producer_seq := b_producer_seq b + 1\<rparr>"

definition ring_publish :: "u8 list \<Rightarrow> u32 \<Rightarrow> u8 \<Rightarrow> broadcast_obj \<Rightarrow> broadcast_obj option" where
  "ring_publish local datalen silence b = do {
     b \<leftarrow> slot_fill local datalen silence b;
     b \<leftarrow> slot_seal b;
     Some (seq_advance b) }"

text \<open>
  The consumers' check \<open>slot->seq == cs\<close>. A ring of size zero or an array shorter than the ring size, undefined
  behaviour in C, gives no frame here; \<open>ring_hist\<close>, which creation establishes and every publication keeps, excludes both.
  \<open>Ring_Steps\<close> has the same check with the undefined access as a failure of its own.
\<close>

definition ring_lookup :: "broadcast_obj \<Rightarrow> u64 \<Rightarrow> ring_frame option" where
  "ring_lookup b cs = (case ring_slot b cs of None \<Rightarrow> None | Some slot \<Rightarrow> if rf_seq slot = cs then Some slot else None)"

text \<open>The listener's cursor on this ring, and the recorder's.\<close>

definition listener_cursor :: "broadcast_obj \<Rightarrow> u32 \<Rightarrow> u64 \<Rightarrow> ring_frame option \<times> u64 \<times> u64 option" where
  "listener_cursor b max_lag cs = cursor_step (ring_lookup b) (b_producer_seq b) max_lag cs"

definition recorder_cursor :: "broadcast_obj \<Rightarrow> u64 \<Rightarrow> ring_frame option \<times> u64" where
  "recorder_cursor b cs = rec_step (ring_lookup b) cs"

section \<open>Invariant: the ring is the tail of the history\<close>

definition ring_hist :: "broadcast_obj \<Rightarrow> ring_frame list \<Rightarrow> bool" where
  "ring_hist b h \<longleftrightarrow> b_ring_size b \<noteq> 0 \<and> length (b_ring b) = unat (b_ring_size b)
     \<and> unat (b_producer_seq b) = length h
     \<and> (\<forall>i < length h. unat (rf_seq (h ! i)) = i)
     \<and> (\<forall>i < length h. length h \<le> i + unat (b_ring_size b) \<longrightarrow> b_ring b ! (i mod unat (b_ring_size b)) = h ! i)
     \<and> (\<forall>s \<in> set (b_ring b). length (rf_data s) = BROADCAST_MAX_FRAME_BYTES)"

type_synonym pub_req = "u8 list \<times> u32 \<times> u8"

definition pub_fits :: "pub_req \<Rightarrow> bool" where
  "pub_fits = (\<lambda>(local, datalen, silence). unat datalen \<le> BROADCAST_MAX_FRAME_BYTES \<and> unat datalen \<le> length local)"

definition pub_step :: "pub_req \<Rightarrow> broadcast_obj \<Rightarrow> broadcast_obj option" where
  "pub_step = (\<lambda>(local, datalen, silence) b. ring_publish local datalen silence b)"

definition ring_len :: "broadcast_obj \<Rightarrow> nat" where
  "ring_len b = unat (b_ring_size b)"

lemma ring_slot_in:
  assumes "ring_hist b h"
  shows "ring_slot b s = Some (b_ring b ! (unat s mod ring_len b))" "unat s mod ring_len b < length (b_ring b)"
proof -
  have "0 < ring_len b" using assms by (auto simp: ring_hist_def ring_len_def unat_gt_0)
  then show "unat s mod ring_len b < length (b_ring b)" using assms by (simp add: ring_hist_def ring_len_def)
  then show "ring_slot b s = Some (b_ring b ! (unat s mod ring_len b))"
    using assms by (simp add: ring_slot_def ring_hist_def Let_def unat_mod ring_len_def)
qed

text \<open>The frame a publication makes: the bytes given, over what the slot held before.\<close>

definition published :: "pub_req \<Rightarrow> broadcast_obj \<Rightarrow> ring_frame" where
  "published = (\<lambda>(local, datalen, silence) b.
     (b_ring b ! (unat (b_producer_seq b) mod ring_len b))
       \<lparr>rf_datalen := datalen, rf_samples := b_samples_per_frame b, rf_silence := silence,
        rf_data := take (unat datalen) local @ drop (unat datalen) (rf_data (b_ring b ! (unat (b_producer_seq b) mod ring_len b))),
        rf_seq := b_producer_seq b\<rparr>)"

lemma ring_publish_result:
  assumes "ring_hist b h" "pub_fits (local, datalen, silence)"
  shows "ring_publish local datalen silence b =
    Some (b\<lparr>b_ring := (b_ring b)[length h mod ring_len b := published (local, datalen, silence) b],
            b_producer_seq := b_producer_seq b + 1\<rparr>)"
proof -
  let ?k = "unat (b_producer_seq b) mod ring_len b"
  let ?slot = "b_ring b ! ?k"
  have k: "?k < length (b_ring b)" "ring_slot b (b_producer_seq b) = Some ?slot"
    using ring_slot_in [OF assms(1)] by auto
  have "?slot \<in> set (b_ring b)" using k(1) by simp
  then have "length (rf_data ?slot) = BROADCAST_MAX_FRAME_BYTES" using assms(1) unfolding ring_hist_def by blast
  then have cp: "memcpy (rf_data ?slot) local (unat datalen) = Some (take (unat datalen) local @ drop (unat datalen) (rf_data ?slot))"
    using assms(2) by (simp add: memcpy_def pub_fits_def)
  have idx: "unat (b_producer_seq b mod u64_of (b_ring_size b)) = ?k" by (simp add: unat_mod ring_len_def)
  have nz: "b_ring_size b \<noteq> 0" using assms(1) by (simp add: ring_hist_def)
  have "length h = unat (b_producer_seq b)" using assms(1) by (simp add: ring_hist_def)
  then show ?thesis
    using k cp nz
    by (simp add: ring_publish_def slot_fill_def slot_seal_def seq_advance_def idx ring_slot_def Let_def published_def)
qed

text \<open>A frame carries a request when its payload is the request's bytes and its flag the request's.\<close>

definition carries :: "pub_req \<Rightarrow> ring_frame \<Rightarrow> bool" where
  "carries = (\<lambda>(local, datalen, silence) f.
     rf_datalen f = datalen \<and> take (unat datalen) (rf_data f) = take (unat datalen) local \<and> rf_silence f = silence)"

lemma published_carries: "pub_fits p \<Longrightarrow> carries p (published p b)"
  by (auto simp: pub_fits_def carries_def published_def split: prod.splits)

lemma ring_publish_hist:
  assumes "ring_hist b h" "pub_fits p" "Suc (length h) < 2 ^ 64"
  shows "\<exists>b'. pub_step p b = Some b' \<and> ring_hist b' (h @ [published p b]) \<and> ring_len b' = ring_len b"
proof -
  obtain local datalen silence where p: "p = (local, datalen, silence)" by (cases p)
  let ?n = "ring_len b"
  let ?b' = "b\<lparr>b_ring := (b_ring b)[length h mod ?n := published p b], b_producer_seq := b_producer_seq b + 1\<rparr>"
  have res: "pub_step p b = Some ?b'"
    using ring_publish_result [OF assms(1)] assms(2) by (simp add: pub_step_def p)
  have n: "0 < ?n" using assms(1) by (auto simp: ring_hist_def ring_len_def unat_gt_0)
  have seq: "unat (b_producer_seq b + 1) = Suc (length h)"
    using assms(1,3) by (subst unat_inc64) (auto simp: ring_hist_def)
  have pseq: "unat (rf_seq (published p b)) = length h"
    using assms(1) by (simp add: published_def p ring_hist_def)
  have slots: "(b_ring b)[length h mod ?n := published p b] ! (i mod ?n) = (h @ [published p b]) ! i"
    if "i < Suc (length h)" "Suc (length h) \<le> i + ?n" for i
  proof (cases "i = length h")
    case True
    with assms(1) n show ?thesis by (simp add: ring_hist_def ring_len_def)
  next
    case False
    with that have "i < length h" by simp
    then have "i mod ?n \<noteq> length h mod ?n" using that(2) by (intro mod_neq_close) auto
    with \<open>i < length h\<close> that(2) assms(1) show ?thesis by (simp add: ring_hist_def ring_len_def nth_append)
  qed
  have "length (rf_data (published p b)) = BROADCAST_MAX_FRAME_BYTES"
  proof -
    have "b_ring b ! (unat (b_producer_seq b) mod ?n) \<in> set (b_ring b)"
      using ring_slot_in(2) [OF assms(1)] by simp
    then have "length (rf_data (b_ring b ! (unat (b_producer_seq b) mod ?n))) = BROADCAST_MAX_FRAME_BYTES"
      using assms(1) unfolding ring_hist_def by blast
    with assms(2) show ?thesis by (simp add: published_def p pub_fits_def)
  qed
  then have dl: "\<forall>s \<in> set ((b_ring b)[length h mod ?n := published p b]). length (rf_data s) = BROADCAST_MAX_FRAME_BYTES"
    using assms(1) set_update_subset_insert unfolding ring_hist_def by fastforce
  have "ring_hist ?b' (h @ [published p b])"
    using assms(1) seq pseq slots dl by (auto simp: ring_hist_def ring_len_def nth_append less_Suc_eq)
  with res show ?thesis by (simp add: ring_len_def)
qed

lemma ring_lookup_in:
  assumes "ring_hist b h"
  shows "ring_lookup b s = (if rf_seq (b_ring b ! (unat s mod ring_len b)) = s then Some (b_ring b ! (unat s mod ring_len b)) else None)"
  using ring_slot_in(1) [OF assms, of s] by (simp add: ring_lookup_def)

lemma ring_lookup_hit:
  assumes "ring_hist b h" "unat i < length h" "length h \<le> unat i + ring_len b"
  shows "ring_lookup b i = Some (h ! unat i)"
proof -
  have "b_ring b ! (unat i mod ring_len b) = h ! unat i" "unat (rf_seq (h ! unat i)) = unat i"
    using assms by (auto simp: ring_hist_def ring_len_def)
  then have "b_ring b ! (unat i mod ring_len b) = h ! unat i" "rf_seq (h ! unat i) = i"
    by (simp_all add: word_unat_eq_iff)
  then show ?thesis using ring_lookup_in [OF assms(1), of i] by simp
qed

text \<open>A frame that has left the window: its slot belongs to a later frame, and the check fails.\<close>

lemma ring_lookup_miss:
  assumes "ring_hist b h" "unat i + ring_len b < length h"
  shows "ring_lookup b i = None"
proof -
  let ?n = "ring_len b"
  define j where "j = length h - 1 - (length h - 1 - unat i) mod ?n"
  have n: "0 < ?n" using assms(1) by (auto simp: ring_hist_def ring_len_def unat_gt_0)
  have m: "(length h - 1 - unat i) mod ?n < ?n" using n by simp
  have le: "(length h - 1 - unat i) mod ?n \<le> length h - 1 - unat i" by simp
  define r where "r = (length h - 1 - unat i) mod ?n"
  have rj: "j = length h - 1 - r" by (simp add: j_def r_def)
  have rn: "r < ?n" using m by (simp add: r_def)
  have rl: "r \<le> length h - 1 - unat i" using le by (simp add: r_def)
  have j: "j < length h" "length h \<le> j + ?n" "unat i < j" using assms(2) rn rl n unfolding rj by linarith+
  have "j - unat i = (length h - 1 - unat i) - (length h - 1 - unat i) mod ?n"
    using j(3) rl unfolding rj r_def [symmetric] by linarith
  moreover have "?n dvd (length h - 1 - unat i) - (length h - 1 - unat i) mod ?n" by (rule dvd_minus_mod)
  ultimately have "?n dvd j - unat i" by simp
  then have "j mod ?n = unat i mod ?n" using j(3) by (metis less_imp_le mod_eq_dvd_iff_nat)
  moreover have "b_ring b ! (j mod ?n) = h ! j" "unat (rf_seq (h ! j)) = j"
    using assms(1) j by (auto simp: ring_hist_def ring_len_def)
  ultimately have "rf_seq (b_ring b ! (unat i mod ?n)) \<noteq> i" using j(3) by auto
  then show ?thesis using ring_lookup_in [OF assms(1), of i] by simp
qed

interpretation mring: media_ring ring_hist ring_len b_producer_seq ring_lookup pub_fits pub_step carries
proof unfold_locales
  fix b h i p
  show "ring_hist b h \<Longrightarrow> 0 < ring_len b" by (auto simp: ring_hist_def ring_len_def unat_gt_0)
  show "ring_hist b h \<Longrightarrow> unat (b_producer_seq b) = length h" by (simp add: ring_hist_def)
  show "ring_hist b h \<Longrightarrow> unat i < length h \<Longrightarrow> length h \<le> unat i + ring_len b \<Longrightarrow> ring_lookup b i = Some (h ! unat i)"
    by (rule ring_lookup_hit)
  show "ring_hist b h \<Longrightarrow> unat i + ring_len b < length h \<Longrightarrow> ring_lookup b i = None" by (rule ring_lookup_miss)
  show "ring_hist b h \<Longrightarrow> pub_fits p \<Longrightarrow> Suc (length h) < 2 ^ 64 \<Longrightarrow>
      \<exists>s' f. pub_step p b = Some s' \<and> ring_hist s' (h @ [f]) \<and> ring_len s' = ring_len b \<and> carries p f"
    using ring_publish_hist published_carries by blast
qed

section \<open>The slot a reader copies while the producer fills\<close>

text \<open>Filling the next frame changes no slot of a reader that is less than the ring size behind.\<close>

lemma fill_other_slot:
  assumes "ring_hist b h" "unat cs < length h" "length h < unat cs + ring_len b" "slot_fill local datalen silence b = Some b'"
  shows "ring_slot b' cs = ring_slot b cs"
proof -
  have "unat cs mod ring_len b \<noteq> length h mod ring_len b" using assms(2,3) by (rule mod_neq_close)
  then show ?thesis
    using assms(1,4) by (auto simp: slot_fill_def ring_slot_def Let_def unat_mod ring_len_def ring_hist_def
        bind_eq_Some_conv split: if_splits)
qed

section \<open>An example ring\<close>

text \<open>A broadcast with a fresh ring of four slots, as \<open>broadcast_create\<close> allocates it (zeroed memory).\<close>

definition zero_slot :: ring_frame where
  "zero_slot = \<lparr>rf_seq = 0, rf_datalen = 0, rf_samples = 0, rf_data = replicate BROADCAST_MAX_FRAME_BYTES 0, rf_silence = 0\<rparr>"

definition four_slots :: broadcast_obj where
  "four_slots = (zero_broadcast 4)\<lparr>b_ring := replicate 4 zero_slot, b_ring_size := 4, b_samples_per_frame := 160\<rparr>"

lemma four_slots_hist: "ring_hist four_slots []"
  by (simp add: ring_hist_def four_slots_def zero_broadcast_def zero_slot_def)

lemma four_slots_len: "ring_len four_slots = 4"
  by (simp add: ring_len_def four_slots_def zero_broadcast_def)

definition tiny :: "u8 \<Rightarrow> pub_req" where
  "tiny x = (replicate 160 x, 160, 0)"

lemma tiny_fits: "pub_fits (tiny x)"
  by (simp add: pub_fits_def tiny_def BROADCAST_MAX_FRAME_BYTES_def)

definition tiny_ops :: "pub_req rop list" where
  "tiny_ops = [RPub (tiny 1), RPub (tiny 2), RTick, RPub (tiny 3), RTick, RTick]"

lemma tiny_ops_pubs: "pubs tiny_ops = [tiny 1, tiny 2, tiny 3]"
  by (simp add: tiny_ops_def)

lemma tiny_ops_keeps: "keeps_up 4 0 tiny_ops" "keeps_up 2 0 tiny_ops"
  by (simp_all add: tiny_ops_def)

text \<open>The same ring when all four slots hold a frame.\<close>

definition full_four_hist :: "ring_frame list" where
  "full_four_hist = [zero_slot, zero_slot\<lparr>rf_seq := 1\<rparr>, zero_slot\<lparr>rf_seq := 2\<rparr>, zero_slot\<lparr>rf_seq := 3\<rparr>]"

definition full_four :: broadcast_obj where
  "full_four = four_slots\<lparr>b_ring := full_four_hist, b_producer_seq := 4\<rparr>"

lemma full_four_ring: "ring_hist full_four full_four_hist"
proof -
  have four: "i < 4 \<longleftrightarrow> i = 0 \<or> i = 1 \<or> i = 2 \<or> i = 3" for i :: nat by auto
  have "length full_four_hist = 4" by (simp add: full_four_hist_def)
  moreover have "b_ring full_four = full_four_hist" "b_ring_size full_four = 4" "b_producer_seq full_four = 4"
    by (simp_all add: full_four_def four_slots_def)
  moreover have "unat (rf_seq (full_four_hist ! i)) = i" if "i < 4" for i
    using that unfolding four by (auto simp: full_four_hist_def zero_slot_def)
  moreover have "length (rf_data s) = BROADCAST_MAX_FRAME_BYTES" if "s \<in> set full_four_hist" for s
    using that by (auto simp: full_four_hist_def zero_slot_def)
  ultimately show ?thesis by (simp add: ring_hist_def)
qed

section \<open>Theorems\<close>

text \<open>
  C1. Publication never fails and never writes out of bounds when the payload fits the 1920-byte
  slot: the new ring is again the tail of the history, extended by one frame that carries exactly the
  payload, its length and its silence flag, and whose sequence number is its index in the history.
\<close>

theorem publish_extends_history:
  assumes "ring_hist b h" "pub_fits (local, datalen, silence)" "Suc (length h) < 2 ^ 64"
  shows "\<exists>b' f. ring_publish local datalen silence b = Some b' \<and> ring_hist b' (h @ [f])
    \<and> take (unat datalen) (rf_data f) = take (unat datalen) local \<and> rf_datalen f = datalen
    \<and> rf_samples f = b_samples_per_frame b \<and> rf_silence f = silence \<and> unat (rf_seq f) = length h
    \<and> ring_lookup b' (b_producer_seq b) = Some f \<and> unat (b_producer_seq b') = Suc (length h)"
proof -
  let ?p = "(local, datalen, silence)"
  obtain b' where b': "ring_publish local datalen silence b = Some b'" "ring_hist b' (h @ [published ?p b])"
    using ring_publish_hist [OF assms] by (auto simp: pub_step_def)
  have hd: "unat (b_producer_seq b) = length h" by (rule mring.head_len [OF assms(1)])
  have "ring_lookup b' (b_producer_seq b) = Some (published ?p b)"
    using mring.hit [OF b'(2), of "b_producer_seq b"] mring.size_pos [OF b'(2)] hd by simp
  moreover have "unat (b_producer_seq b') = Suc (length h)" using mring.head_len [OF b'(2)] by simp
  moreover have "rf_samples (published ?p b) = b_samples_per_frame b" "rf_seq (published ?p b) = b_producer_seq b"
    by (simp_all add: published_def)
  ultimately show ?thesis
    using b' published_carries [OF assms(2), of b] hd by (intro exI [of _ b'] exI [of _ "published ?p b"]) (auto simp: carries_def)
qed

theorem publish_extends_history_witness:
  "\<exists>b' f. ring_publish (replicate 160 7) 160 1 four_slots = Some b' \<and> ring_hist b' ([] @ [f])
    \<and> take (unat (160 :: u32)) (rf_data f) = take (unat (160 :: u32)) (replicate 160 7) \<and> rf_datalen f = 160
    \<and> rf_samples f = b_samples_per_frame four_slots \<and> rf_silence f = 1 \<and> unat (rf_seq f) = length ([] :: ring_frame list)
    \<and> ring_lookup b' (b_producer_seq four_slots) = Some f \<and> unat (b_producer_seq b') = Suc (length ([] :: ring_frame list))"
  by (rule publish_extends_history [OF four_slots_hist]) (simp_all add: pub_fits_def BROADCAST_MAX_FRAME_BYTES_def)

text \<open>
  C24. A listener's cursor against any history: with nothing new it stays and sends silence; within
  \<open>max_lag_frames\<close> it sends the frame at its position and moves by one, or, when that frame has
  already been overwritten, sends silence and jumps to the head; beyond \<open>max_lag_frames\<close> it reports the
  lag, sends the newest frame and jumps to the head.
\<close>

theorem listener_cursor_cases:
  assumes "ring_hist b h" "unat cs \<le> length h"
  shows "listener_cursor b ml cs =
    (if unat cs = length h then (None, cs, None)
     else if unat ml < length h - unat cs then (Some (last h), b_producer_seq b, Some (b_producer_seq b - cs))
     else if ring_len b < length h - unat cs then (None, b_producer_seq b, None)
     else (Some (h ! unat cs), cs + 1, None))"
proof (cases "unat cs = length h")
  case True
  with assms show ?thesis by (simp add: listener_cursor_def mring.cursor_idle)
next
  case False
  with assms(2) have lt: "unat cs < length h" by simp
  show ?thesis
    using False mring.cursor_resync [OF assms(1) lt, of ml] mring.cursor_overrun [OF assms(1) lt, of ml]
      mring.cursor_follow [OF assms(1) lt, of ml]
    by (auto simp: listener_cursor_def)
qed

theorem listener_cursor_cases_witness:
  "listener_cursor four_slots 10 0 = (None, 0, None)"
  using listener_cursor_cases [OF four_slots_hist, of 0 10] by simp

text \<open>
  C4. A listener that at each of its ticks lags by at most \<open>max_lag_frames\<close> and at most the ring
  size sends every frame published from its start position up to its cursor, in order, exactly once.
\<close>

theorem listener_sends_every_frame:
  assumes "ring_hist b h" "unat cs \<le> length h" "list_all pub_fits (pubs ops)" "length h + length (pubs ops) < 2 ^ 64 - 1"
    "keeps_up (min (unat ml) (ring_len b)) (length h - unat cs) ops"
  shows "\<exists>fs b' cs' h'. listener_runs pub_step ring_lookup b_producer_seq ml b cs ops = Some (fs, b', cs')
     \<and> ring_hist b' (h @ h') \<and> list_all2 carries (pubs ops) h' \<and> unat cs \<le> unat cs' \<and> unat cs' \<le> length (h @ h')
     \<and> fs = map ((!) (h @ h')) [unat cs..<unat cs']"
  using mring.listener_complete [OF assms] .

theorem listener_sends_every_frame_witness:
  "\<exists>fs b' cs' h'. listener_runs pub_step ring_lookup b_producer_seq 10 four_slots 0 tiny_ops = Some (fs, b', cs')
     \<and> ring_hist b' ([] @ h') \<and> list_all2 carries (pubs tiny_ops) h' \<and> unat (0 :: u64) \<le> unat cs' \<and> unat cs' \<le> length ([] @ h')
     \<and> fs = map ((!) ([] @ h')) [unat (0 :: u64)..<unat cs']"
  by (rule listener_sends_every_frame [OF four_slots_hist]) (simp_all add: tiny_ops_pubs tiny_fits tiny_ops_keeps four_slots_len)

text \<open>
  A recorder writes a subsequence of the published frames from its start position on, and, when
  it never falls behind by more than the ring size, all of them in order, up to its cursor.
\<close>

theorem recorder_writes_frames:
  assumes "ring_hist b h" "unat cs \<le> length h" "list_all pub_fits (pubs ops)" "length h + length (pubs ops) < 2 ^ 64 - 1"
  shows "\<exists>fs b' cs' h'. recorder_runs pub_step ring_lookup b_producer_seq b cs ops = Some (fs, b', cs')
     \<and> ring_hist b' (h @ h') \<and> list_all2 carries (pubs ops) h' \<and> unat cs \<le> unat cs' \<and> unat cs' \<le> length (h @ h')
     \<and> subseq fs (drop (unat cs) (h @ h'))
     \<and> (keeps_up (ring_len b) (length h - unat cs) ops \<longrightarrow> fs = map ((!) (h @ h')) [unat cs..<unat cs'])"
  using mring.recorder_subseq [OF assms] .

theorem recorder_writes_frames_witness:
  "\<exists>fs b' cs' h'. recorder_runs pub_step ring_lookup b_producer_seq four_slots 0 tiny_ops = Some (fs, b', cs')
     \<and> ring_hist b' ([] @ h') \<and> list_all2 carries (pubs tiny_ops) h' \<and> unat (0 :: u64) \<le> unat cs' \<and> unat cs' \<le> length ([] @ h')
     \<and> subseq fs (drop (unat (0 :: u64)) ([] @ h'))
     \<and> fs = map ((!) ([] @ h')) [unat (0 :: u64)..<unat cs']"
proof -
  have *: "keeps_up (ring_len four_slots) (length ([] :: ring_frame list) - unat (0 :: u64)) tiny_ops"
    by (simp add: four_slots_len tiny_ops_keeps)
  have a: "unat (0 :: u64) \<le> length ([] :: ring_frame list)" "list_all pub_fits (pubs tiny_ops)"
    "length ([] :: ring_frame list) + length (pubs tiny_ops) < 2 ^ 64 - 1"
    by (simp_all add: tiny_ops_pubs tiny_fits)
  from recorder_writes_frames [OF four_slots_hist a] obtain fs b' cs' h' where
    q: "recorder_runs pub_step ring_lookup b_producer_seq four_slots 0 tiny_ops = Some (fs, b', cs')"
    "ring_hist b' ([] @ h')" "list_all2 carries (pubs tiny_ops) h'" "unat (0 :: u64) \<le> unat cs'" "unat cs' \<le> length ([] @ h')"
    "subseq fs (drop (unat (0 :: u64)) ([] @ h'))"
    "keeps_up (ring_len four_slots) (length ([] :: ring_frame list) - unat (0 :: u64)) tiny_ops \<longrightarrow>
       fs = map ((!) ([] @ h')) [unat (0 :: u64)..<unat cs']"
    by (elim exE conjE) (rule that)
  show ?thesis by (intro exI conjI) (rule q mp [OF q(7) *])+
qed

text \<open>
  The window of a torn read. While the producer fills its next slot, a reader whose frame is
  less than the ring size behind still finds exactly that frame; a reader exactly the ring size behind
  (possible when \<open>max_lag_frames\<close> is not below \<open>ring_size\<close>, and for any recorder) passes the
  sequence check although the slot already holds the new payload.
\<close>

theorem slot_being_filled:
  assumes "ring_hist b h" "unat cs < length h" "pub_fits (local, datalen, silence)" "slot_fill local datalen silence b = Some b'"
  shows "(length h < unat cs + ring_len b \<longrightarrow> ring_lookup b' cs = Some (h ! unat cs))
    \<and> (length h = unat cs + ring_len b \<longrightarrow>
        (\<exists>f. ring_lookup b' cs = Some f \<and> rf_seq f = cs \<and> carries (local, datalen, silence) f))"
proof (intro conjI impI)
  assume close: "length h < unat cs + ring_len b"
  then have "ring_slot b' cs = ring_slot b cs" using fill_other_slot [OF assms(1,2) _ assms(4)] by simp
  then have "ring_lookup b' cs = ring_lookup b cs" by (simp add: ring_lookup_def)
  then show "ring_lookup b' cs = Some (h ! unat cs)" using ring_lookup_hit [OF assms(1,2)] close by simp
next
  assume at: "length h = unat cs + ring_len b"
  then have k: "length h mod ring_len b = unat cs mod ring_len b" by simp
  have hd: "unat (b_producer_seq b) = length h" by (rule mring.head_len [OF assms(1)])
  have "ring_lookup b cs = Some (h ! unat cs)" using ring_lookup_hit [OF assms(1,2)] at by simp
  then have old: "rf_seq (b_ring b ! (unat cs mod ring_len b)) = cs"
    using ring_lookup_in [OF assms(1), of cs] by (auto split: if_splits)
  show "\<exists>f. ring_lookup b' cs = Some f \<and> rf_seq f = cs \<and> carries (local, datalen, silence) f"
    using assms(3,4) ring_slot_in [OF assms(1), of "b_producer_seq b"] ring_slot_in [OF assms(1), of cs] old hd k
    by (auto simp: slot_fill_def ring_lookup_def ring_slot_def Let_def unat_mod ring_len_def carries_def memcpy_Some
        bind_eq_Some_conv split: if_splits)
qed

theorem slot_being_filled_witness:
  "\<exists>b'. slot_fill (replicate 160 9) 160 0 full_four = Some b' \<and> ring_lookup b' 1 = Some (zero_slot\<lparr>rf_seq := 1\<rparr>)
    \<and> (\<exists>f. ring_lookup b' 0 = Some f \<and> rf_seq f = 0 \<and> carries (replicate 160 9, 160, 0) f)"
proof -
  obtain b' where b': "slot_fill (replicate 160 9) 160 0 full_four = Some b'"
    by (simp add: slot_fill_def ring_slot_def full_four_def full_four_hist_def four_slots_def zero_broadcast_def memcpy_def zero_slot_def
        BROADCAST_MAX_FRAME_BYTES_def u64_of_def)
  have fits: "pub_fits (replicate 160 9, 160, 0)" by (simp add: pub_fits_def BROADCAST_MAX_FRAME_BYTES_def)
  have "unat (1 :: u64) < length full_four_hist" "unat (0 :: u64) < length full_four_hist" "ring_len full_four = 4"
    by (simp_all add: full_four_hist_def ring_len_def full_four_def four_slots_def zero_broadcast_def)
  then show ?thesis
    using b' slot_being_filled [OF full_four_ring _ fits b', of 1] slot_being_filled [OF full_four_ring _ fits b', of 0]
    by (simp add: full_four_hist_def)
qed

end
