(* ===== verification/Ring_Steps.thy ===== *)
theory Ring_Steps
  imports Frame_Ring
begin

text \<open>
  The media ring one access at a time. \<open>Frame_Ring\<close> lets a publication and a listener's tick each happen at once; here
  the producer's stores (the slot's header, every byte of its payload, the slot's number, \<open>producer_seq\<close>) and the
  listener's loads (\<open>producer_seq\<close>, the slot's number, its length, every byte, and at the end its length and sample count
  again) are steps of their own, and any schedule may put them in any order. The result says for which
  sends the outcome is the same as if they had not been interleaved.
\<close>

section \<open>The two threads\<close>

text \<open>Where the producer is in its publication: \<open>WCopying p n\<close> has stored the header and copied \<open>n\<close> bytes, \<open>WSealed\<close> has stored the number.\<close>

datatype writer = WIdle | WCopying pub_req nat | WSealed pub_req

text \<open>
  Where the listener is in its tick: \<open>RPicked pseq\<close> has loaded \<open>producer_seq\<close> and settled its position, \<open>RMatched\<close> has found
  the position in the slot's number, \<open>RCopying n k\<close> has loaded the length \<open>n\<close> for the copy and copied \<open>k\<close> bytes.
\<close>

datatype reader = RTop | RPicked u64 | RMatched | RCopying u32 nat

text \<open>What a tick hands on: the bytes, their number, the samples.\<close>

type_synonym sent = "u8 list \<times> u32 \<times> u32"

text \<open>\<open>ms_log\<close> has every frame sent, with the distance of \<open>producer_seq\<close> from its position when the copy was complete.\<close>

record media_state =
  ms_b :: broadcast_obj
  ms_writer :: writer
  ms_reqs :: "pub_req list"
  ms_reader :: reader
  ms_cs :: u64
  ms_scratch :: "u8 list"
  ms_log :: "(u64 \<times> sent) list"

definition store_slot :: "ring_frame \<Rightarrow> broadcast_obj \<Rightarrow> broadcast_obj" where
  "store_slot f b = b\<lparr>b_ring := (b_ring b)[unat (b_producer_seq b mod u64_of (b_ring_size b)) := f]\<rparr>"

text \<open>The producer's next store; \<open>None\<close> is one outside a buffer.\<close>

definition writer_step :: "media_state \<Rightarrow> media_state option" where
  "writer_step s =
     (let b = ms_b s in
      case ms_writer s of
        WIdle \<Rightarrow>
          (case ms_reqs s of
             [] \<Rightarrow> Some s
           | (local, datalen, silence) # ps \<Rightarrow> do {
               slot \<leftarrow> ring_slot b (b_producer_seq b);
               Some (s\<lparr>ms_b := store_slot (slot\<lparr>rf_datalen := datalen, rf_samples := b_samples_per_frame b, rf_silence := silence\<rparr>) b,
                 ms_writer := WCopying (local, datalen, silence) 0, ms_reqs := ps\<rparr>) })
      | WCopying (local, datalen, silence) n \<Rightarrow>
          if n < unat datalen then do {
            slot \<leftarrow> ring_slot b (b_producer_seq b);
            if n < length (rf_data slot) \<and> n < length local
            then Some (s\<lparr>ms_b := store_slot (slot\<lparr>rf_data := (rf_data slot)[n := local ! n]\<rparr>) b,
                   ms_writer := WCopying (local, datalen, silence) (Suc n)\<rparr>)
            else None }
          else do {
            b \<leftarrow> slot_seal b;
            Some (s\<lparr>ms_b := b, ms_writer := WSealed (local, datalen, silence)\<rparr>) }
      | WSealed p \<Rightarrow> Some (s\<lparr>ms_b := seq_advance b, ms_writer := WIdle\<rparr>))"

text \<open>The listener's next load; a tick with nothing new, or with another number in the slot, sends silence and is over.\<close>

definition reader_step :: "u32 \<Rightarrow> media_state \<Rightarrow> media_state option" where
  "reader_step max_lag s =
     (let b = ms_b s; cs = ms_cs s in
      case ms_reader s of
        RTop \<Rightarrow>
          (let pseq = b_producer_seq b in
           if cs < pseq then Some (s\<lparr>ms_reader := RPicked pseq, ms_cs := if u64_of max_lag < pseq - cs then pseq - 1 else cs\<rparr>)
           else Some s)
      | RPicked pseq \<Rightarrow> do {
          slot \<leftarrow> ring_slot b cs;
          Some (if rf_seq slot = cs then s\<lparr>ms_reader := RMatched\<rparr> else s\<lparr>ms_reader := RTop, ms_cs := pseq - 1 + 1\<rparr>) }
      | RMatched \<Rightarrow> do {
          slot \<leftarrow> ring_slot b cs;
          Some (s\<lparr>ms_reader := RCopying (rf_datalen slot) 0\<rparr>) }
      | RCopying n k \<Rightarrow> do {
          slot \<leftarrow> ring_slot b cs;
          if k < unat n then
            (if k < length (rf_data slot) \<and> k < length (ms_scratch s)
             then Some (s\<lparr>ms_scratch := (ms_scratch s)[k := rf_data slot ! k], ms_reader := RCopying n (Suc k)\<rparr>)
             else None)
          else if unat (rf_datalen slot) \<le> length (ms_scratch s)
          then Some (s\<lparr>ms_log := ms_log s @ [(b_producer_seq b - cs,
                   (take (unat (rf_datalen slot)) (ms_scratch s), rf_datalen slot, rf_samples slot))],
                 ms_reader := RTop, ms_cs := cs + 1\<rparr>)
          else None })"

datatype turn = ProducerTurn | ListenerTurn

fun media_run :: "u32 \<Rightarrow> turn list \<Rightarrow> media_state \<Rightarrow> media_state option" where
  "media_run max_lag [] s = Some s"
| "media_run max_lag (t # ts) s =
     Option.bind (case t of ProducerTurn \<Rightarrow> writer_step s | ListenerTurn \<Rightarrow> reader_step max_lag s) (media_run max_lag ts)"

definition media_start :: "broadcast_obj \<Rightarrow> pub_req list \<Rightarrow> u64 \<Rightarrow> media_state" where
  "media_start b reqs cs = \<lparr>ms_b = b, ms_writer = WIdle, ms_reqs = reqs, ms_reader = RTop, ms_cs = cs,
     ms_scratch = replicate BROADCAST_MAX_FRAME_BYTES 0, ms_log = []\<rparr>"

section \<open>Invariants\<close>

text \<open>
  While a publication is under way its slot may hold anything; the ring is the tail of the history but for that slot,
  which is the one of a frame exactly the ring size back.
\<close>

definition ring_open :: "broadcast_obj \<Rightarrow> ring_frame list \<Rightarrow> bool" where
  "ring_open b h \<longleftrightarrow> 0 < ring_len b \<and> length (b_ring b) = ring_len b \<and> unat (b_producer_seq b) = length h
     \<and> (\<forall>i < length h. length h < i + ring_len b \<longrightarrow> b_ring b ! (i mod ring_len b) = h ! i)
     \<and> (\<forall>f \<in> set (b_ring b). length (rf_data f) = BROADCAST_MAX_FRAME_BYTES \<and> unat (rf_datalen f) \<le> BROADCAST_MAX_FRAME_BYTES)"

abbreviation next_slot :: "broadcast_obj \<Rightarrow> ring_frame" where
  "next_slot b \<equiv> b_ring b ! (unat (b_producer_seq b) mod ring_len b)"

definition writer_inv :: "broadcast_obj \<Rightarrow> writer \<Rightarrow> bool" where
  "writer_inv b w \<longleftrightarrow>
     (case w of
        WIdle \<Rightarrow> True
      | WCopying (local, datalen, silence) n \<Rightarrow> n \<le> unat datalen \<and> rf_datalen (next_slot b) = datalen
          \<and> rf_silence (next_slot b) = silence \<and> take n (rf_data (next_slot b)) = take n local
      | WSealed p \<Rightarrow> carries p (next_slot b))"

definition sent_frame :: "ring_frame \<Rightarrow> sent" where
  "sent_frame f = (take (unat (rf_datalen f)) (rf_data f), rf_datalen f, rf_samples f)"

definition reader_inv :: "nat \<Rightarrow> ring_frame list \<Rightarrow> reader \<Rightarrow> u64 \<Rightarrow> u8 list \<Rightarrow> bool" where
  "reader_inv n h r cs scratch \<longleftrightarrow>
     (case r of
        RTop \<Rightarrow> unat cs \<le> length h
      | RPicked pseq \<Rightarrow> unat cs < unat pseq \<and> unat pseq \<le> length h
      | RMatched \<Rightarrow> unat cs < length h
      | RCopying len k \<Rightarrow> unat cs < length h \<and> unat len \<le> BROADCAST_MAX_FRAME_BYTES \<and> k \<le> unat len
          \<and> (length h < unat cs + n \<longrightarrow> len = rf_datalen (h ! unat cs) \<and> take k scratch = take k (rf_data (h ! unat cs))))"

text \<open>The sends whose frame the producer had not come round to when they were complete.\<close>

definition in_window :: "nat \<Rightarrow> (u64 \<times> sent) list \<Rightarrow> sent list" where
  "in_window n log = map snd (filter (\<lambda>(lead, f). unat lead < n) log)"

fun pending :: "writer \<Rightarrow> pub_req list" where
  "pending WIdle = []"
| "pending (WCopying p n) = [p]"
| "pending (WSealed p) = [p]"

definition media_inv :: "nat \<Rightarrow> nat \<Rightarrow> ring_frame list \<Rightarrow> pub_req list \<Rightarrow> media_state \<Rightarrow> bool" where
  "media_inv n start h0 reqs s \<longleftrightarrow>
     (\<exists>done h'. reqs = done @ pending (ms_writer s) @ ms_reqs s \<and> list_all2 carries done h' \<and> ring_len (ms_b s) = n
        \<and> ring_open (ms_b s) (h0 @ h') \<and> writer_inv (ms_b s) (ms_writer s)
        \<and> reader_inv n (h0 @ h') (ms_reader s) (ms_cs s) (ms_scratch s) \<and> length (ms_scratch s) = BROADCAST_MAX_FRAME_BYTES
        \<and> subseq (in_window n (ms_log s)) (map sent_frame (drop start (take (unat (ms_cs s)) (h0 @ h')))) \<and> start \<le> unat (ms_cs s))"

section \<open>The producer's steps\<close>

lemma open_slot:
  assumes "ring_open b h"
  shows "ring_slot b i = Some (b_ring b ! (unat i mod ring_len b))" "unat i mod ring_len b < length (b_ring b)"
    "b_ring b ! (unat i mod ring_len b) \<in> set (b_ring b)"
proof -
  show l: "unat i mod ring_len b < length (b_ring b)" using assms by (simp add: ring_open_def)
  then show "ring_slot b i = Some (b_ring b ! (unat i mod ring_len b))"
    using assms by (auto simp: ring_slot_def ring_open_def ring_len_def Let_def unat_mod)
  show "b_ring b ! (unat i mod ring_len b) \<in> set (b_ring b)" using l by simp
qed

lemma open_frame: "ring_open b h \<Longrightarrow> f \<in> set (b_ring b) \<Longrightarrow> length (rf_data f) = BROADCAST_MAX_FRAME_BYTES \<and> unat (rf_datalen f) \<le> BROADCAST_MAX_FRAME_BYTES"
  by (simp add: ring_open_def)

lemma store_slot_open:
  assumes "ring_open b h" "length (rf_data f) = BROADCAST_MAX_FRAME_BYTES" "unat (rf_datalen f) \<le> BROADCAST_MAX_FRAME_BYTES"
  shows "ring_open (store_slot f b) h" "next_slot (store_slot f b) = f" "ring_len (store_slot f b) = ring_len b"
    "b_producer_seq (store_slot f b) = b_producer_seq b"
proof -
  let ?k = "unat (b_producer_seq b) mod ring_len b"
  have k: "unat (b_producer_seq b mod u64_of (b_ring_size b)) = ?k" by (simp add: unat_mod ring_len_def)
  have b': "store_slot f b = b\<lparr>b_ring := (b_ring b)[?k := f]\<rparr>" by (simp add: store_slot_def k)
  show "ring_len (store_slot f b) = ring_len b" "b_producer_seq (store_slot f b) = b_producer_seq b"
    by (simp_all add: b' ring_len_def)
  have len: "?k < length (b_ring b)" by (rule open_slot(2) [OF assms(1)])
  then show "next_slot (store_slot f b) = f" by (simp add: b' ring_len_def)
  have other: "(b_ring b)[?k := f] ! (i mod ring_len b) = h ! i" if "i < length h" "length h < i + ring_len b" for i
  proof -
    have "?k \<noteq> i mod ring_len b" using mod_neq_close [OF that] assms(1) by (simp add: ring_open_def)
    with assms(1) that show ?thesis by (simp add: ring_open_def)
  qed
  have "\<forall>x \<in> set ((b_ring b)[?k := f]). length (rf_data x) = BROADCAST_MAX_FRAME_BYTES \<and> unat (rf_datalen x) \<le> BROADCAST_MAX_FRAME_BYTES"
    using assms set_update_subset_insert [of "b_ring b" ?k f] unfolding ring_open_def by blast
  then show "ring_open (store_slot f b) h"
    using assms(1) other unfolding b' ring_open_def ring_len_def by simp
qed

lemma slot_seal_store: "ring_open b h \<Longrightarrow> slot_seal b = Some (store_slot ((next_slot b)\<lparr>rf_seq := b_producer_seq b\<rparr>) b)"
  by (simp add: slot_seal_def open_slot(1) store_slot_def)

lemma advance_open:
  assumes "ring_open b h" "Suc (length h) < 2 ^ 64"
  shows "ring_open (seq_advance b) (h @ [next_slot b])" "ring_len (seq_advance b) = ring_len b"
proof -
  have p: "unat (b_producer_seq b + 1) = Suc (length h)" using assms by (subst unat_inc64) (auto simp: ring_open_def)
  show "ring_len (seq_advance b) = ring_len b" by (simp add: seq_advance_def ring_len_def)
  then show "ring_open (seq_advance b) (h @ [next_slot b])"
    using assms(1) p by (auto simp: ring_open_def seq_advance_def nth_append less_Suc_eq)
qed

text \<open>Longer histories keep what the listener knows.\<close>

lemma reader_inv_grow: "reader_inv n h r cs scratch \<Longrightarrow> reader_inv n (h @ [f]) r cs scratch"
  by (cases r) (auto simp: reader_inv_def nth_append)

lemma reader_inv_cs: "reader_inv n h r cs scratch \<Longrightarrow> unat cs \<le> length h"
  by (cases r) (auto simp: reader_inv_def)

lemma carries_copied:
  "writer_inv b (WCopying p k) \<Longrightarrow> p = (local, datalen, silence) \<Longrightarrow> k = unat datalen \<Longrightarrow> carries p (next_slot b)"
  by (auto simp: writer_inv_def carries_def)

lemma writer_ok:
  assumes "media_inv n start h0 reqs s" "list_all pub_fits reqs" "length h0 + length reqs < 2 ^ 64 - 1"
  shows "\<exists>s'. writer_step s = Some s' \<and> media_inv n start h0 reqs s'"
proof -
  from assms(1) obtain d h' where i: "reqs = d @ pending (ms_writer s) @ ms_reqs s" "list_all2 carries d h'" "ring_len (ms_b s) = n"
    "ring_open (ms_b s) (h0 @ h')" "writer_inv (ms_b s) (ms_writer s)"
    "reader_inv n (h0 @ h') (ms_reader s) (ms_cs s) (ms_scratch s)" "length (ms_scratch s) = BROADCAST_MAX_FRAME_BYTES"
    "subseq (in_window n (ms_log s)) (map sent_frame (drop start (take (unat (ms_cs s)) (h0 @ h'))))" "start \<le> unat (ms_cs s)"
    unfolding media_inv_def by blast
  let ?b = "ms_b s" and ?h = "h0 @ h'"
  note sl = open_slot [OF i(4), of "b_producer_seq ?b"]
  note fr = open_frame [OF i(4) sl(3)]
  have keep: "media_inv n start h0 reqs (s\<lparr>ms_b := b', ms_writer := w, ms_reqs := ps\<rparr>)"
    if "pending w @ ps = pending (ms_writer s) @ ms_reqs s" "ring_open b' ?h" "writer_inv b' w" "ring_len b' = n" for b' w ps
    unfolding media_inv_def using i that by (intro exI [of _ d] exI [of _ h']) simp
  show ?thesis
  proof (cases "ms_writer s")
    case WIdle
    show ?thesis
    proof (cases "ms_reqs s")
      case Nil
      with WIdle assms(1) show ?thesis by (simp add: writer_step_def)
    next
      case (Cons p ps)
      obtain local datalen silence where p: "p = (local, datalen, silence)" by (cases p)
      have "pub_fits p" using assms(2) i(1) Cons by simp
      then have dl: "unat datalen \<le> BROADCAST_MAX_FRAME_BYTES" by (simp add: pub_fits_def p)
      let ?f = "(next_slot ?b)\<lparr>rf_datalen := datalen, rf_samples := b_samples_per_frame ?b, rf_silence := silence\<rparr>"
      note st = store_slot_open [OF i(4), of ?f]
      have "media_inv n start h0 reqs (s\<lparr>ms_b := store_slot ?f ?b, ms_writer := WCopying p 0, ms_reqs := ps\<rparr>)"
        by (rule keep) (use st fr dl i(3) WIdle Cons in \<open>simp_all add: writer_inv_def p\<close>)
      moreover have "writer_step s = Some (s\<lparr>ms_b := store_slot ?f ?b, ms_writer := WCopying p 0, ms_reqs := ps\<rparr>)"
        using WIdle Cons sl(1) by (simp add: writer_step_def p Let_def)
      ultimately show ?thesis by blast
    qed
  next
    case (WCopying p k)
    obtain local datalen silence where p: "p = (local, datalen, silence)" by (cases p)
    have "pub_fits p" using assms(2) i(1) WCopying by simp
    then have dl: "unat datalen \<le> BROADCAST_MAX_FRAME_BYTES" "unat datalen \<le> length local" by (simp_all add: pub_fits_def p)
    note w = i(5) [unfolded WCopying p writer_inv_def, simplified]
    show ?thesis
    proof (cases "k < unat datalen")
      case True
      let ?f = "(next_slot ?b)\<lparr>rf_data := (rf_data (next_slot ?b))[k := local ! k]\<rparr>"
      have k: "k < length (rf_data (next_slot ?b))" "k < length local" using True dl fr by simp_all
      note st = store_slot_open [OF i(4), of ?f]
      have tk: "take (Suc k) ((rf_data (next_slot ?b))[k := local ! k]) = take (Suc k) local"
        using k w by (simp add: take_Suc_conv_app_nth)
      have "media_inv n start h0 reqs (s\<lparr>ms_b := store_slot ?f ?b, ms_writer := WCopying p (Suc k), ms_reqs := ms_reqs s\<rparr>)"
        by (rule keep) (use st fr True tk w i(3) WCopying in \<open>simp_all add: writer_inv_def p\<close>)
      with WCopying True k sl(1) show ?thesis by (simp add: writer_step_def p Let_def)
    next
      case False
      let ?f = "(next_slot ?b)\<lparr>rf_seq := b_producer_seq ?b\<rparr>"
      note st = store_slot_open [OF i(4), of ?f]
      have "carries p ?f" using w False by (auto simp: carries_def p)
      then have "media_inv n start h0 reqs (s\<lparr>ms_b := store_slot ?f ?b, ms_writer := WSealed p, ms_reqs := ms_reqs s\<rparr>)"
        by (intro keep) (use st fr i(3) WCopying in \<open>simp_all add: writer_inv_def\<close>)
      with WCopying False slot_seal_store [OF i(4)] show ?thesis by (simp add: writer_step_def p Let_def)
    qed
  next
    case (WSealed p)
    let ?f = "next_slot ?b"
    have len: "length d = length h'" using i(2) by (rule list_all2_lengthD)
    then have "Suc (length ?h) < 2 ^ 64" using assms(3) i(1) WSealed by simp
    note ad = advance_open [OF i(4) this]
    have c: "carries p ?f" using i(5) WSealed by (simp add: writer_inv_def)
    have cs: "unat (ms_cs s) \<le> length ?h" by (rule reader_inv_cs [OF i(6)])
    have "take (unat (ms_cs s)) (h0 @ (h' @ [?f])) = take (unat (ms_cs s)) ?h" using cs by simp
    moreover have "reader_inv n (h0 @ (h' @ [?f])) (ms_reader s) (ms_cs s) (ms_scratch s)"
      using reader_inv_grow [OF i(6), of ?f] by simp
    moreover have "ring_open (seq_advance ?b) (h0 @ (h' @ [?f]))" using ad(1) by simp
    moreover have "list_all2 carries (d @ [p]) (h' @ [?f])" using i(2) c by (simp add: list_all2_appendI)
    ultimately have "media_inv n start h0 reqs (s\<lparr>ms_b := seq_advance ?b, ms_writer := WIdle\<rparr>)"
      unfolding media_inv_def using i ad(2) WSealed
      by (intro exI [of _ "d @ [p]"] exI [of _ "h' @ [?f]"]) (simp add: writer_inv_def)
    then show ?thesis by (simp add: writer_step_def WSealed Let_def)
  qed
qed

section \<open>The listener's steps\<close>

lemma subseq_take_mono: "a \<le> b \<Longrightarrow> subseq xs (map g (drop m (take a h))) \<Longrightarrow> subseq xs (map g (drop m (take b h)))"
proof -
  assume a: "a \<le> b" "subseq xs (map g (drop m (take a h)))"
  have "take b h = take a h @ drop a (take b h)" using a(1) by (metis append_take_drop_id min.absorb1 take_take)
  then have "drop m (take b h) = drop m (take a h) @ drop (m - length (take a h)) (drop a (take b h))" by (metis drop_append)
  then have "subseq (map g (drop m (take a h))) (map g (drop m (take b h)))" by (metis map_append list_emb_append2 subseq_order.refl subseq_rev_drop_many prefix_imp_subseq prefixI)
  with a(2) show ?thesis by (rule subseq_order.trans)
qed

lemma drop_take_Suc: "a < length h \<Longrightarrow> m \<le> a \<Longrightarrow> drop m (take (Suc a) h) = drop m (take a h) @ [h ! a]"
  by (simp add: take_Suc_conv_app_nth)

lemma in_window_snoc: "in_window n (log @ [(lead, f)]) = in_window n log @ (if unat lead < n then [f] else [])"
  by (simp add: in_window_def)

text \<open>A complete copy, with the producer less than the ring size ahead, is the frame of the history.\<close>

lemma copied_frame:
  assumes "ring_open b h" "reader_inv (ring_len b) h (RCopying len k) cs scratch" "unat len \<le> k" "length h < unat cs + ring_len b"
    "f = b_ring b ! (unat cs mod ring_len b)"
  shows "(take (unat (rf_datalen f)) scratch, rf_datalen f, rf_samples f) = sent_frame (h ! unat cs)"
proof -
  have r: "unat cs < length h" "k = unat len" "len = rf_datalen (h ! unat cs)" "take k scratch = take k (rf_data (h ! unat cs))"
    using assms(2-4) by (auto simp: reader_inv_def)
  have "f = h ! unat cs" using assms(1,4,5) r(1) by (simp add: ring_open_def)
  with r show ?thesis by (simp add: sent_frame_def)
qed

lemma reader_updates:
  "s\<lparr>ms_reader := r, ms_cs := ms_cs s, ms_scratch := sc, ms_log := ms_log s\<rparr> = s\<lparr>ms_scratch := sc, ms_reader := r\<rparr>"
  "s\<lparr>ms_reader := r, ms_cs := c, ms_scratch := ms_scratch s, ms_log := l\<rparr> = s\<lparr>ms_log := l, ms_reader := r, ms_cs := c\<rparr>"
  "s\<lparr>ms_reader := r, ms_cs := ms_cs s\<rparr> = s\<lparr>ms_reader := r\<rparr>"
  by (cases s; simp)+

lemma reader_ok:
  assumes "media_inv n start h0 reqs s"
  shows "\<exists>s'. reader_step ml s = Some s' \<and> media_inv n start h0 reqs s'"
proof -
  from assms(1) obtain d h' where i: "reqs = d @ pending (ms_writer s) @ ms_reqs s" "list_all2 carries d h'" "ring_len (ms_b s) = n"
    "ring_open (ms_b s) (h0 @ h')" "writer_inv (ms_b s) (ms_writer s)"
    "reader_inv n (h0 @ h') (ms_reader s) (ms_cs s) (ms_scratch s)" "length (ms_scratch s) = BROADCAST_MAX_FRAME_BYTES"
    "subseq (in_window n (ms_log s)) (map sent_frame (drop start (take (unat (ms_cs s)) (h0 @ h'))))" "start \<le> unat (ms_cs s)"
    unfolding media_inv_def by blast
  let ?b = "ms_b s" and ?h = "h0 @ h'" and ?cs = "ms_cs s"
  let ?f = "b_ring ?b ! (unat ?cs mod ring_len ?b)"
  note sl = open_slot [OF i(4), of ?cs]
  note fr = open_frame [OF i(4) sl(3)]
  have pseq: "unat (b_producer_seq ?b) = length ?h" using i(4) by (simp add: ring_open_def)
  have keep: "media_inv n start h0 reqs (s\<lparr>ms_reader := r, ms_cs := cs, ms_scratch := sc, ms_log := l\<rparr>)"
    if "reader_inv n ?h r cs sc" "length sc = BROADCAST_MAX_FRAME_BYTES"
      "subseq (in_window n l) (map sent_frame (drop start (take (unat cs) ?h)))" "start \<le> unat cs" for r cs sc l
    unfolding media_inv_def using i that by (intro exI [of _ d] exI [of _ h']) simp
  have stay: "media_inv n start h0 reqs (s\<lparr>ms_reader := r, ms_cs := cs\<rparr>)" if "reader_inv n ?h r cs (ms_scratch s)" "unat ?cs \<le> unat cs" for r cs
  proof -
    have "media_inv n start h0 reqs (s\<lparr>ms_reader := r, ms_cs := cs, ms_scratch := ms_scratch s, ms_log := ms_log s\<rparr>)"
      by (rule keep [OF that(1) i(7) subseq_take_mono [OF that(2) i(8)]]) (use i(9) that(2) in simp)
    then show ?thesis by simp
  qed
  show ?thesis
  proof (cases "ms_reader s")
    case RTop
    show ?thesis
    proof (cases "?cs < b_producer_seq ?b")
      case True
      then have lt: "unat ?cs < length ?h" using pseq by (simp add: word_less_nat_alt)
      have dec: "unat (b_producer_seq ?b - 1) = length ?h - 1" using pseq lt by (subst unat_dec_nowrap) auto
      let ?c = "if u64_of ml < b_producer_seq ?b - ?cs then b_producer_seq ?b - 1 else ?cs"
      have "media_inv n start h0 reqs (s\<lparr>ms_reader := RPicked (b_producer_seq ?b), ms_cs := ?c\<rparr>)"
        by (rule stay) (use lt dec pseq in \<open>auto simp: reader_inv_def\<close>)
      with RTop True show ?thesis by (simp add: reader_step_def Let_def)
    next
      case False
      with RTop assms show ?thesis by (simp add: reader_step_def Let_def)
    qed
  next
    case (RPicked pseq')
    have r: "unat ?cs < unat pseq'" "unat pseq' \<le> length ?h" using i(6) RPicked by (simp_all add: reader_inv_def)
    show ?thesis
    proof (cases "rf_seq ?f = ?cs")
      case True
      have "media_inv n start h0 reqs (s\<lparr>ms_reader := RMatched, ms_cs := ?cs\<rparr>)" by (rule stay) (use r in \<open>simp_all add: reader_inv_def\<close>)
      with RPicked True sl(1) show ?thesis by (simp add: reader_step_def Let_def)
    next
      case False
      have "media_inv n start h0 reqs (s\<lparr>ms_reader := RTop, ms_cs := pseq' - 1 + 1\<rparr>)" by (rule stay) (use r in \<open>simp_all add: reader_inv_def\<close>)
      with RPicked False sl(1) show ?thesis by (simp add: reader_step_def Let_def)
    qed
  next
    case RMatched
    have r: "unat ?cs < length ?h" using i(6) RMatched by (simp add: reader_inv_def)
    have "?f = ?h ! unat ?cs" if "length ?h < unat ?cs + n" using i(3,4) r that by (simp add: ring_open_def)
    then have "media_inv n start h0 reqs (s\<lparr>ms_reader := RCopying (rf_datalen ?f) 0, ms_cs := ?cs\<rparr>)"
      by (intro stay) (use r fr in \<open>simp_all add: reader_inv_def\<close>)
    with RMatched sl(1) show ?thesis by (simp add: reader_step_def Let_def)
  next
    case (RCopying len k)
    note r = i(6) [unfolded RCopying]
    have c: "unat ?cs < length ?h" "unat len \<le> BROADCAST_MAX_FRAME_BYTES" "k \<le> unat len" using r by (simp_all add: reader_inv_def)
    show ?thesis
    proof (cases "k < unat len")
      case True
      have k: "k < length (rf_data ?f)" "k < length (ms_scratch s)" using True c(2) fr i(7) by simp_all
      let ?sc = "(ms_scratch s)[k := rf_data ?f ! k]"
      have "take (Suc k) ?sc = take (Suc k) (rf_data (?h ! unat ?cs))" if "length ?h < unat ?cs + n"
      proof -
        have "?f = ?h ! unat ?cs" using i(3,4) c(1) that by (simp add: ring_open_def)
        moreover have "take k (ms_scratch s) = take k (rf_data (?h ! unat ?cs))" using r that by (simp add: reader_inv_def)
        ultimately show ?thesis using k by (simp add: take_Suc_conv_app_nth)
      qed
      then have "reader_inv n ?h (RCopying len (Suc k)) ?cs ?sc" using r True by (simp add: reader_inv_def)
      then have "media_inv n start h0 reqs (s\<lparr>ms_reader := RCopying len (Suc k), ms_cs := ?cs, ms_scratch := ?sc, ms_log := ms_log s\<rparr>)"
        by (rule keep) (use i(7-9) in simp_all)
      then have "media_inv n start h0 reqs (s\<lparr>ms_scratch := ?sc, ms_reader := RCopying len (Suc k)\<rparr>)" by (rule back_subst [where P = "media_inv n start h0 reqs"]) (rule reader_updates)
      with RCopying True k sl(1) show ?thesis by (simp add: reader_step_def Let_def)
    next
      case False
      let ?x = "(take (unat (rf_datalen ?f)) (ms_scratch s), rf_datalen ?f, rf_samples ?f)"
      let ?l = "ms_log s @ [(b_producer_seq ?b - ?cs, ?x)]"
      have lead: "unat (b_producer_seq ?b - ?cs) = length ?h - unat ?cs" using pseq c(1) by (subst unat_diff_nowrap) auto
      have suc: "unat (?cs + 1) = Suc (unat ?cs)" using unat_Suc_nowrap [of ?cs "b_producer_seq ?b"] pseq c(1) by simp
      have tk: "drop start (take (Suc (unat ?cs)) ?h) = drop start (take (unat ?cs) ?h) @ [?h ! unat ?cs]"
        by (rule drop_take_Suc [OF c(1) i(9)])
      have "subseq (in_window n ?l) (map sent_frame (drop start (take (unat (?cs + 1)) ?h)))"
      proof (cases "length ?h < unat ?cs + n")
        case True
        have x: "?x = sent_frame (?h ! unat ?cs)"
          by (rule copied_frame [OF i(4) r [folded i(3)] _ _ refl]) (use False True i(3) in simp_all)
        have "unat (b_producer_seq ?b - ?cs) < n" using lead True c(1) by linarith
        then have "in_window n ?l = in_window n (ms_log s) @ [sent_frame (?h ! unat ?cs)]" by (simp only: in_window_snoc x if_True)
        moreover have "subseq (in_window n (ms_log s) @ [sent_frame (?h ! unat ?cs)])
            (map sent_frame (drop start (take (unat ?cs) ?h)) @ map sent_frame [?h ! unat ?cs])"
          by (rule list_emb_append_mono [OF i(8)]) simp
        ultimately show ?thesis unfolding suc tk map_append by (simp only:)
      next
        case far: False
        then have "in_window n ?l = in_window n (ms_log s)" using lead by (simp add: in_window_snoc)
        then show ?thesis using subseq_take_mono [OF _ i(8), of "unat (?cs + 1)"] suc by simp
      qed
      then have "media_inv n start h0 reqs (s\<lparr>ms_reader := RTop, ms_cs := ?cs + 1, ms_scratch := ms_scratch s, ms_log := ?l\<rparr>)"
        by (intro keep) (use i(7,9) c(1) suc in \<open>simp_all add: reader_inv_def\<close>)
      then have "media_inv n start h0 reqs (s\<lparr>ms_log := ?l, ms_reader := RTop, ms_cs := ?cs + 1\<rparr>)" by (rule back_subst [where P = "media_inv n start h0 reqs"]) (rule reader_updates)
      moreover have "unat (rf_datalen ?f) \<le> length (ms_scratch s)" using fr i(7) by simp
      ultimately show ?thesis using RCopying False sl(1) by (simp add: reader_step_def Let_def)
    qed
  qed
qed

lemma media_run_ok:
  assumes "list_all pub_fits reqs" "length h0 + length reqs < 2 ^ 64 - 1"
  shows "media_inv n start h0 reqs s \<Longrightarrow> \<exists>s'. media_run ml turns s = Some s' \<and> media_inv n start h0 reqs s'"
proof (induction turns arbitrary: s)
  case (Cons t turns)
  have "\<exists>s1. (case t of ProducerTurn \<Rightarrow> writer_step s | ListenerTurn \<Rightarrow> reader_step ml s) = Some s1 \<and> media_inv n start h0 reqs s1"
    using writer_ok [OF Cons.prems assms] reader_ok [OF Cons.prems] by (cases t) simp_all
  with Cons.IH show ?case by fastforce
qed simp

lemma media_start_inv:
  assumes "ring_hist b h" "list_all (\<lambda>f. unat (rf_datalen f) \<le> BROADCAST_MAX_FRAME_BYTES) (b_ring b)" "unat cs \<le> length h"
  shows "media_inv (ring_len b) (unat cs) h reqs (media_start b reqs cs)"
proof -
  have "ring_open b (h @ [])"
    using assms(1,2) mring.size_pos [OF assms(1)] by (auto simp: ring_open_def ring_hist_def ring_len_def list_all_iff)
  then show ?thesis
    unfolding media_inv_def using assms(3)
    by (intro exI [of _ "[]"]) (simp add: media_start_def writer_inv_def reader_inv_def in_window_def)
qed

section \<open>The producer alone\<close>

lemma media_run_append: "media_run ml (ts @ us) s = Option.bind (media_run ml ts s) (media_run ml us)"
proof (induction ts arbitrary: s)
  case (Cons t ts)
  show ?case
  proof (cases t)
    case ProducerTurn
    then show ?thesis by (cases "writer_step s") (simp_all add: Cons.IH)
  next
    case ListenerTurn
    then show ?thesis by (cases "reader_step ml s") (simp_all add: Cons.IH)
  qed
qed simp

lemma store_slot_twice: "store_slot f (store_slot g b) = store_slot f b"
  by (simp add: store_slot_def)

lemma store_slot_fields: "b_producer_seq (store_slot f b) = b_producer_seq b" "b_ring_size (store_slot f b) = b_ring_size b"
  "b_samples_per_frame (store_slot f b) = b_samples_per_frame b"
  by (simp_all add: store_slot_def)

text \<open>The slot just stored is the one the producer looks up again.\<close>

lemma store_slot_lookup: "ring_slot b (b_producer_seq b) = Some g \<Longrightarrow> ring_slot (store_slot f b) (b_producer_seq b) = Some f"
  by (auto simp: ring_slot_def store_slot_def Let_def split: if_splits)

lemma copy_byte: "k < length xs \<Longrightarrow> k < length ys \<Longrightarrow> (take k xs @ drop k ys)[k := xs ! k] = take (Suc k) xs @ drop (Suc k) ys"
  by (simp add: list_update_append take_Suc_conv_app_nth Cons_nth_drop_Suc [symmetric])

lemma copy_alone:
  assumes "ring_slot b (b_producer_seq b) = Some g" "unat datalen \<le> length local" "unat datalen \<le> length old"
  shows "k \<le> unat datalen \<Longrightarrow>
    media_run ml (replicate k ProducerTurn) (s\<lparr>ms_b := store_slot (f\<lparr>rf_data := old\<rparr>) b, ms_writer := WCopying (local, datalen, silence) 0\<rparr>)
    = Some (s\<lparr>ms_b := store_slot (f\<lparr>rf_data := take k local @ drop k old\<rparr>) b, ms_writer := WCopying (local, datalen, silence) k\<rparr>)"
proof (induction k)
  case (Suc k)
  have b: "(take k local @ drop k old)[k := local ! k] = take (Suc k) local @ drop (Suc k) old"
    using Suc.prems assms(2,3) by (intro copy_byte) simp_all
  have "writer_step (s\<lparr>ms_b := store_slot (f\<lparr>rf_data := take k local @ drop k old\<rparr>) b, ms_writer := WCopying (local, datalen, silence) k\<rparr>)
    = Some (s\<lparr>ms_b := store_slot (f\<lparr>rf_data := take (Suc k) local @ drop (Suc k) old\<rparr>) b, ms_writer := WCopying (local, datalen, silence) (Suc k)\<rparr>)"
    using Suc.prems assms(2,3) store_slot_lookup [OF assms(1)]
    by (simp add: writer_step_def Let_def store_slot_twice store_slot_fields b)
  moreover have "replicate (Suc k) ProducerTurn = replicate k ProducerTurn @ [ProducerTurn]" by (simp add: replicate_append_same)
  ultimately show ?case using Suc by (simp add: media_run_append del: replicate.simps)
qed simp

text \<open>With no load between them the producer's stores are the publication of \<open>Frame_Ring\<close>.\<close>

theorem stores_publish:
  assumes "ring_hist (ms_b s) h" "pub_fits (local, datalen, silence)" "ms_writer s = WIdle" "ms_reqs s = (local, datalen, silence) # ps"
  shows "\<exists>b'. ring_publish local datalen silence (ms_b s) = Some b'
    \<and> media_run ml (replicate (unat datalen + 3) ProducerTurn) s = Some (s\<lparr>ms_b := b', ms_reqs := ps\<rparr>)"
proof -
  let ?b = "ms_b s"
  obtain g where g: "ring_slot ?b (b_producer_seq ?b) = Some g" "length (rf_data g) = BROADCAST_MAX_FRAME_BYTES"
    using ring_slot_in [OF assms(1), of "b_producer_seq ?b"] assms(1) unfolding ring_hist_def by (metis nth_mem)
  have n: "unat datalen \<le> length local" "unat datalen \<le> length (rf_data g)" using assms(2) g(2) by (simp_all add: pub_fits_def)
  let ?f = "g\<lparr>rf_datalen := datalen, rf_samples := b_samples_per_frame ?b, rf_silence := silence\<rparr>"
  let ?d = "take (unat datalen) local @ drop (unat datalen) (rf_data g)"
  let ?s1 = "s\<lparr>ms_reqs := ps\<rparr>"
  let ?b2 = "store_slot (?f\<lparr>rf_data := ?d\<rparr>) ?b" and ?b3 = "store_slot (?f\<lparr>rf_data := ?d, rf_seq := b_producer_seq ?b\<rparr>) ?b"
  have first: "writer_step s = Some (?s1\<lparr>ms_b := store_slot (?f\<lparr>rf_data := rf_data g\<rparr>) ?b, ms_writer := WCopying (local, datalen, silence) 0\<rparr>)"
    using assms(3,4) g(1) by (simp add: writer_step_def Let_def)
  note copy = copy_alone [OF g(1) n order_refl, where s = ?s1 and f = ?f and ml = ml and silence = silence]
  have seal: "slot_seal ?b2 = Some ?b3"
    using store_slot_lookup [OF g(1), of "?f\<lparr>rf_data := ?d\<rparr>"] by (simp add: slot_seal_def store_slot_fields) (simp add: store_slot_def)
  have fill: "slot_fill local datalen silence ?b = Some ?b2"
    using g(1) n by (simp add: slot_fill_def memcpy_def store_slot_def)
  have pub: "ring_publish local datalen silence ?b = Some (seq_advance ?b3)"
    using fill seal by (simp add: ring_publish_def)
  have rep: "replicate (unat datalen + 3) ProducerTurn = ProducerTurn # replicate (unat datalen) ProducerTurn @ [ProducerTurn, ProducerTurn]"
  proof -
    have "unat datalen + 3 = 1 + (unat datalen + 2)" by simp
    then show ?thesis by (simp only: replicate_add) (simp add: numeral_2_eq_2)
  qed
  have last: "media_run ml [ProducerTurn, ProducerTurn] (?s1\<lparr>ms_b := ?b2, ms_writer := WCopying (local, datalen, silence) (unat datalen)\<rparr>)
      = Some (?s1\<lparr>ms_b := seq_advance ?b3, ms_writer := WIdle\<rparr>)"
    using seal by (simp add: writer_step_def Let_def)
  have "s\<lparr>ms_reqs := ps, ms_b := seq_advance ?b3, ms_writer := WIdle\<rparr> = s\<lparr>ms_b := seq_advance ?b3, ms_reqs := ps\<rparr>"
    using assms(3) by (cases s) simp
  then have "media_run ml (replicate (unat datalen + 3) ProducerTurn) s = Some (s\<lparr>ms_b := seq_advance ?b3, ms_reqs := ps\<rparr>)"
    unfolding rep using first copy last by (simp add: media_run_append)
  with pub show ?thesis by blast
qed

section \<open>Theorems\<close>

text \<open>
  C14. What a listener sends, access by access. However the single stores of the producer and the single loads of
  a listener's ticks are scheduled, none leaves its buffer; the frames published are the requests, in order; and
  the frames that the listener sent while the producer was less than the ring size ahead of them (when their
  copies were complete) are a subsequence of the published ones from its start position on: none of them is torn,
  invented, repeated or out of order. A frame for which the producer had come round is not covered: it may hold parts
  of the next payload (\<open>slot_being_filled\<close>).
\<close>

theorem listener_sends_subsequence:
  assumes "ring_hist b h" "list_all (\<lambda>f. unat (rf_datalen f) \<le> BROADCAST_MAX_FRAME_BYTES) (b_ring b)" "unat cs \<le> length h"
    "list_all pub_fits reqs" "length h + length reqs < 2 ^ 64 - 1"
  shows "\<exists>s h'. media_run ml turns (media_start b reqs cs) = Some s \<and> list_all2 carries (take (length h') reqs) h'
    \<and> subseq (map snd (filter (\<lambda>(lead, f). unat lead < ring_len b) (ms_log s))) (map sent_frame (drop (unat cs) (h @ h')))"
proof -
  from media_run_ok [OF assms(4,5) media_start_inv [OF assms(1-3)]] obtain s where
    s: "media_run ml turns (media_start b reqs cs) = Some s" "media_inv (ring_len b) (unat cs) h reqs s" by blast
  from s(2) obtain d h' where i: "reqs = d @ pending (ms_writer s) @ ms_reqs s" "list_all2 carries d h'"
    "subseq (in_window (ring_len b) (ms_log s)) (map sent_frame (drop (unat cs) (take (unat (ms_cs s)) (h @ h'))))"
    unfolding media_inv_def by blast
  have "take (length h') reqs = d" using i(1) list_all2_lengthD [OF i(2)] by simp
  moreover have "subseq (in_window (ring_len b) (ms_log s)) (map sent_frame (drop (unat cs) (take (unat (ms_cs s) + length (h @ h')) (h @ h'))))"
    by (rule subseq_take_mono [OF _ i(3)]) simp
  ultimately show ?thesis using s(1) i(2) by (auto simp: in_window_def)
qed

theorem listener_sends_subsequence_witness:
  "\<exists>s h'. media_run 10 (replicate 5 ProducerTurn @ [ListenerTurn, ProducerTurn, ListenerTurn] @ replicate 9 ListenerTurn)
       (media_start four_slots [([1, 2], 2, 0), ([3], 1, 0)] 0) = Some s
    \<and> list_all2 carries (take (length h') [([1, 2], 2, 0), ([3], 1, 0)]) h'
    \<and> subseq (map snd (filter (\<lambda>(lead, f). unat lead < ring_len four_slots) (ms_log s))) (map sent_frame (drop (unat (0 :: u64)) ([] @ h')))"
  by (rule listener_sends_subsequence [OF four_slots_hist])
    (simp_all add: four_slots_def zero_slot_def pub_fits_def BROADCAST_MAX_FRAME_BYTES_def list_all_iff)

end
