(* ===== verification/Producer.thy ===== *)
theory Producer
  imports Frame_Ring Listener_List
begin

text \<open>
  The producer thread of a broadcast (broadcast_producer.c): drift accounting, the three audio
  sources of a tick (playing file, speaker, silence policy), publication, and the tick statistics.
  Core calls (file reads, buffer reads, comfort noise, volume) are fields of \<open>tick_io\<close>; what the
  code relies on them for is \<open>tick_io_ok\<close>.
\<close>

section \<open>What a tick asks of the core\<close>

text \<open>
  A read of \<open>n\<close> samples gives a status, the number of samples read and the bytes written to the
  destination. \<open>ti_moh_read\<close> takes in addition which of the two reads of the tick it is.
\<close>

record tick_io =
  ti_now :: usec
  ti_evt_now :: usec
  ti_work_start :: usec
  ti_work_end :: usec
  ti_file_read :: "nat \<Rightarrow> nat \<Rightarrow> switch_status \<times> nat \<times> u8 list"
  ti_file_open :: "string \<Rightarrow> u32 \<Rightarrow> u32 \<Rightarrow> nat option"
  ti_moh_read :: "nat \<Rightarrow> nat \<Rightarrow> nat \<Rightarrow> switch_status \<times> nat \<times> u8 list"
  ti_silence :: "u32 \<Rightarrow> u32 \<Rightarrow> u32 \<Rightarrow> u8 list"
  ti_volume :: "int \<Rightarrow> u8 list \<Rightarrow> u8 list"
  ti_buffer_read :: "u8 list \<Rightarrow> nat \<Rightarrow> u8 list \<times> u8 list"

text \<open>
  The documented behaviour: a read gives at most the samples asked for and writes two bytes per
  sample and channel; silence generation fills \<open>samples * channels\<close> 16-bit values; the volume
  change works in place; a buffer read takes the oldest bytes, all that were asked for when it has them.
\<close>

definition tick_io_ok :: "u8 \<Rightarrow> tick_io \<Rightarrow> bool" where
  "tick_io_ok ch io \<longleftrightarrow>
     (\<forall>fh n st k bs. ti_file_read io fh n = (st, k, bs) \<longrightarrow> k \<le> n \<and> length bs = k * 2 * unat ch)
   \<and> (\<forall>i fh n st k bs. ti_moh_read io i fh n = (st, k, bs) \<longrightarrow> k \<le> n \<and> length bs = k * 2 * unat ch)
   \<and> (\<forall>spf d. length (ti_silence io spf (ucast ch) d) = unat spf * unat ch * 2)
   \<and> (\<forall>v bs. length (ti_volume io v bs) = length bs)
   \<and> (\<forall>buf n got rest. ti_buffer_read io buf n = (got, rest) \<longrightarrow> got @ rest = buf \<and> length got = min n (length buf))"

section \<open>The silence policy\<close>

definition write_local :: "u8 list \<Rightarrow> u8 list \<Rightarrow> u8 list option" where
  "write_local dst bytes = memcpy dst bytes (length bytes)"

definition silence_fill :: "tick_io \<Rightarrow> broadcast_obj \<Rightarrow> u8 list \<Rightarrow> u8 list option" where
  "silence_fill io b dst =
     (case b_silence_zero_buf b of
        Some z \<Rightarrow> memcpy dst z (unat (b_bytes_per_frame b))
      | None \<Rightarrow> write_local dst (ti_silence io (b_samples_per_frame b) (ucast (b_channels b)) (- 1)))"

text \<open>Music on hold: open once, read a frame, rewind and read again when the file ended.\<close>

definition moh_open_step :: "tick_io \<Rightarrow> string \<Rightarrow> broadcast_obj \<Rightarrow> broadcast_obj" where
  "moh_open_step io path b =
     (if b_moh_open b then b
      else case ti_file_open io path (ucast (b_channels b)) (b_rate b) of
             Some fh \<Rightarrow> b\<lparr>b_moh_fh := fh, b_moh_open := True\<rparr>
           | None \<Rightarrow> b\<lparr>b_moh_fh := 0\<rparr>)"

definition moh_read_step :: "tick_io \<Rightarrow> broadcast_obj \<Rightarrow> nat \<Rightarrow> u8 list \<Rightarrow> (u8 list \<times> nat) option" where
  "moh_read_step io b want dst =
     (if b_moh_open b then
        (case ti_moh_read io 0 (b_moh_fh b) want of (st, rlen, bytes) \<Rightarrow> do {
           dst \<leftarrow> write_local dst bytes;
           if st \<noteq> ST_SUCCESS \<or> rlen < want then
             (case ti_moh_read io 1 (b_moh_fh b) want of (st, rlen, bytes) \<Rightarrow> do {
                dst \<leftarrow> write_local dst bytes;
                Some (dst, rlen) })
           else Some (dst, rlen) })
      else Some (dst, 0))"

definition b_apply_silence_policy :: "tick_io \<Rightarrow> broadcast_obj \<Rightarrow> u8 list \<Rightarrow> (broadcast_obj \<times> u8 list \<times> u32) option" where
  "b_apply_silence_policy io b dst =
     (let pol = b_silence_policy b; bpf = b_bytes_per_frame b; spf = b_samples_per_frame b;
          ch = ucast (b_channels b) :: u32
      in if zstr pol \<or> strcaseeq (the pol) ''zero'' then do {
           dst \<leftarrow> silence_fill io b dst;
           Some (b, dst, bpf) }
         else if strcaseeq (the pol) ''cn'' then do {
           let dv = (case b_profile b of
                        Some p \<Rightarrow> if p_comfort_noise_level p \<noteq> 0 then p_comfort_noise_level p else 1400
                      | None \<Rightarrow> 1400);
           dst \<leftarrow> write_local dst (ti_silence io spf ch (dv * (b_rate b div 8000)));
           Some (b, dst, bpf) }
         else if has_case_prefix ''moh:'' (the pol) then do {
           let want = unat spf;
           let b = moh_open_step io (drop 4 (the pol)) b;
           (dst, rlen) \<leftarrow> moh_read_step io b want dst;
           dst \<leftarrow> (if rlen < want then silence_fill io b dst else Some dst);
           Some (b, dst, bpf) }
         else do {
           dst \<leftarrow> silence_fill io b dst;
           Some (b, dst, bpf) })"

section \<open>One tick\<close>

text \<open>Wall-clock drift against the ideal schedule, and the rate-limited stall event.\<close>

definition tick_drift :: "copy_string \<Rightarrow> tick_io \<Rightarrow> broadcast_obj \<Rightarrow> broadcast_obj" where
  "tick_drift cpy io b =
     (let now = ti_now io in
      if b_producer_first_tick_us b = 0 then b\<lparr>b_producer_first_tick_us := now\<rparr>
      else
        let tn = u64_of (b_stat_ticks b);
            expected = b_producer_first_tick_us b + sint (tn * u64_of (b_interval_ms b) * 1000);
            drift = (word_of_int (if expected < now then now - expected else 0) :: u64);
            b = b\<lparr>b_stat_tick_drift_us_max :=
                   (if b_stat_tick_drift_us_max b < drift then drift else b_stat_tick_drift_us_max b)\<rparr>
        in if 2 * u64_of (b_interval_ms b) * 1000 < drift then
             if 3000000 < now - b_last_producer_stall_evt_us b then
               broadcast_enqueue_event cpy (ti_evt_now io) (b\<lparr>b_last_producer_stall_evt_us := now\<rparr>)
                 BEVT_PRODUCER_STALL 0 (Some (snprintf_u 24 (unat drift)))
             else b
           else b)"

text \<open>A playing file comes first: a full frame is used, anything else ends the playback.\<close>

definition tick_play :: "tick_io \<Rightarrow> broadcast_obj \<Rightarrow> u8 list \<Rightarrow> (broadcast_obj \<times> u8 list \<times> u32 \<times> u8) option" where
  "tick_play io b local =
     (case (has_flag (b_cflags b) BFLAG_PLAY_FILE, b_play_fh b) of
        (True, Some fh) \<Rightarrow>
          (let want = unat (b_samples_per_frame b) in
           case ti_file_read io fh want of (st, rlen, bytes) \<Rightarrow> do {
             local \<leftarrow> write_local local bytes;
             if st = ST_SUCCESS \<and> rlen = want then Some (b, local, of_nat (rlen * 2 * unat (b_channels b)), 0)
             else Some (b\<lparr>b_play_fh := None, b_cflags := clr_flag (b_cflags b) BFLAG_PLAY_FILE\<rparr>, local, 0, 1) })
      | _ \<Rightarrow> Some (b, local, 0, 1))"

definition volume_apply :: "tick_io \<Rightarrow> u8 list \<Rightarrow> nat \<Rightarrow> int \<Rightarrow> u8 list option" where
  "volume_apply io local samples vol =
     (if 2 * samples \<le> length local then write_local local (ti_volume io vol (take (2 * samples) local)) else None)"

text \<open>Then the speaker: muted, the buffer is drained; otherwise a full frame is taken from it.\<close>

definition speaker_read :: "tick_io \<Rightarrow> broadcast_obj \<Rightarrow> member_obj \<Rightarrow> u8 list \<Rightarrow> u8 list \<Rightarrow> u32 \<Rightarrow> u8
    \<Rightarrow> (member_obj \<times> u8 list \<times> u32 \<times> u8) option" where
  "speaker_read io b spk buf local datalen silence =
     (case ti_buffer_read io buf (unat (b_bytes_per_frame b)) of (got, rest) \<Rightarrow> do {
        local \<leftarrow> write_local local got;
        let spk = spk\<lparr>m_audio_buffer := Some rest\<rparr>;
        if length got = unat (b_bytes_per_frame b) then do {
          let datalen = (of_nat (length got) :: u32);
          local \<leftarrow> (if m_vol_idx spk \<noteq> 0 then volume_apply io local (unat (datalen div 2)) (m_vol_idx spk) else Some local);
          Some (spk, local, datalen, 0) }
        else Some (spk, local, datalen, silence) })"

definition tick_speaker :: "tick_io \<Rightarrow> u32 \<Rightarrow> room \<Rightarrow> u8 list \<Rightarrow> u32 \<Rightarrow> u8 \<Rightarrow> (room \<times> u8 list \<times> u32 \<times> u8) option" where
  "tick_speaker io cflags_snap r local datalen silence =
     (case b_current_speaker (rm_b r) of
        None \<Rightarrow> Some (r, local, datalen, silence)
      | Some a \<Rightarrow>
          if datalen = 0 \<and> \<not> has_flag cflags_snap BFLAG_PAUSE then do {
            spk \<leftarrow> rm_heap r a;
            (case (m_audio_buffer spk, m_audio_in_mutex spk) of
               (Some buf, True) \<Rightarrow>
                 if has_flag (m_mflags spk) MFLAG_MUTED_SPEAKER then
                   Some (r\<lparr>rm_heap := (rm_heap r)(a \<mapsto> spk\<lparr>m_audio_buffer := Some []\<rparr>)\<rparr>, local, datalen, silence)
                 else do {
                   (spk, local, datalen, silence) \<leftarrow> speaker_read io (rm_b r) spk buf local datalen silence;
                   Some (r\<lparr>rm_heap := (rm_heap r)(a \<mapsto> spk)\<rparr>, local, datalen, silence) }
             | _ \<Rightarrow> Some (r, local, datalen, silence)) }
          else Some (r, local, datalen, silence))"

text \<open>Otherwise, and always while paused, the silence policy.\<close>

definition tick_silence :: "tick_io \<Rightarrow> u32 \<Rightarrow> broadcast_obj \<Rightarrow> u8 list \<Rightarrow> u32 \<Rightarrow> u8 \<Rightarrow> (broadcast_obj \<times> u8 list \<times> u32 \<times> u8) option" where
  "tick_silence io cflags_snap b local datalen silence =
     (if silence \<noteq> 0 \<or> has_flag cflags_snap BFLAG_PAUSE then do {
        (b, local, datalen) \<leftarrow> b_apply_silence_policy io b local;
        Some (b, local, datalen, 1) }
      else Some (b, local, datalen, silence))"

definition tick_stats :: "tick_io \<Rightarrow> u8 \<Rightarrow> broadcast_obj \<Rightarrow> broadcast_obj" where
  "tick_stats io silence b =
     (let b = b\<lparr>b_stat_ticks := b_stat_ticks b + 1,
                b_stat_speaker_silent_ticks :=
                  (if silence \<noteq> 0 then b_stat_speaker_silent_ticks b + 1 else b_stat_speaker_silent_ticks b)\<rparr>;
          d = ti_work_end io - ti_work_start io;
          b = (if b_producer_max_tick_us b < d
               then b\<lparr>b_producer_max_tick_us := d, b_producer_max_tick_seen_us := ti_work_end io\<rparr> else b);
          b = b\<lparr>b_producer_tick_sum_us := b_producer_tick_sum_us b + word_of_int d,
                b_producer_tick_count_for_avg := b_producer_tick_count_for_avg b + 1\<rparr>
      in if uint (b_interval_ms b * 1000 * 2) < d then b\<lparr>b_stat_missed_ticks := b_stat_missed_ticks b + 1\<rparr> else b)"

definition producer_tick :: "copy_string \<Rightarrow> tick_io \<Rightarrow> room \<times> u8 list \<Rightarrow> (room \<times> u8 list) option" where
  "producer_tick cpy io = (\<lambda>(r, local). do {
     let b = tick_drift cpy io (rm_b r);
     (b, local, datalen, silence) \<leftarrow> tick_play io b local;
     let cflags_snap = b_cflags b;
     (r, local, datalen, silence) \<leftarrow> tick_speaker io cflags_snap (r\<lparr>rm_b := b\<rparr>) local datalen silence;
     (b, local, datalen, silence) \<leftarrow> tick_silence io cflags_snap (rm_b r) local datalen silence;
     b \<leftarrow> ring_publish local datalen silence b;
     Some (r\<lparr>rm_b := tick_stats io silence b\<rparr>, local) })"

text \<open>
  The thread: two attempts to get a timer, then one tick per timer event. A list element is one
  timer event, with what the other threads did to the broadcast while the producer waited for it.
\<close>

fun producer_loop :: "copy_string \<Rightarrow> (tick_io \<times> (room \<Rightarrow> room)) list \<Rightarrow> room \<times> u8 list \<Rightarrow> (room \<times> u8 list) option" where
  "producer_loop cpy [] (r, local) = Some (r, local)"
| "producer_loop cpy ((io, others) # ticks) (r, local) =
     (if b_producer_running (rm_b r) \<and> \<not> b_destroyed (rm_b r) then do {
        s \<leftarrow> producer_tick cpy io (others r, local);
        producer_loop cpy ticks s }
      else Some (r\<lparr>rm_b := (rm_b r)\<lparr>b_producer_running := False\<rparr>\<rparr>, local))"

definition broadcast_producer_run ::
  "copy_string \<Rightarrow> switch_status \<Rightarrow> switch_status \<Rightarrow> (tick_io \<times> (room \<Rightarrow> room)) list \<Rightarrow> room \<times> u8 list \<Rightarrow> (room \<times> u8 list) option" where
  "broadcast_producer_run cpy timer soft ticks = (\<lambda>(r, local).
     if timer \<noteq> ST_SUCCESS \<and> soft \<noteq> ST_SUCCESS then
       Some (r\<lparr>rm_b := (rm_b r)\<lparr>b_producer_running := False\<rparr>\<rparr>, local)
     else producer_loop cpy ticks (r, local))"

section \<open>Invariants\<close>

text \<open>The frame geometry the allocations of the broadcast are made for.\<close>

definition geom_ok :: "broadcast_obj \<Rightarrow> bool" where
  "geom_ok b \<longleftrightarrow> 0 < unat (b_bytes_per_frame b)
     \<and> unat (b_bytes_per_frame b) = unat (b_samples_per_frame b) * unat (b_channels b) * 2
     \<and> unat (b_bytes_per_frame b) \<le> BROADCAST_MAX_FRAME_BYTES
     \<and> (\<forall>z. b_silence_zero_buf b = Some z \<longrightarrow> length z = BROADCAST_MAX_FRAME_BYTES)"

definition speaker_live :: "room \<Rightarrow> bool" where
  "speaker_live r = (\<forall>a. b_current_speaker (rm_b r) = Some a \<longrightarrow> rm_heap r a \<noteq> None)"

text \<open>The fields the producer owns or that never change after creation.\<close>

definition prod_same :: "broadcast_obj \<Rightarrow> broadcast_obj \<Rightarrow> bool" where
  "prod_same b b' \<longleftrightarrow> b_ring b' = b_ring b \<and> b_ring_size b' = b_ring_size b \<and> b_producer_seq b' = b_producer_seq b
     \<and> b_bytes_per_frame b' = b_bytes_per_frame b \<and> b_samples_per_frame b' = b_samples_per_frame b
     \<and> b_channels b' = b_channels b \<and> b_silence_zero_buf b' = b_silence_zero_buf b"

lemma prod_same_refl [simp]: "prod_same b b"
  by (simp add: prod_same_def)

lemma prod_same_trans: "prod_same a b \<Longrightarrow> prod_same b c \<Longrightarrow> prod_same a c"
  by (simp add: prod_same_def)

lemma prod_same_ring: "prod_same b b' \<Longrightarrow> ring_hist b' h = ring_hist b h"
  by (simp add: prod_same_def ring_hist_def)

lemma prod_same_geom: "prod_same b b' \<Longrightarrow> geom_ok b' = geom_ok b"
  by (simp add: prod_same_def geom_ok_def)

lemma tick_drift_same [simp]:
  "prod_same b (tick_drift cpy io b)" "b_cflags (tick_drift cpy io b) = b_cflags b" "b_play_fh (tick_drift cpy io b) = b_play_fh b"
  "b_current_speaker (tick_drift cpy io b) = b_current_speaker b" "b_silence_policy (tick_drift cpy io b) = b_silence_policy b"
  by (auto simp: tick_drift_def Let_def prod_same_def)

lemma tick_stats_same [simp]:
  "prod_same b (tick_stats io s b)" "b_current_speaker (tick_stats io s b) = b_current_speaker b"
  by (auto simp: tick_stats_def Let_def prod_same_def)

section \<open>Each part succeeds and stays in bounds\<close>

lemma write_local_ok: "length bytes \<le> length local \<Longrightarrow> write_local local bytes = Some (bytes @ drop (length bytes) local)"
  by (simp add: write_local_def memcpy_def)

lemma frame_bytes:
  assumes "geom_ok b"
  shows "unat (b_samples_per_frame b) * 2 * unat (b_channels b) = unat (b_bytes_per_frame b)"
    "0 < unat (b_bytes_per_frame b)" "unat (b_bytes_per_frame b) \<le> 1920"
proof -
  have "unat (b_bytes_per_frame b) = unat (b_samples_per_frame b) * unat (b_channels b) * 2"
    using assms unfolding geom_ok_def by blast
  then show "unat (b_samples_per_frame b) * 2 * unat (b_channels b) = unat (b_bytes_per_frame b)" by simp
  show "0 < unat (b_bytes_per_frame b)" using assms unfolding geom_ok_def by blast
  show "unat (b_bytes_per_frame b) \<le> 1920" using assms by (simp add: geom_ok_def BROADCAST_MAX_FRAME_BYTES_def)
qed

lemma io_file_read:
  assumes "tick_io_ok ch io" "ti_file_read io fh n = (st, k, bs)"
  shows "k \<le> n" "length bs = k * 2 * unat ch"
  using assms unfolding tick_io_ok_def by blast+

lemma io_moh_read:
  assumes "tick_io_ok ch io" "ti_moh_read io i fh n = (st, k, bs)"
  shows "k \<le> n" "length bs = k * 2 * unat ch"
  using assms unfolding tick_io_ok_def by blast+

lemma io_silence: "tick_io_ok ch io \<Longrightarrow> length (ti_silence io spf (ucast ch) d) = unat spf * unat ch * 2"
  unfolding tick_io_ok_def by blast

lemma io_volume: "tick_io_ok ch io \<Longrightarrow> length (ti_volume io v bs) = length bs"
  unfolding tick_io_ok_def by blast

lemma io_buffer_read:
  assumes "tick_io_ok ch io" "ti_buffer_read io buf n = (got, rest)"
  shows "got @ rest = buf" "length got = min n (length buf)" "got = take n buf" "rest = drop n buf"
proof -
  show *: "got @ rest = buf" "length got = min n (length buf)"
    using assms unfolding tick_io_ok_def by blast+
  show g: "got = take n buf" using * by (cases "n \<le> length buf") (auto simp: min_def)
  show "rest = drop n buf" using *(1) g by (metis append_eq_conv_conj append_take_drop_id same_append_eq)
qed

lemma samples_bytes_le: "geom_ok b \<Longrightarrow> k \<le> unat (b_samples_per_frame b) \<Longrightarrow> k * 2 * unat (b_channels b) \<le> unat (b_bytes_per_frame b)"
  using frame_bytes(1) [of b] mult_le_mono1 [of "k * 2" "unat (b_samples_per_frame b) * 2" "unat (b_channels b)"] by simp

text \<open>The bytes a silence fill puts in front.\<close>

definition zero_bytes :: "tick_io \<Rightarrow> broadcast_obj \<Rightarrow> u8 list" where
  "zero_bytes io b = (case b_silence_zero_buf b of Some z \<Rightarrow> take (unat (b_bytes_per_frame b)) z
     | None \<Rightarrow> ti_silence io (b_samples_per_frame b) (ucast (b_channels b)) (- 1))"

lemma silence_fill_ok:
  assumes "tick_io_ok (b_channels b) io" "geom_ok b" "unat (b_bytes_per_frame b) \<le> length dst"
  shows "silence_fill io b dst = Some (zero_bytes io b @ drop (unat (b_bytes_per_frame b)) dst)"
    and "length (zero_bytes io b) = unat (b_bytes_per_frame b)"
proof -
  show l: "length (zero_bytes io b) = unat (b_bytes_per_frame b)"
    using io_silence [OF assms(1)] frame_bytes(1) [OF assms(2)] assms(2)
    by (simp add: zero_bytes_def geom_ok_def split: option.splits)
  show "silence_fill io b dst = Some (zero_bytes io b @ drop (unat (b_bytes_per_frame b)) dst)"
    using l assms(3) by (auto simp: silence_fill_def zero_bytes_def memcpy_def write_local_ok split: option.splits)
qed

text \<open>What the policy puts into the frame, by the three policies and the fallback.\<close>

definition moh_bytes :: "tick_io \<Rightarrow> broadcast_obj \<Rightarrow> u8 list" where
  "moh_bytes io b =
     (let n = unat (b_samples_per_frame b); b' = moh_open_step io (drop 4 (the (b_silence_policy b))) b;
          (st, k, bs) = ti_moh_read io 0 (b_moh_fh b') n; (st', k', bs') = ti_moh_read io 1 (b_moh_fh b') n
      in if \<not> b_moh_open b' then zero_bytes io b
         else if st = ST_SUCCESS \<and> k = n then bs
         else if k' = n then bs' else zero_bytes io b)"

definition policy_bytes :: "tick_io \<Rightarrow> broadcast_obj \<Rightarrow> u8 list" where
  "policy_bytes io b =
     (let pol = b_silence_policy b in
      if zstr pol \<or> strcaseeq (the pol) ''zero'' then zero_bytes io b
      else if strcaseeq (the pol) ''cn'' then
        ti_silence io (b_samples_per_frame b) (ucast (b_channels b))
          ((case b_profile b of Some p \<Rightarrow> if p_comfort_noise_level p \<noteq> 0 then p_comfort_noise_level p else 1400 | None \<Rightarrow> 1400)
             * (b_rate b div 8000))
      else if has_case_prefix ''moh:'' (the pol) then moh_bytes io b
      else zero_bytes io b)"

definition policy_state :: "tick_io \<Rightarrow> broadcast_obj \<Rightarrow> broadcast_obj" where
  "policy_state io b =
     (let pol = b_silence_policy b in
      if zstr pol \<or> strcaseeq (the pol) ''zero'' \<or> strcaseeq (the pol) ''cn'' then b
      else if has_case_prefix ''moh:'' (the pol) then moh_open_step io (drop 4 (the pol)) b else b)"

lemma moh_open_same [simp]:
  "prod_same b (moh_open_step io path b)" "b_current_speaker (moh_open_step io path b) = b_current_speaker b"
  "b_bytes_per_frame (moh_open_step io path b) = b_bytes_per_frame b" "b_samples_per_frame (moh_open_step io path b) = b_samples_per_frame b"
  "b_channels (moh_open_step io path b) = b_channels b" "b_silence_zero_buf (moh_open_step io path b) = b_silence_zero_buf b"
  by (simp_all add: moh_open_step_def prod_same_def split: option.splits)

lemma zero_bytes_open [simp]: "zero_bytes io (moh_open_step io' path b) = zero_bytes io b"
  by (cases "b_silence_zero_buf b") (simp_all add: zero_bytes_def)

lemma policy_state_same [simp]:
  "prod_same b (policy_state io b)" "b_current_speaker (policy_state io b) = b_current_speaker b"
  by (simp_all add: policy_state_def Let_def)

text \<open>A buffer that starts with \<open>bytes\<close>, of unchanged length: how each step leaves the local frame.\<close>

definition frame_is :: "u8 list \<Rightarrow> u8 list \<Rightarrow> bool" where
  "frame_is bytes local \<longleftrightarrow> length local = BROADCAST_MAX_FRAME_BYTES \<and> take (length bytes) local = bytes"

lemma frame_isI:
  "length local = BROADCAST_MAX_FRAME_BYTES \<Longrightarrow> length bytes = n \<Longrightarrow> n \<le> BROADCAST_MAX_FRAME_BYTES \<Longrightarrow> frame_is bytes (bytes @ drop n local)"
  by (simp add: frame_is_def)

lemma write_frame:
  assumes "length local = BROADCAST_MAX_FRAME_BYTES" "length bytes \<le> BROADCAST_MAX_FRAME_BYTES"
  shows "\<exists>local'. write_local local bytes = Some local' \<and> frame_is bytes local'"
  using assms by (simp add: write_local_ok frame_isI)

lemma moh_read_ok:
  assumes "tick_io_ok (b_channels b) io" "geom_ok b" "length dst = BROADCAST_MAX_FRAME_BYTES" "b_moh_open b"
    "ti_moh_read io 0 (b_moh_fh b) (unat (b_samples_per_frame b)) = (st, k, bs)"
    "ti_moh_read io 1 (b_moh_fh b) (unat (b_samples_per_frame b)) = (st', k', bs')"
  shows "\<exists>dst'. moh_read_step io b (unat (b_samples_per_frame b)) dst =
      Some (dst', if st = ST_SUCCESS \<and> k = unat (b_samples_per_frame b) then k else k')
     \<and> frame_is (if st = ST_SUCCESS \<and> k = unat (b_samples_per_frame b) then bs else bs') dst'"
proof -
  have B: "unat (b_bytes_per_frame b) \<le> BROADCAST_MAX_FRAME_BYTES" using assms(2) by (simp add: geom_ok_def)
  note r = io_moh_read [OF assms(1,5)] and r' = io_moh_read [OF assms(1,6)]
  have l: "length bs \<le> BROADCAST_MAX_FRAME_BYTES" "length bs' \<le> BROADCAST_MAX_FRAME_BYTES"
    using samples_bytes_le [OF assms(2) r(1)] samples_bytes_le [OF assms(2) r'(1)] r(2) r'(2) B by simp_all
  obtain d where d: "write_local dst bs = Some d" "frame_is bs d" using write_frame [OF assms(3) l(1)] by blast
  then have "length d = BROADCAST_MAX_FRAME_BYTES" by (simp add: frame_is_def)
  then obtain d' where d': "write_local d bs' = Some d'" "frame_is bs' d'" using write_frame l(2) by blast
  show ?thesis using assms(4-6) d d' r(1) by (auto simp: moh_read_step_def)
qed

lemma fill_frame:
  assumes "tick_io_ok (b_channels b) io" "geom_ok b" "length dst = BROADCAST_MAX_FRAME_BYTES"
  shows "\<exists>dst'. silence_fill io b dst = Some dst' \<and> frame_is (zero_bytes io b) dst'"
proof -
  have B: "unat (b_bytes_per_frame b) \<le> BROADCAST_MAX_FRAME_BYTES" using assms(2) by (simp add: geom_ok_def)
  show ?thesis
    using silence_fill_ok [OF assms(1,2), of dst] B assms(3) by (simp add: frame_isI)
qed

lemma moh_policy_ok:
  assumes "tick_io_ok (b_channels b) io" "geom_ok b" "length dst = BROADCAST_MAX_FRAME_BYTES"
    and b': "b' = moh_open_step io (drop 4 (the (b_silence_policy b))) b"
  shows "\<exists>d k d'. moh_read_step io b' (unat (b_samples_per_frame b)) dst = Some (d, k)
    \<and> (if k < unat (b_samples_per_frame b) then silence_fill io b' d else Some d) = Some d'
    \<and> frame_is (moh_bytes io b) d' \<and> length (moh_bytes io b) = unat (b_bytes_per_frame b)"
proof -
  have ok: "tick_io_ok (b_channels b') io" "geom_ok b'" "zero_bytes io b' = zero_bytes io b"
    "b_samples_per_frame b' = b_samples_per_frame b" "b_bytes_per_frame b' = b_bytes_per_frame b" "b_channels b' = b_channels b"
    using assms(1,2) prod_same_geom [OF moh_open_same(1)] by (simp_all add: b')
  have zl: "length (zero_bytes io b) = unat (b_bytes_per_frame b)"
    using silence_fill_ok(2) [OF ok(1,2), of dst] frame_bytes(3) [OF ok(2)] assms(3) ok(3,5)
    by (simp add: BROADCAST_MAX_FRAME_BYTES_def)
  obtain st k bs where m0: "ti_moh_read io 0 (b_moh_fh b') (unat (b_samples_per_frame b)) = (st, k, bs)" by (metis surj_pair)
  obtain st' k' bs' where m1: "ti_moh_read io 1 (b_moh_fh b') (unat (b_samples_per_frame b)) = (st', k', bs')" by (metis surj_pair)
  note r0 = io_moh_read [OF assms(1) m0] and r1 = io_moh_read [OF assms(1) m1]
  have full: "k = unat (b_samples_per_frame b) \<Longrightarrow> length bs = unat (b_bytes_per_frame b)"
    "k' = unat (b_samples_per_frame b) \<Longrightarrow> length bs' = unat (b_bytes_per_frame b)"
    using r0(2) r1(2) frame_bytes(1) [OF assms(2)] by simp_all
  have mb: "moh_bytes io b = (if \<not> b_moh_open b' then zero_bytes io b
      else if st = ST_SUCCESS \<and> k = unat (b_samples_per_frame b) then bs
      else if k' = unat (b_samples_per_frame b) then bs' else zero_bytes io b)"
    using m0 m1 by (simp add: moh_bytes_def b' Let_def)
  show ?thesis
  proof (cases "b_moh_open b'")
    case False
    obtain d' where "silence_fill io b' dst = Some d'" "frame_is (zero_bytes io b) d'"
      using fill_frame [OF ok(1,2) assms(3)] ok(3) by auto
    moreover have "0 < unat (b_samples_per_frame b)" using assms(2) unfolding geom_ok_def by (metis less_nat_zero_code mult_0 neq0_conv)
    ultimately show ?thesis using False mb zl by (simp add: moh_read_step_def)
  next
    case True
    from moh_read_ok [OF ok(1,2) assms(3) True] m0 m1 ok(4) obtain d where
      d: "moh_read_step io b' (unat (b_samples_per_frame b)) dst =
        Some (d, if st = ST_SUCCESS \<and> k = unat (b_samples_per_frame b) then k else k')"
      "frame_is (if st = ST_SUCCESS \<and> k = unat (b_samples_per_frame b) then bs else bs') d" by auto
    have "length d = BROADCAST_MAX_FRAME_BYTES" using d(2) by (simp add: frame_is_def)
    then obtain d' where "silence_fill io b' d = Some d'" "frame_is (zero_bytes io b) d'"
      using fill_frame [OF ok(1,2), of d] ok(3) by auto
    with d True mb zl full r0(1) r1(1) show ?thesis by (auto split: if_splits)
  qed
qed

lemma policy_ok:
  assumes "tick_io_ok (b_channels b) io" "geom_ok b" "length dst = BROADCAST_MAX_FRAME_BYTES"
  shows "\<exists>dst'. b_apply_silence_policy io b dst = Some (policy_state io b, dst', b_bytes_per_frame b)
    \<and> frame_is (policy_bytes io b) dst' \<and> length (policy_bytes io b) = unat (b_bytes_per_frame b)"
proof -
  have B: "unat (b_bytes_per_frame b) \<le> BROADCAST_MAX_FRAME_BYTES" using assms(2) by (simp add: geom_ok_def)
  have zl: "length (zero_bytes io b) = unat (b_bytes_per_frame b)"
    using silence_fill_ok(2) [OF assms(1,2), of dst] B assms(3) by simp
  obtain z where z: "silence_fill io b dst = Some z" "frame_is (zero_bytes io b) z" using fill_frame [OF assms] by blast
  have cl: "length (ti_silence io (b_samples_per_frame b) (ucast (b_channels b)) d) = unat (b_bytes_per_frame b)" for d
    using io_silence [OF assms(1)] frame_bytes(1) [OF assms(2)] by simp
  let ?S = "ti_silence io (b_samples_per_frame b) (ucast (b_channels b))
     ((case b_profile b of Some p \<Rightarrow> if p_comfort_noise_level p \<noteq> 0 then p_comfort_noise_level p else 1400 | None \<Rightarrow> 1400)
        * (b_rate b div 8000))"
  obtain w where w: "write_local dst ?S = Some w" "frame_is ?S w"
    using write_frame [OF assms(3), of ?S] cl B by auto
  obtain d k d' where m:
    "moh_read_step io (moh_open_step io (drop 4 (the (b_silence_policy b))) b) (unat (b_samples_per_frame b)) dst = Some (d, k)"
    "(if k < unat (b_samples_per_frame b) then silence_fill io (moh_open_step io (drop 4 (the (b_silence_policy b))) b) d else Some d) = Some d'"
    "frame_is (moh_bytes io b) d'" "length (moh_bytes io b) = unat (b_bytes_per_frame b)"
    using moh_policy_ok [OF assms refl] by blast
  show ?thesis
    using z w cl zl m by (simp add: b_apply_silence_policy_def policy_bytes_def policy_state_def Let_def)
qed

section \<open>Which source a tick uses\<close>

text \<open>What the sources read of the broadcast; the parts of a tick before them leave it alone.\<close>

definition source_same :: "broadcast_obj \<Rightarrow> broadcast_obj \<Rightarrow> bool" where
  "source_same b b' \<longleftrightarrow> prod_same b b' \<and> b_silence_policy b' = b_silence_policy b \<and> b_profile b' = b_profile b
     \<and> b_rate b' = b_rate b \<and> b_moh_open b' = b_moh_open b \<and> b_moh_fh b' = b_moh_fh b
     \<and> b_current_speaker b' = b_current_speaker b
     \<and> has_flag (b_cflags b') BFLAG_PAUSE = has_flag (b_cflags b) BFLAG_PAUSE"

lemma policy_bytes_cong:
  assumes "source_same b b'"
  shows "policy_bytes io b' = policy_bytes io b"
proof -
  have z: "zero_bytes io b' = zero_bytes io b" using assms by (cases "b_silence_zero_buf b") (simp_all add: zero_bytes_def source_same_def prod_same_def)
  have "b_moh_open (moh_open_step io p b') = b_moh_open (moh_open_step io p b)"
    "b_moh_fh (moh_open_step io p b') = b_moh_fh (moh_open_step io p b)" for p
    using assms by (simp_all add: moh_open_step_def source_same_def prod_same_def split: option.splits)
  moreover have s: "b_samples_per_frame b' = b_samples_per_frame b" "b_silence_policy b' = b_silence_policy b"
    "b_profile b' = b_profile b" "b_rate b' = b_rate b" "b_channels b' = b_channels b"
    using assms by (simp_all add: source_same_def prod_same_def)
  ultimately have "moh_bytes io b' = moh_bytes io b" unfolding moh_bytes_def Let_def by (simp only: z)
  then show ?thesis unfolding policy_bytes_def Let_def by (simp only: z s)
qed

lemma tick_drift_source [simp]: "source_same b (tick_drift cpy io b)"
  by (auto simp: tick_drift_def Let_def source_same_def prod_same_def broadcast_enqueue_event_def split: option.splits)

definition played_bytes :: "tick_io \<Rightarrow> broadcast_obj \<Rightarrow> u8 list option" where
  "played_bytes io b =
     (case (has_flag (b_cflags b) BFLAG_PLAY_FILE, b_play_fh b) of
        (True, Some fh) \<Rightarrow>
          (case ti_file_read io fh (unat (b_samples_per_frame b)) of
             (st, k, bs) \<Rightarrow> if st = ST_SUCCESS \<and> k = unat (b_samples_per_frame b) then Some bs else None)
      | _ \<Rightarrow> None)"

definition played_on :: "tick_io \<Rightarrow> broadcast_obj \<Rightarrow> broadcast_obj" where
  "played_on io b =
     (if has_flag (b_cflags b) BFLAG_PLAY_FILE \<and> b_play_fh b \<noteq> None \<and> played_bytes io b = None
      then b\<lparr>b_play_fh := None, b_cflags := clr_flag (b_cflags b) BFLAG_PLAY_FILE\<rparr> else b)"

lemma played_on_source [simp]: "source_same b (played_on io b)"
  by (simp add: played_on_def source_same_def prod_same_def flag_simps)

lemma unat_frame_u32: "geom_ok b \<Longrightarrow> n = unat (b_bytes_per_frame b) \<Longrightarrow> (of_nat n :: u32) = b_bytes_per_frame b"
  by simp

lemma tick_play_ok:
  assumes "tick_io_ok (b_channels b) io" "geom_ok b" "length local = BROADCAST_MAX_FRAME_BYTES"
  shows "\<exists>local'. tick_play io b local = Some (played_on io b, local',
      if played_bytes io b = None then 0 else b_bytes_per_frame b, if played_bytes io b = None then 1 else 0)
    \<and> length local' = BROADCAST_MAX_FRAME_BYTES
    \<and> (\<forall>bs. played_bytes io b = Some bs \<longrightarrow> frame_is bs local' \<and> length bs = unat (b_bytes_per_frame b))"
proof (cases "has_flag (b_cflags b) BFLAG_PLAY_FILE \<and> b_play_fh b \<noteq> None")
  case False
  then have "played_bytes io b = None" "tick_play io b local = Some (b, local, 0, 1)"
    by (auto simp: played_bytes_def tick_play_def split: option.splits bool.splits)
  with False assms(3) show ?thesis by (auto simp: played_on_def)
next
  case True
  then obtain fh where fh: "b_play_fh b = Some fh" by blast
  obtain st k bs where rd: "ti_file_read io fh (unat (b_samples_per_frame b)) = (st, k, bs)" by (metis surj_pair)
  note r = io_file_read [OF assms(1) rd]
  have "length bs \<le> BROADCAST_MAX_FRAME_BYTES"
    using samples_bytes_le [OF assms(2) r(1)] r(2) frame_bytes(3) [OF assms(2)]
    unfolding BROADCAST_MAX_FRAME_BYTES_def by linarith
  then obtain l where l: "write_local local bs = Some l" "frame_is bs l" using write_frame [OF assms(3)] by blast
  have n: "unat (b_samples_per_frame b) * 2 * unat (b_channels b) = unat (b_bytes_per_frame b)"
    by (rule frame_bytes [OF assms(2)])
  have len: "length l = BROADCAST_MAX_FRAME_BYTES" using l(2) by (simp add: frame_is_def)
  have pb: "played_bytes io b = (if st = ST_SUCCESS \<and> k = unat (b_samples_per_frame b) then Some bs else None)"
    using True fh rd by (simp add: played_bytes_def)
  show ?thesis
  proof (cases "st = ST_SUCCESS \<and> k = unat (b_samples_per_frame b)")
    case good: True
    have "tick_play io b local = Some (b, l, b_bytes_per_frame b, 0)"
      using True fh rd l good unat_frame_u32 [OF assms(2) n] by (simp add: tick_play_def)
    moreover have "length bs = unat (b_bytes_per_frame b)" using r(2) good n by simp
    ultimately show ?thesis using good pb l(2) len True by (simp add: played_on_def)
  next
    case bad: False
    have "tick_play io b local = Some (b\<lparr>b_play_fh := None, b_cflags := clr_flag (b_cflags b) BFLAG_PLAY_FILE\<rparr>, l, 0, 1)"
    proof -
      have f: "has_flag (b_cflags b) BFLAG_PLAY_FILE = True" using True by simp
      show ?thesis
        by (simp only: tick_play_def f fh rd l(1) Let_def prod.case bool.case option.case Option.bind.simps if_not_P [OF bad])
    qed
    moreover have none: "played_bytes io b = None" unfolding pb by (rule if_not_P [OF bad])
    moreover have "played_on io b = b\<lparr>b_play_fh := None, b_cflags := clr_flag (b_cflags b) BFLAG_PLAY_FILE\<rparr>"
      unfolding played_on_def using True none by (simp only: simp_thms if_True)
    ultimately show ?thesis using len by (intro exI [of _ l]) simp
  qed
qed

text \<open>The speaker's part: the bytes it gives, and its buffer afterwards.\<close>

definition spoken_bytes :: "tick_io \<Rightarrow> room \<Rightarrow> u8 list option" where
  "spoken_bytes io r =
     (case b_current_speaker (rm_b r) of None \<Rightarrow> None | Some a \<Rightarrow>
        (case rm_heap r a of None \<Rightarrow> None | Some spk \<Rightarrow>
           (case (m_audio_buffer spk, m_audio_in_mutex spk) of
              (Some buf, True) \<Rightarrow>
                if has_flag (m_mflags spk) MFLAG_MUTED_SPEAKER \<or> length buf < unat (b_bytes_per_frame (rm_b r)) then None
                else let s = take (unat (b_bytes_per_frame (rm_b r))) buf
                     in Some (if m_vol_idx spk = 0 then s else ti_volume io (m_vol_idx spk) s)
            | _ \<Rightarrow> None)))"

definition spoken_heap :: "room \<Rightarrow> mheap" where
  "spoken_heap r =
     (case b_current_speaker (rm_b r) of None \<Rightarrow> rm_heap r | Some a \<Rightarrow>
        (case rm_heap r a of None \<Rightarrow> rm_heap r | Some spk \<Rightarrow>
           (case (m_audio_buffer spk, m_audio_in_mutex spk) of
              (Some buf, True) \<Rightarrow>
                (rm_heap r)(a \<mapsto> spk\<lparr>m_audio_buffer := Some (if has_flag (m_mflags spk) MFLAG_MUTED_SPEAKER then []
                    else drop (unat (b_bytes_per_frame (rm_b r))) buf)\<rparr>)
            | _ \<Rightarrow> rm_heap r)))"

lemma spoken_heap_live: "(spoken_heap r x = None) = (rm_heap r x = None)"
  by (auto simp: spoken_heap_def split: option.splits bool.splits)

lemma even_frame: "geom_ok b \<Longrightarrow> 2 * unat (b_bytes_per_frame b div 2) = unat (b_bytes_per_frame b)"
proof -
  assume "geom_ok b"
  then have "unat (b_bytes_per_frame b) = unat (b_samples_per_frame b) * unat (b_channels b) * 2"
    unfolding geom_ok_def by blast
  moreover have "unat (b_bytes_per_frame b div 2) = unat (b_bytes_per_frame b) div 2" by (simp add: unat_div)
  ultimately show ?thesis by simp
qed

lemma volume_frame:
  assumes "tick_io_ok (b_channels b) io" "geom_ok b" "frame_is s local" "length s = unat (b_bytes_per_frame b)"
  shows "\<exists>l. volume_apply io local (unat (b_bytes_per_frame b div 2)) v = Some l \<and> frame_is (ti_volume io v s) l"
proof -
  have e: "2 * unat (b_bytes_per_frame b div 2) = unat (b_bytes_per_frame b)" by (rule even_frame [OF assms(2)])
  have B: "unat (b_bytes_per_frame b) \<le> BROADCAST_MAX_FRAME_BYTES" using assms(2) unfolding geom_ok_def by blast
  have l: "length local = BROADCAST_MAX_FRAME_BYTES" "take (unat (b_bytes_per_frame b)) local = s"
    using assms(3,4) by (simp_all add: frame_is_def)
  have "length (ti_volume io v s) \<le> BROADCAST_MAX_FRAME_BYTES" using io_volume [OF assms(1)] assms(4) B by simp
  from write_frame [OF l(1) this] show ?thesis by (simp add: volume_apply_def e l B)
qed

lemma speaker_read_ok:
  assumes "tick_io_ok (b_channels b) io" "geom_ok b" "length local = BROADCAST_MAX_FRAME_BYTES" "s = 1"
  defines "n \<equiv> unat (b_bytes_per_frame b)"
  shows "\<exists>local'. speaker_read io b spk buf local 0 s =
      Some (spk\<lparr>m_audio_buffer := Some (drop n buf)\<rparr>, local', if length buf < n then 0 else b_bytes_per_frame b, if length buf < n then 1 else 0)
    \<and> length local' = BROADCAST_MAX_FRAME_BYTES
    \<and> (n \<le> length buf \<longrightarrow> frame_is (if m_vol_idx spk = 0 then take n buf else ti_volume io (m_vol_idx spk) (take n buf)) local')"
proof -
  obtain got rest where rd: "ti_buffer_read io buf n = (got, rest)" by (metis surj_pair)
  note r = io_buffer_read [OF assms(1) rd]
  have B: "n \<le> BROADCAST_MAX_FRAME_BYTES" using assms(2) unfolding geom_ok_def n_def by blast
  have gl: "length got \<le> BROADCAST_MAX_FRAME_BYTES" using r(2) B by simp
  obtain l where l: "write_local local got = Some l" "frame_is got l" using write_frame [OF assms(3) gl] by blast
  have len: "length l = BROADCAST_MAX_FRAME_BYTES" using l(2) by (simp add: frame_is_def)
  show ?thesis
  proof (cases "length buf < n")
    case True
    then have "length got \<noteq> n" using r(2) by simp
    then have "speaker_read io b spk buf local 0 s = Some (spk\<lparr>m_audio_buffer := Some rest\<rparr>, l, 0, s)"
      using rd l(1) by (simp add: speaker_read_def n_def)
    with True r(4) len assms(4) show ?thesis by (intro exI [of _ l]) simp
  next
    case False
    then have gn: "length got = unat (b_bytes_per_frame b)" using r(2) by (simp add: n_def)
    have fu: "(of_nat (length got) :: u32) = b_bytes_per_frame b" by (simp add: gn)
    obtain v where v: "volume_apply io l (unat (b_bytes_per_frame b div 2)) (m_vol_idx spk) = Some v"
      "frame_is (ti_volume io (m_vol_idx spk) got) v" using volume_frame [OF assms(1,2) l(2) gn] by blast
    have lv: "length v = BROADCAST_MAX_FRAME_BYTES" using v(2) by (simp add: frame_is_def)
    have "speaker_read io b spk buf local 0 s = Some (spk\<lparr>m_audio_buffer := Some rest\<rparr>,
        if m_vol_idx spk = 0 then l else v, b_bytes_per_frame b, 0)"
      using rd l(1) v(1) gn fu by (simp add: speaker_read_def n_def)
    with False r(3,4) len lv l(2) v(2) show ?thesis by (intro exI [of _ "if m_vol_idx spk = 0 then l else v"]) simp
  qed
qed

lemma tick_speaker_ok:
  assumes "tick_io_ok (b_channels (rm_b r)) io" "geom_ok (rm_b r)" "speaker_live r" "length local = BROADCAST_MAX_FRAME_BYTES"
    "\<not> has_flag cf BFLAG_PAUSE"
  shows "\<exists>local'. tick_speaker io cf r local 0 1 = Some (r\<lparr>rm_heap := spoken_heap r\<rparr>, local',
      if spoken_bytes io r = None then 0 else b_bytes_per_frame (rm_b r), if spoken_bytes io r = None then 1 else 0)
    \<and> length local' = BROADCAST_MAX_FRAME_BYTES
    \<and> (\<forall>bs. spoken_bytes io r = Some bs \<longrightarrow> frame_is bs local' \<and> length bs = unat (b_bytes_per_frame (rm_b r)))"
proof (cases "b_current_speaker (rm_b r)")
  case None
  with assms(4) show ?thesis by (simp add: tick_speaker_def spoken_bytes_def spoken_heap_def)
next
  case (Some a)
  with assms(3) obtain spk where spk: "rm_heap r a = Some spk" by (auto simp: speaker_live_def)
  show ?thesis
  proof (cases "m_audio_buffer spk")
    case None
    with Some spk assms(4,5) show ?thesis by (simp add: tick_speaker_def spoken_bytes_def spoken_heap_def)
  next
    case buf: (Some buf)
    from speaker_read_ok [OF assms(1,2,4) refl, of spk buf] obtain l where
      l: "speaker_read io (rm_b r) spk buf local 0 1 =
        Some (spk\<lparr>m_audio_buffer := Some (drop (unat (b_bytes_per_frame (rm_b r))) buf)\<rparr>, l,
          if length buf < unat (b_bytes_per_frame (rm_b r)) then 0 else b_bytes_per_frame (rm_b r),
          if length buf < unat (b_bytes_per_frame (rm_b r)) then 1 else 0)"
      "length l = BROADCAST_MAX_FRAME_BYTES"
      "unat (b_bytes_per_frame (rm_b r)) \<le> length buf \<longrightarrow> frame_is (if m_vol_idx spk = 0 then take (unat (b_bytes_per_frame (rm_b r))) buf
         else ti_volume io (m_vol_idx spk) (take (unat (b_bytes_per_frame (rm_b r))) buf)) l" by blast
    show ?thesis
      using Some spk buf l assms(4,5) io_volume [OF assms(1)]
      by (cases "m_audio_in_mutex spk"; cases "has_flag (m_mflags spk) MFLAG_MUTED_SPEAKER")
        (simp_all add: tick_speaker_def spoken_bytes_def spoken_heap_def Let_def)
  qed
qed

section \<open>The tick as a whole\<close>

text \<open>
  The reference: pause wins over everything, a playing file over the speaker, the speaker over
  silence. \<open>None\<close> stands for the silence policy.
\<close>

definition tick_source :: "tick_io \<Rightarrow> room \<Rightarrow> u8 list option" where
  "tick_source io r =
     (if has_flag (b_cflags (rm_b r)) BFLAG_PAUSE then None
      else case played_bytes io (rm_b r) of Some bs \<Rightarrow> Some bs | None \<Rightarrow> spoken_bytes io r)"

definition tick_heap :: "tick_io \<Rightarrow> room \<Rightarrow> mheap" where
  "tick_heap io r =
     (if has_flag (b_cflags (rm_b r)) BFLAG_PAUSE \<or> played_bytes io (rm_b r) \<noteq> None then rm_heap r else spoken_heap r)"

definition tick_payload :: "tick_io \<Rightarrow> room \<Rightarrow> u8 list" where
  "tick_payload io r = (case tick_source io r of Some bs \<Rightarrow> bs | None \<Rightarrow> policy_bytes io (rm_b r))"

lemma played_cong: "b_samples_per_frame b' = b_samples_per_frame b \<Longrightarrow> b_cflags b' = b_cflags b \<Longrightarrow> b_play_fh b' = b_play_fh b
    \<Longrightarrow> played_bytes io b' = played_bytes io b"
  unfolding played_bytes_def by (simp cong: option.case_cong bool.case_cong prod.case_cong)

lemma spoken_cong:
  assumes "b_current_speaker b' = b_current_speaker (rm_b r)" "b_bytes_per_frame b' = b_bytes_per_frame (rm_b r)"
  shows "spoken_bytes io (r\<lparr>rm_b := b'\<rparr>) = spoken_bytes io r" "spoken_heap (r\<lparr>rm_b := b'\<rparr>) = spoken_heap r"
  using assms unfolding spoken_bytes_def spoken_heap_def
  by (simp_all cong: option.case_cong bool.case_cong prod.case_cong if_cong)

lemma policy_state_props [simp]:
  "prod_same b (policy_state io b)" "b_current_speaker (policy_state io b) = b_current_speaker b"
  by (fact policy_state_same)+

text \<open>The three sources in sequence.\<close>

lemma tick_sources_ok:
  assumes "tick_io_ok (b_channels (rm_b r)) io" "geom_ok (rm_b r)" "speaker_live r" "length local = BROADCAST_MAX_FRAME_BYTES"
    and b1: "b1 = tick_drift cpy io (rm_b r)"
  shows "\<exists>l1 dl s r2 l2 dl2 s2. tick_play io b1 local = Some (played_on io b1, l1, dl, s)
    \<and> tick_speaker io (b_cflags (played_on io b1)) (r\<lparr>rm_b := played_on io b1\<rparr>) l1 dl s = Some (r2, l2, dl2, s2)
    \<and> rm_b r2 = played_on io b1 \<and> rm_heap r2 = tick_heap io r \<and> rm_served r2 = rm_served r \<and> length l2 = BROADCAST_MAX_FRAME_BYTES
    \<and> (s2 \<noteq> 0 \<or> has_flag (b_cflags (played_on io b1)) BFLAG_PAUSE \<longleftrightarrow> tick_source io r = None)
    \<and> (\<forall>bs. tick_source io r = Some bs \<longrightarrow> s2 = 0 \<and> dl2 = b_bytes_per_frame (rm_b r) \<and> frame_is bs l2
         \<and> length bs = unat (b_bytes_per_frame (rm_b r)))"
proof -
  have ss: "source_same (rm_b r) b1" by (simp add: b1)
  then have ps: "prod_same (rm_b r) b1" by (simp add: source_same_def)
  then have ok: "tick_io_ok (b_channels b1) io" "geom_ok b1" "b_bytes_per_frame b1 = b_bytes_per_frame (rm_b r)"
    using assms(1,2) prod_same_geom [OF ps] by (simp_all add: prod_same_def)
  have pl: "played_bytes io b1 = played_bytes io (rm_b r)"
    using ps by (intro played_cong) (simp_all add: b1 prod_same_def)
  let ?b2 = "played_on io b1"
  have ss2: "source_same b1 ?b2" by simp
  then have b2: "tick_io_ok (b_channels ?b2) io" "geom_ok ?b2" "b_bytes_per_frame ?b2 = b_bytes_per_frame (rm_b r)"
    "b_current_speaker ?b2 = b_current_speaker (rm_b r)"
    "has_flag (b_cflags ?b2) BFLAG_PAUSE = has_flag (b_cflags (rm_b r)) BFLAG_PAUSE"
    using ok ss prod_same_geom [of b1 ?b2] by (simp_all add: source_same_def prod_same_def)
  let ?r = "r\<lparr>rm_b := ?b2\<rparr>"
  from tick_play_ok [OF ok(1,2) assms(4)] obtain l1 where
    p: "tick_play io b1 local = Some (?b2, l1, if played_bytes io (rm_b r) = None then 0 else b_bytes_per_frame (rm_b r),
          if played_bytes io (rm_b r) = None then 1 else 0)" "length l1 = BROADCAST_MAX_FRAME_BYTES"
    "\<forall>bs. played_bytes io (rm_b r) = Some bs \<longrightarrow> frame_is bs l1 \<and> length bs = unat (b_bytes_per_frame (rm_b r))"
    unfolding pl ok(3) by blast
  have nz: "b_bytes_per_frame (rm_b r) \<noteq> 0" using assms(2) by (auto simp: geom_ok_def)
  show ?thesis
  proof (cases "has_flag (b_cflags (rm_b r)) BFLAG_PAUSE \<or> played_bytes io (rm_b r) \<noteq> None")
    case True
    have sp: "tick_speaker io (b_cflags ?b2) ?r l1 (if played_bytes io (rm_b r) = None then 0 else b_bytes_per_frame (rm_b r))
        (if played_bytes io (rm_b r) = None then 1 else 0)
      = Some (?r, l1, if played_bytes io (rm_b r) = None then 0 else b_bytes_per_frame (rm_b r),
          if played_bytes io (rm_b r) = None then 1 else 0)"
      using True nz b2(5) by (auto simp: tick_speaker_def split: option.splits)
    show ?thesis
      by (intro exI conjI, rule p(1), rule sp) (use True p in \<open>auto simp: b2(5) tick_heap_def tick_source_def\<close>)
  next
    case False
    have lv: "speaker_live ?r" using assms(3) b2(4) by (simp add: speaker_live_def)
    have np: "\<not> has_flag (b_cflags ?b2) BFLAG_PAUSE" using False b2(5) by simp
    from tick_speaker_ok [of ?r, simplified, OF b2(1,2) lv p(2) np] obtain l2 where
      q: "tick_speaker io (b_cflags ?b2) ?r l1 0 1 = Some (?r\<lparr>rm_heap := spoken_heap ?r\<rparr>, l2,
          if spoken_bytes io ?r = None then 0 else b_bytes_per_frame ?b2, if spoken_bytes io ?r = None then 1 else 0)"
      "length l2 = BROADCAST_MAX_FRAME_BYTES"
      "\<forall>bs. spoken_bytes io ?r = Some bs \<longrightarrow> frame_is bs l2 \<and> length bs = unat (b_bytes_per_frame ?b2)"
      by auto
    note c = spoken_cong [OF b2(4,3)]
    have p1: "tick_play io b1 local = Some (?b2, l1, 0, 1)" using p(1) False by simp
    show ?thesis
      by (intro exI conjI, rule p1, rule q(1)) (use False q(2,3) in \<open>auto simp: b2(3,5) c tick_heap_def tick_source_def\<close>)
  qed
qed

lemma frame_fits: "geom_ok b \<Longrightarrow> length local = BROADCAST_MAX_FRAME_BYTES \<Longrightarrow> pub_fits (local, b_bytes_per_frame b, s)"
  by (simp add: pub_fits_def geom_ok_def)

lemma published_payload:
  assumes "frame_is bs local" "length bs = unat (b_bytes_per_frame b)" "carries (local, b_bytes_per_frame b, s) f"
  shows "take (unat (b_bytes_per_frame b)) (rf_data f) = bs"
  using assms by (simp add: carries_def frame_is_def)

lemma publish_frame:
  assumes "ring_hist b h" "geom_ok b" "frame_is bs local" "length bs = unat (b_bytes_per_frame b)" "Suc (length h) < 2 ^ 64"
  shows "\<exists>b' f. ring_publish local (b_bytes_per_frame b) s b = Some b' \<and> ring_hist b' (h @ [f]) \<and> geom_ok b'
    \<and> rf_datalen f = b_bytes_per_frame b \<and> rf_samples f = b_samples_per_frame b \<and> rf_silence f = s
    \<and> take (unat (b_bytes_per_frame b)) (rf_data f) = bs
    \<and> b_current_speaker b' = b_current_speaker b \<and> b_stat_ticks b' = b_stat_ticks b
    \<and> b_channels b' = b_channels b \<and> b_bytes_per_frame b' = b_bytes_per_frame b \<and> b_samples_per_frame b' = b_samples_per_frame b"
proof -
  let ?p = "(local, b_bytes_per_frame b, s)"
  have fits: "pub_fits ?p" using assms(2,3) by (intro frame_fits) (simp_all add: frame_is_def)
  obtain b' where b': "pub_step ?p b = Some b'" "ring_hist b' (h @ [published ?p b])"
    using ring_publish_hist [OF assms(1) fits assms(5)] by blast
  have c: "carries ?p (published ?p b)" by (rule published_carries [OF fits])
  have e: "b' = b\<lparr>b_ring := (b_ring b)[length h mod ring_len b := published ?p b], b_producer_seq := b_producer_seq b + 1\<rparr>"
    using ring_publish_result [OF assms(1) fits] b'(1) by (simp add: pub_step_def)
  have g: "geom_ok b'" using assms(2) by (auto simp: e geom_ok_def)
  show ?thesis
    using b' c g published_payload [OF assms(3,4) c]
    by (intro exI [of _ b'] exI [of _ "published ?p b"]) (simp add: e pub_step_def carries_def published_def)
qed

lemma producer_tick_ok:
  assumes "ring_hist (rm_b r) h" "geom_ok (rm_b r)" "speaker_live r" "tick_io_ok (b_channels (rm_b r)) io"
    "length local = BROADCAST_MAX_FRAME_BYTES" "Suc (length h) < 2 ^ 64"
  shows "\<exists>r' local' f. producer_tick cpy io (r, local) = Some (r', local')
    \<and> ring_hist (rm_b r') (h @ [f]) \<and> geom_ok (rm_b r') \<and> speaker_live r' \<and> length local' = BROADCAST_MAX_FRAME_BYTES
    \<and> b_channels (rm_b r') = b_channels (rm_b r) \<and> b_bytes_per_frame (rm_b r') = b_bytes_per_frame (rm_b r)
    \<and> rf_datalen f = b_bytes_per_frame (rm_b r) \<and> rf_samples f = b_samples_per_frame (rm_b r)
    \<and> rf_silence f = (if tick_source io r = None then 1 else 0)
    \<and> take (unat (b_bytes_per_frame (rm_b r))) (rf_data f) = tick_payload io r
    \<and> rm_heap r' = tick_heap io r"
proof -
  define b1 where "b1 = tick_drift cpy io (rm_b r)"
  obtain l1 dl s r2 l2 dl2 s2 where
    t: "tick_play io b1 local = Some (played_on io b1, l1, dl, s)"
    "tick_speaker io (b_cflags (played_on io b1)) (r\<lparr>rm_b := played_on io b1\<rparr>) l1 dl s = Some (r2, l2, dl2, s2)"
    "rm_b r2 = played_on io b1" "rm_heap r2 = tick_heap io r" "rm_served r2 = rm_served r" "length l2 = BROADCAST_MAX_FRAME_BYTES"
    "s2 \<noteq> 0 \<or> has_flag (b_cflags (played_on io b1)) BFLAG_PAUSE \<longleftrightarrow> tick_source io r = None"
    "\<forall>bs. tick_source io r = Some bs \<longrightarrow> s2 = 0 \<and> dl2 = b_bytes_per_frame (rm_b r) \<and> frame_is bs l2
       \<and> length bs = unat (b_bytes_per_frame (rm_b r))"
    using tick_sources_ok [OF assms(4,2,3,5) b1_def] by (elim exE conjE) (rule that)
  let ?b2 = "played_on io b1"
  have s1: "source_same (rm_b r) b1" and s2': "source_same b1 ?b2" by (simp_all add: b1_def)
  then have ss: "source_same (rm_b r) ?b2" by (simp add: source_same_def prod_same_def)
  then have ps: "prod_same (rm_b r) ?b2" by (simp add: source_same_def)
  have eq2: "b_bytes_per_frame ?b2 = b_bytes_per_frame (rm_b r)" "b_channels ?b2 = b_channels (rm_b r)"
    "b_samples_per_frame ?b2 = b_samples_per_frame (rm_b r)"
    using ps by (simp_all add: prod_same_def)
  have ok2: "tick_io_ok (b_channels ?b2) io" "geom_ok ?b2" "b_bytes_per_frame ?b2 = b_bytes_per_frame (rm_b r)"
    using eq2 assms(2,4) prod_same_geom [OF ps] by simp_all
  from policy_ok [OF ok2(1,2) t(6)] obtain l3 where
    p: "b_apply_silence_policy io ?b2 l2 = Some (policy_state io ?b2, l3, b_bytes_per_frame (rm_b r))"
    "frame_is (policy_bytes io (rm_b r)) l3" "length (policy_bytes io (rm_b r)) = unat (b_bytes_per_frame (rm_b r))"
    unfolding ok2(3) policy_bytes_cong [OF ss] by blast
  define b3 where "b3 = (if tick_source io r = None then policy_state io ?b2 else ?b2)"
  have ps3: "prod_same (rm_b r) b3" using ps by (auto simp: b3_def intro: prod_same_trans)
  have cs3: "b_current_speaker b3 = b_current_speaker (rm_b r)" using ss by (simp add: b3_def source_same_def)
  have sil: "\<exists>l4. tick_silence io (b_cflags ?b2) ?b2 l2 dl2 s2 =
      Some (b3, l4, b_bytes_per_frame (rm_b r), if tick_source io r = None then 1 else 0)
    \<and> frame_is (tick_payload io r) l4 \<and> length (tick_payload io r) = unat (b_bytes_per_frame (rm_b r))"
  proof (cases "tick_source io r")
    case None
    with t(7) p show ?thesis by (auto simp: tick_silence_def b3_def tick_payload_def)
  next
    case (Some bs)
    with t(7) have "\<not> (s2 \<noteq> 0 \<or> has_flag (b_cflags ?b2) BFLAG_PAUSE)" by simp
    then have "tick_silence io (b_cflags ?b2) ?b2 l2 dl2 s2 = Some (?b2, l2, dl2, s2)"
      unfolding tick_silence_def by (rule if_not_P)
    with Some t(8) show ?thesis by (auto simp: b3_def tick_payload_def)
  qed
  then obtain l4 where l4: "tick_silence io (b_cflags ?b2) ?b2 l2 dl2 s2 =
      Some (b3, l4, b_bytes_per_frame (rm_b r), if tick_source io r = None then 1 else 0)"
    "frame_is (tick_payload io r) l4" "length (tick_payload io r) = unat (b_bytes_per_frame (rm_b r))" by blast
  have ok3: "ring_hist b3 h" "geom_ok b3" "b_bytes_per_frame b3 = b_bytes_per_frame (rm_b r)"
    "b_channels b3 = b_channels (rm_b r)" "b_samples_per_frame b3 = b_samples_per_frame (rm_b r)"
    using prod_same_ring [OF ps3] prod_same_geom [OF ps3] assms(1,2) ps3 by (simp_all add: prod_same_def)
  have l4': "length (tick_payload io r) = unat (b_bytes_per_frame b3)" using l4(3) ok3(3) by simp
  obtain b4 f where
    f: "ring_publish l4 (b_bytes_per_frame (rm_b r)) (if tick_source io r = None then 1 else 0) b3 = Some b4"
    "ring_hist b4 (h @ [f])" "geom_ok b4" "rf_datalen f = b_bytes_per_frame (rm_b r)" "rf_samples f = b_samples_per_frame (rm_b r)"
    "rf_silence f = (if tick_source io r = None then 1 else 0)"
    "take (unat (b_bytes_per_frame (rm_b r))) (rf_data f) = tick_payload io r"
    "b_current_speaker b4 = b_current_speaker b3" "b_stat_ticks b4 = b_stat_ticks b3" "b_channels b4 = b_channels (rm_b r)" "b_bytes_per_frame b4 = b_bytes_per_frame (rm_b r)"
    "b_samples_per_frame b4 = b_samples_per_frame (rm_b r)"
    using publish_frame [OF ok3(1,2) l4(2) l4' assms(6), of "if tick_source io r = None then 1 else 0"] unfolding ok3(3,4,5) by (elim exE conjE) (rule that)
  let ?r' = "r2\<lparr>rm_b := tick_stats io (if tick_source io r = None then 1 else 0) b4\<rparr>"
  have run: "producer_tick cpy io (r, local) = Some (?r', l4)"
    by (simp only: producer_tick_def prod.case Let_def b1_def [symmetric] t(1,2,3) l4(1) f(1) Option.bind.simps)
  have ps4: "prod_same b4 (rm_b ?r')" by simp
  have "(rm_heap r2 x = None) = (rm_heap r x = None)" for x
    by (simp add: t(4) tick_heap_def spoken_heap_live del: not_None_eq)
  then have "speaker_live ?r'"
    using assms(3) f(8) cs3 by (simp add: speaker_live_def del: not_None_eq)
  moreover have "length l4 = BROADCAST_MAX_FRAME_BYTES" using l4(2) by (simp add: frame_is_def)
  moreover have "b_channels (rm_b ?r') = b_channels (rm_b r)" "b_bytes_per_frame (rm_b ?r') = b_bytes_per_frame (rm_b r)"
    using ps4 f(10,11) by (simp_all add: prod_same_def)
  ultimately show ?thesis
    using run f(2-7) prod_same_ring [OF ps4] prod_same_geom [OF ps4] t(4)
    by (intro exI [of _ ?r'] exI [of _ l4] exI [of _ f]) simp
qed

section \<open>The thread\<close>

text \<open>
  What the other threads may do while the producer waits for its timer: anything to the rest of the
  state, as long as they leave the producer's own fields alone and keep the speaker pointer valid.
\<close>

definition others_ok :: "(room \<Rightarrow> room) \<Rightarrow> bool" where
  "others_ok g \<longleftrightarrow> (\<forall>r. prod_same (rm_b r) (rm_b (g r)) \<and> (speaker_live r \<longrightarrow> speaker_live (g r)))"

fun ticks_ok :: "u8 \<Rightarrow> (tick_io \<times> (room \<Rightarrow> room)) list \<Rightarrow> bool" where
  "ticks_ok ch [] = True"
| "ticks_ok ch ((io, g) # ts) = (tick_io_ok ch io \<and> others_ok g \<and> ticks_ok ch ts)"

lemma producer_loop_ok:
  "ring_hist (rm_b r) h \<Longrightarrow> geom_ok (rm_b r) \<Longrightarrow> speaker_live r \<Longrightarrow> length local = BROADCAST_MAX_FRAME_BYTES \<Longrightarrow>
   ticks_ok (b_channels (rm_b r)) ts \<Longrightarrow> length h + length ts < 2 ^ 64 - 1 \<Longrightarrow>
   \<exists>r' local' h'. producer_loop cpy ts (r, local) = Some (r', local') \<and> ring_hist (rm_b r') (h @ h')
     \<and> length h' \<le> length ts \<and> (b_producer_running (rm_b r') \<longrightarrow> length h' = length ts)
     \<and> (\<forall>f \<in> set h'. rf_datalen f = b_bytes_per_frame (rm_b r) \<and> rf_silence f \<in> {0, 1})"
proof (induction ts arbitrary: r local h)
  case Nil
  then show ?case by (auto intro!: exI [of _ "[]"])
next
  case (Cons t ts)
  obtain io g where t: "t = (io, g)" by (cases t)
  show ?case
  proof (cases "b_producer_running (rm_b r) \<and> \<not> b_destroyed (rm_b r)")
    case False
    have "ring_hist ((rm_b r)\<lparr>b_producer_running := False\<rparr>) h" using Cons.prems(1) by (simp add: ring_hist_def)
    moreover have "producer_loop cpy (t # ts) (r, local) = Some (r\<lparr>rm_b := (rm_b r)\<lparr>b_producer_running := False\<rparr>\<rparr>, local)"
      unfolding t producer_loop.simps by (rule if_not_P [OF False])
    ultimately show ?thesis by (intro exI [of _ "[]"] exI conjI) auto
  next
    case True
    have g: "tick_io_ok (b_channels (rm_b r)) io" "others_ok g" "ticks_ok (b_channels (rm_b r)) ts"
      using Cons.prems(5) by (simp_all add: t)
    have ps: "prod_same (rm_b r) (rm_b (g r))" using g(2) by (simp add: others_ok_def)
    have lv: "speaker_live (g r)" using g(2) Cons.prems(3) by (simp add: others_ok_def)
    have ch: "b_channels (rm_b (g r)) = b_channels (rm_b r)" "b_bytes_per_frame (rm_b (g r)) = b_bytes_per_frame (rm_b r)"
      using ps by (simp_all add: prod_same_def)
    have rg: "ring_hist (rm_b (g r)) h" "geom_ok (rm_b (g r))" "tick_io_ok (b_channels (rm_b (g r))) io"
      using Cons.prems(1,2) prod_same_ring [OF ps] prod_same_geom [OF ps] g(1) ch by simp_all
    have "Suc (length h) < 2 ^ 64" using Cons.prems(6) by simp
    from producer_tick_ok [OF rg(1,2) lv rg(3) Cons.prems(4) this, of cpy] obtain r1 l1 f where
      s: "producer_tick cpy io (g r, local) = Some (r1, l1)" "ring_hist (rm_b r1) (h @ [f])" "geom_ok (rm_b r1)"
      "speaker_live r1" "length l1 = BROADCAST_MAX_FRAME_BYTES" "b_channels (rm_b r1) = b_channels (rm_b r)"
      "b_bytes_per_frame (rm_b r1) = b_bytes_per_frame (rm_b r)" "rf_datalen f = b_bytes_per_frame (rm_b r)"
      "rf_silence f \<in> {0, 1}"
      unfolding ch by auto
    have tk: "ticks_ok (b_channels (rm_b r1)) ts" using g(3) s(6) by simp
    have "length (h @ [f]) + length ts < 2 ^ 64 - 1" using Cons.prems(6) by simp
    from Cons.IH [OF s(2,3,4,5) tk this] obtain r' l' h' where
      q: "producer_loop cpy ts (r1, l1) = Some (r', l')" "ring_hist (rm_b r') ((h @ [f]) @ h')" "length h' \<le> length ts"
      "b_producer_running (rm_b r') \<longrightarrow> length h' = length ts"
      "\<forall>f \<in> set h'. rf_datalen f = b_bytes_per_frame (rm_b r) \<and> rf_silence f \<in> {0, 1}"
      unfolding s(7) by blast
    have "producer_loop cpy (t # ts) (r, local) = Some (r', l')"
      using s(1) q(1) True by (simp add: t)
    with q s(8,9) show ?thesis by (intro exI [of _ r'] exI [of _ l'] exI [of _ "f # h'"]) simp
  qed
qed

section \<open>An example\<close>

text \<open>A core that reads silence from files, fills with zeros and cuts buffers.\<close>

definition quiet_io :: tick_io where
  "quiet_io = \<lparr>ti_now = 1000, ti_evt_now = 1000, ti_work_start = 1000, ti_work_end = 1100,
     ti_file_read = (\<lambda>fh n. (ST_FALSE, 0, [])), ti_file_open = (\<lambda>path ch rate. None),
     ti_moh_read = (\<lambda>i fh n. (ST_FALSE, 0, [])),
     ti_silence = (\<lambda>spf ch d. replicate (unat spf * unat ch * 2) 0), ti_volume = (\<lambda>v bs. bs),
     ti_buffer_read = (\<lambda>buf n. (take n buf, drop n buf))\<rparr>"

lemma quiet_io_ok: "tick_io_ok ch quiet_io"
proof -
  have "unat ch < 2 ^ 32" using unat_bound [of ch] by simp
  then have "unat (ucast ch :: u32) = unat ch" by (simp add: unsigned_ucast_eq take_bit_nat_eq_self)
  then show ?thesis by (auto simp: tick_io_ok_def quiet_io_def)
qed

text \<open>A narrow-band mono broadcast on the example ring, with a speaker whose buffer holds one frame.\<close>

definition studio :: room where
  "studio = \<lparr>rm_b = four_slots\<lparr>b_rate := 8000, b_interval_ms := 20, b_bytes_per_frame := 320, b_channels := 1,
       b_profile := Some zero_profile, b_producer_running := True, b_current_speaker := Some 1\<rparr>,
     rm_heap = [1 \<mapsto> (zero_member ''aa'')\<lparr>m_audio_buffer := Some (replicate 320 5), m_audio_in_mutex := True\<rparr>],
     rm_served = 0\<rparr>"

lemma studio_ring: "ring_hist (rm_b studio) []"
  using four_slots_hist by (simp add: ring_hist_def studio_def)

lemma studio_geom: "geom_ok (rm_b studio)"
  by (simp add: geom_ok_def studio_def four_slots_def zero_broadcast_def BROADCAST_MAX_FRAME_BYTES_def)

lemma studio_live: "speaker_live studio"
  by (simp add: speaker_live_def studio_def)

lemma studio_source: "tick_source quiet_io studio = Some (replicate 320 5)"
  by (simp add: tick_source_def played_bytes_def spoken_bytes_def studio_def four_slots_def zero_broadcast_def
      zero_member_def quiet_io_def flag_simps)

section \<open>Theorems\<close>

text \<open>
  C2. One tick of the producer, from any ring history: it never fails and never leaves its buffers,
  and publishes exactly one frame of \<open>bytes_per_frame\<close> bytes. The source is chosen as the reference
  \<open>tick_source\<close> says (pause over everything, a full frame of the playing file over the speaker, a
  full frame of an unmuted speaker over silence); the silence flag is set exactly on policy frames.
\<close>

theorem producer_tick_frame:
  assumes "ring_hist (rm_b r) h" "geom_ok (rm_b r)" "speaker_live r" "tick_io_ok (b_channels (rm_b r)) io"
    "length local = BROADCAST_MAX_FRAME_BYTES" "Suc (length h) < 2 ^ 64"
  shows "\<exists>r' local' f. producer_tick cpy io (r, local) = Some (r', local')
    \<and> ring_hist (rm_b r') (h @ [f]) \<and> geom_ok (rm_b r') \<and> speaker_live r' \<and> length local' = BROADCAST_MAX_FRAME_BYTES
    \<and> rf_datalen f = b_bytes_per_frame (rm_b r) \<and> rf_samples f = b_samples_per_frame (rm_b r)
    \<and> rf_silence f = (if tick_source io r = None then 1 else 0)
    \<and> take (unat (b_bytes_per_frame (rm_b r))) (rf_data f) =
        (case tick_source io r of Some bs \<Rightarrow> bs | None \<Rightarrow> policy_bytes io (rm_b r))"
  using producer_tick_ok [OF assms, of cpy] unfolding tick_payload_def by blast

theorem producer_tick_frame_witness:
  "\<exists>r' local' f. producer_tick cut_copy quiet_io (studio, replicate BROADCAST_MAX_FRAME_BYTES 0) = Some (r', local')
    \<and> ring_hist (rm_b r') [f] \<and> rf_datalen f = 320 \<and> rf_silence f = 0 \<and> take 320 (rf_data f) = replicate 320 5"
proof -
  have "b_bytes_per_frame (rm_b studio) = 320" by (simp add: studio_def)
  with producer_tick_frame [OF studio_ring studio_geom studio_live quiet_io_ok, of "replicate BROADCAST_MAX_FRAME_BYTES 0" cut_copy]
    studio_source
  show ?thesis by auto
qed

text \<open>
  What the silence policy writes, for every policy string: nothing outside the buffer, exactly
  \<open>bytes_per_frame\<close> bytes, and by policy the zero buffer, comfort noise at the configured level times
  \<open>rate / 8000\<close>, or a full frame of the hold music (rewound once at its end), with zeros whenever
  the music cannot be opened or read.
\<close>

theorem silence_policy_output:
  assumes "tick_io_ok (b_channels b) io" "geom_ok b" "length dst = BROADCAST_MAX_FRAME_BYTES"
  shows "\<exists>dst'. b_apply_silence_policy io b dst = Some (policy_state io b, dst', b_bytes_per_frame b)
    \<and> length dst' = BROADCAST_MAX_FRAME_BYTES
    \<and> take (unat (b_bytes_per_frame b)) dst' = policy_bytes io b
    \<and> length (policy_bytes io b) = unat (b_bytes_per_frame b)"
  using policy_ok [OF assms] unfolding frame_is_def by metis

theorem silence_policy_output_witness:
  "\<exists>dst'. b_apply_silence_policy quiet_io (rm_b studio) (replicate BROADCAST_MAX_FRAME_BYTES 9)
      = Some (policy_state quiet_io (rm_b studio), dst', b_bytes_per_frame (rm_b studio))
    \<and> length dst' = BROADCAST_MAX_FRAME_BYTES
    \<and> take (unat (b_bytes_per_frame (rm_b studio))) dst' = policy_bytes quiet_io (rm_b studio)
    \<and> length (policy_bytes quiet_io (rm_b studio)) = unat (b_bytes_per_frame (rm_b studio))"
  by (rule silence_policy_output [OF quiet_io_ok studio_geom]) simp

text \<open>
  What a tick does to the speaker's audio buffer: a paused tick or one that plays a file leaves it
  alone; a muted speaker is drained; otherwise one frame is taken, and when less than a frame is
  there, the partial data is taken too and does not reach the ring. No other member is touched.
\<close>

theorem speaker_buffer_after_tick:
  assumes "ring_hist (rm_b r) h" "geom_ok (rm_b r)" "speaker_live r" "tick_io_ok (b_channels (rm_b r)) io"
    "length local = BROADCAST_MAX_FRAME_BYTES" "Suc (length h) < 2 ^ 64"
    "b_current_speaker (rm_b r) = Some a" "rm_heap r a = Some spk" "m_audio_buffer spk = Some buf" "m_audio_in_mutex spk"
  shows "\<exists>r' local'. producer_tick cpy io (r, local) = Some (r', local')
    \<and> rm_heap r' = (rm_heap r)(a \<mapsto> spk\<lparr>m_audio_buffer := Some
        (if has_flag (b_cflags (rm_b r)) BFLAG_PAUSE \<or> played_bytes io (rm_b r) \<noteq> None then buf
         else if has_flag (m_mflags spk) MFLAG_MUTED_SPEAKER then []
         else drop (unat (b_bytes_per_frame (rm_b r))) buf)\<rparr>)
    \<and> (length buf < unat (b_bytes_per_frame (rm_b r)) \<and> played_bytes io (rm_b r) = None \<longrightarrow> tick_source io r = None)"
proof -
  from producer_tick_ok [OF assms(1-6), of cpy] obtain r' l where
    r': "producer_tick cpy io (r, local) = Some (r', l)" "rm_heap r' = tick_heap io r" by blast
  have "spk\<lparr>m_audio_buffer := Some buf\<rparr> = spk" using assms(9) by simp
  with r' assms(7-10) show ?thesis
    by (intro exI [of _ r'] exI [of _ l])
      (auto simp: tick_heap_def spoken_heap_def tick_source_def spoken_bytes_def fun_upd_idem)
qed

theorem speaker_buffer_after_tick_witness:
  "\<exists>r' local'. producer_tick cut_copy quiet_io (studio, replicate BROADCAST_MAX_FRAME_BYTES 0) = Some (r', local')
    \<and> (\<exists>m. rm_heap r' 1 = Some m \<and> m_audio_buffer m = Some [])"
proof -
  have s: "b_current_speaker (rm_b studio) = Some 1"
    "rm_heap studio 1 = Some ((zero_member ''aa'')\<lparr>m_audio_buffer := Some (replicate 320 5), m_audio_in_mutex := True\<rparr>)"
    by (simp_all add: studio_def)
  from speaker_buffer_after_tick [OF studio_ring studio_geom studio_live quiet_io_ok _ _ s,
      of "replicate BROADCAST_MAX_FRAME_BYTES 0" "replicate 320 5" cut_copy]
  show ?thesis
    by (auto simp: studio_def four_slots_def zero_broadcast_def played_bytes_def flag_simps)
qed

text \<open>
  C16. The producer thread over any sequence of timer events, with arbitrary activity of the other
  threads in between: no step fails, every executed tick publishes one frame of \<open>bytes_per_frame\<close>
  bytes behind the history, and a thread that is still running has published one for every event.
\<close>

theorem producer_run_history:
  assumes "ring_hist (rm_b r) h" "geom_ok (rm_b r)" "speaker_live r" "length local = BROADCAST_MAX_FRAME_BYTES"
    "ticks_ok (b_channels (rm_b r)) ts" "length h + length ts < 2 ^ 64 - 1"
  shows "\<exists>r' local' h'. broadcast_producer_run cpy timer soft ts (r, local) = Some (r', local')
    \<and> ring_hist (rm_b r') (h @ h') \<and> length h' \<le> length ts
    \<and> (b_producer_running (rm_b r') \<longrightarrow> length h' = length ts)
    \<and> (\<forall>f \<in> set h'. rf_datalen f = b_bytes_per_frame (rm_b r) \<and> rf_silence f \<in> {0, 1})"
proof (cases "timer \<noteq> ST_SUCCESS \<and> soft \<noteq> ST_SUCCESS")
  case True
  have "ring_hist ((rm_b r)\<lparr>b_producer_running := False\<rparr>) h" using assms(1) by (simp add: ring_hist_def)
  with True show ?thesis
    by (intro exI [of _ "r\<lparr>rm_b := (rm_b r)\<lparr>b_producer_running := False\<rparr>\<rparr>"] exI [of _ local] exI [of _ "[]"])
      (simp add: broadcast_producer_run_def)
next
  case False
  then have "broadcast_producer_run cpy timer soft ts (r, local) = producer_loop cpy ts (r, local)"
    unfolding broadcast_producer_run_def prod.case by (rule if_not_P)
  with producer_loop_ok [OF assms, of cpy] show ?thesis by simp
qed

theorem producer_run_history_witness:
  "\<exists>r' local' h'. broadcast_producer_run cut_copy ST_SUCCESS ST_SUCCESS [(quiet_io, \<lambda>r. r), (quiet_io, \<lambda>r. r)]
      (studio, replicate BROADCAST_MAX_FRAME_BYTES 0) = Some (r', local') \<and> ring_hist (rm_b r') h' \<and> length h' \<le> length [(quiet_io, \<lambda>r :: room. r), (quiet_io, \<lambda>r. r)]"
proof -
  have t: "ticks_ok (b_channels (rm_b studio)) [(quiet_io, \<lambda>r. r), (quiet_io, \<lambda>r. r)]"
    by (simp add: quiet_io_ok others_ok_def)
  from producer_run_history [OF studio_ring studio_geom studio_live _ t, of "replicate BROADCAST_MAX_FRAME_BYTES 0" cut_copy ST_SUCCESS ST_SUCCESS]
  show ?thesis by auto
qed

end
