(* ===== verification/Recorder.thy ===== *)
theory Recorder
  imports Frame_Ring Event_Queue
begin

text \<open>
  Recordings (broadcast_record.c): starting and stopping a recording consumer, and its writer thread,
  which copies every frame still in the ring to a file. The recording list is a list, newest first.
\<close>

definition b_guess_rec_type :: "string option \<Rightarrow> brec_type" where
  "b_guess_rec_type target =
     (if zstr target then BREC_TYPE_FILE
      else if has_case_prefix ''shout://'' (the target) then BREC_TYPE_SHOUT
      else BREC_TYPE_FILE)"

section \<open>The writer thread\<close>

text \<open>
  The file receives \<open>samples\<close> samples of the slot's data, two bytes per sample and channel; a
  read beyond the 1920-byte array is \<open>None\<close>.
\<close>

definition slot_bytes :: "u8 \<Rightarrow> ring_frame \<Rightarrow> u8 list option" where
  "slot_bytes ch slot =
     (let n = unat (rf_samples slot) * 2 * unat ch
      in if n \<le> length (rf_data slot) then Some (take n (rf_data slot)) else None)"

text \<open>
  The inner loop, up to the producer position \<open>pseq\<close> read at the timer event; \<open>wr\<close> is the outcome
  of the core's file write for the frame at a position. The flag says that a write failed.
\<close>

function writer_drain :: "copy_string \<Rightarrow> usec \<Rightarrow> (u64 \<Rightarrow> switch_status) \<Rightarrow> u64 \<Rightarrow> broadcast_obj \<Rightarrow> rec_consumer
    \<Rightarrow> (broadcast_obj \<times> rec_consumer \<times> bool) option" where
  "writer_drain cpy now wr pseq b rec =
     (if rc_consumer_seq rec < pseq \<and> rc_running rec then
        (case ring_slot b (rc_consumer_seq rec) of
           None \<Rightarrow> None
         | Some slot \<Rightarrow>
             if rf_seq slot = rc_consumer_seq rec then
               (case slot_bytes (b_channels b) slot of
                  None \<Rightarrow> None
                | Some bytes \<Rightarrow>
                    if wr (rc_consumer_seq rec) \<noteq> ST_SUCCESS then
                      Some (broadcast_enqueue_event cpy now b BEVT_RECORDING_STOP 0 (Some ''write-error''),
                            rec\<lparr>rc_running := False\<rparr>, True)
                    else writer_drain cpy now wr pseq b
                           (rec\<lparr>rc_written := rc_written rec @ [bytes], rc_consumer_seq := rc_consumer_seq rec + 1\<rparr>))
             else writer_drain cpy now wr pseq b (rec\<lparr>rc_consumer_seq := rc_consumer_seq rec + 1\<rparr>))
      else Some (b, rec, False))"
  by pat_completeness auto
termination
  by (relation "measure (\<lambda>(cpy, now, wr, pseq, b, rec). unat pseq - unat (rc_consumer_seq rec))")
    (auto simp: word_less_nat_alt unat_Suc_nowrap)

declare writer_drain.simps [simp del]

text \<open>
  The thread: two attempts to get a timer, then one drain per timer event while it runs and the
  broadcast lives. A list element is what the other threads did while the writer waited, the clock
  and the outcomes of the writes.
\<close>

type_synonym rec_wakeup = "(broadcast_obj \<times> rec_consumer \<Rightarrow> broadcast_obj \<times> rec_consumer) \<times> usec \<times> (u64 \<Rightarrow> switch_status)"

fun writer_loop :: "copy_string \<Rightarrow> rec_wakeup list \<Rightarrow> broadcast_obj \<times> rec_consumer \<Rightarrow> (broadcast_obj \<times> rec_consumer) option" where
  "writer_loop cpy [] s = Some s"
| "writer_loop cpy ((others, now, wr) # ws) (b, rec) =
     (if rc_running rec \<and> \<not> b_destroyed b then
        (let (b, rec) = others (b, rec) in
         (case writer_drain cpy now wr (b_producer_seq b) b rec of
            None \<Rightarrow> None
          | Some (b, rec, failed) \<Rightarrow> if failed then Some (b, rec) else writer_loop cpy ws (b, rec)))
      else Some (b, rec))"

definition broadcast_record_writer_run ::
  "copy_string \<Rightarrow> switch_status \<Rightarrow> switch_status \<Rightarrow> rec_wakeup list \<Rightarrow> broadcast_obj \<Rightarrow> rec_consumer
    \<Rightarrow> (broadcast_obj \<times> rec_consumer) option" where
  "broadcast_record_writer_run cpy timer soft ws b rec =
     (if timer \<noteq> ST_SUCCESS \<and> soft \<noteq> ST_SUCCESS then Some (b, rec\<lparr>rc_running := False\<rparr>)
      else writer_loop cpy ws (b, rec))"

section \<open>Start and stop\<close>

text \<open>
  \<open>broadcast_record_start\<close>: \<open>expand\<close> is the variable expansion of a session, when there is one;
  \<open>pool_ok\<close>, \<open>fopen\<close> and \<open>thread_ok\<close> are the outcomes of the core's pool, file and thread creation.
  The rollback after a failed thread start runs under a second acquisition of the lock:
  \<open>others\<close> is how many recordings other threads have started in between.
\<close>

definition rec_new :: "string \<Rightarrow> broadcast_obj \<Rightarrow> rec_consumer" where
  "rec_new path b =
     \<lparr>rc_target = path, rc_type = b_guess_rec_type (Some path), rc_written = [], rc_consumer_seq = b_producer_seq b,
      rc_writer_thread = False, rc_running = True\<rparr>"

definition rec_link :: "rec_consumer \<Rightarrow> broadcast_obj \<Rightarrow> broadcast_obj" where
  "rec_link rec b = b\<lparr>b_recordings := rec # b_recordings b\<rparr>"

definition rec_rollback :: "nat \<Rightarrow> broadcast_obj \<Rightarrow> broadcast_obj" where
  "rec_rollback others b = b\<lparr>b_recordings := drop (Suc others) (b_recordings b)\<rparr>"

definition broadcast_record_start ::
  "copy_string \<Rightarrow> usec \<Rightarrow> (string \<Rightarrow> string option) option \<Rightarrow> bool \<Rightarrow> (string \<Rightarrow> u8 \<Rightarrow> u32 \<Rightarrow> switch_status) \<Rightarrow> bool
    \<Rightarrow> broadcast_obj \<Rightarrow> string option \<Rightarrow> switch_status \<times> broadcast_obj" where
  "broadcast_record_start cpy now expand pool_ok fopen thread_ok b target =
     (if zstr target then (ST_FALSE, b)
      else
        let path = (case expand of
                      None \<Rightarrow> the target
                    | Some f \<Rightarrow> (case f (the target) of None \<Rightarrow> the target | Some e \<Rightarrow> e))
        in if \<not> pool_ok then (ST_FALSE, b)
           else if fopen path (b_channels b) (b_rate b) \<noteq> ST_SUCCESS then (ST_FALSE, b)
           else
             let rec = rec_new path b; b = rec_link rec b
             in if \<not> thread_ok then (ST_FALSE, rec_rollback 0 b)
                else
                  let b = b\<lparr>b_recordings := (rec\<lparr>rc_writer_thread := True\<rparr>) # tl (b_recordings b),
                            b_cflags := set_flag (b_cflags b) BFLAG_RECORDING\<rparr>
                  in (ST_SUCCESS, broadcast_enqueue_event cpy now b BEVT_RECORDING_START 0 (Some path)))"

definition rec_matches :: "string option \<Rightarrow> rec_consumer \<Rightarrow> bool" where
  "rec_matches target cur = (zstr target \<or> rc_target cur = the target)"

text \<open>The unlink loop of \<open>broadcast_record_stop\<close>: what stays linked, and the stopped ones, last first.\<close>

fun rec_scan :: "string option \<Rightarrow> rec_consumer list \<Rightarrow> rec_consumer list \<Rightarrow> rec_consumer list \<times> rec_consumer list" where
  "rec_scan target [] stopped = ([], stopped)"
| "rec_scan target (cur # rest) stopped =
     (if rec_matches target cur then rec_scan target rest (cur\<lparr>rc_running := False\<rparr> # stopped)
      else let (kept, stopped) = rec_scan target rest stopped in (cur # kept, stopped))"

definition broadcast_record_stop ::
  "copy_string \<Rightarrow> usec \<Rightarrow> broadcast_obj \<Rightarrow> string option \<Rightarrow> switch_status \<times> broadcast_obj \<times> rec_consumer list" where
  "broadcast_record_stop cpy now b target =
     (let (kept, stopped) = rec_scan target (b_recordings b) [];
          b = b\<lparr>b_recordings := kept,
                b_cflags := (if kept = [] then clr_flag (b_cflags b) BFLAG_RECORDING else b_cflags b)\<rparr>;
          b = fold (\<lambda>r b. broadcast_enqueue_event cpy now b BEVT_RECORDING_STOP 0 None) stopped b
      in (if stopped = [] then ST_FALSE else ST_SUCCESS, b, stopped))"

definition broadcast_record_stop_all :: "copy_string \<Rightarrow> usec \<Rightarrow> broadcast_obj \<Rightarrow> broadcast_obj" where
  "broadcast_record_stop_all cpy now b = fst (snd (broadcast_record_stop cpy now b None))"

section \<open>Lemmas\<close>

lemma rec_scan_filter:
  "rec_scan target rs stopped =
    (filter (\<lambda>r. \<not> rec_matches target r) rs,
     rev (map (\<lambda>r. r\<lparr>rc_running := False\<rparr>) (filter (rec_matches target) rs)) @ stopped)"
  by (induction target rs stopped rule: rec_scan.induct) auto

lemma stop_events_frame:
  "b_recordings (fold (\<lambda>r b. broadcast_enqueue_event cpy now b ty mid data) rs b) = b_recordings b"
  "b_cflags (fold (\<lambda>r b. broadcast_enqueue_event cpy now b ty mid data) rs b) = b_cflags b"
  "b_producer_seq (fold (\<lambda>r b. broadcast_enqueue_event cpy now b ty mid data) rs b) = b_producer_seq b"
  "b_destroyed (fold (\<lambda>r b. broadcast_enqueue_event cpy now b ty mid data) rs b) = b_destroyed b"
  by (induction rs arbitrary: b) simp_all

lemma stop_events_destroyed:
  "b_destroyed b \<Longrightarrow> fold (\<lambda>r b. broadcast_enqueue_event cpy now b ty mid data) rs b = b"
  by (induction rs) (simp_all add: broadcast_enqueue_event_def)

text \<open>Frames of the broadcast's own geometry: the samples fit the slot.\<close>

definition frames_fit :: "u8 \<Rightarrow> ring_frame list \<Rightarrow> bool" where
  "frames_fit ch h = (\<forall>f \<in> set h. unat (rf_samples f) * 2 * unat ch \<le> length (rf_data f))"

text \<open>What a drain from position \<open>i\<close> writes: the frames of the history that are still in the ring.\<close>

definition drained :: "broadcast_obj \<Rightarrow> ring_frame list \<Rightarrow> nat \<Rightarrow> u8 list list" where
  "drained b h i = map (\<lambda>j. take (unat (rf_samples (h ! j)) * 2 * unat (b_channels b)) (rf_data (h ! j)))
     [max i (length h - ring_len b)..<length h]"

lemma drained_end: "length h \<le> i \<Longrightarrow> drained b h i = []"
  by (simp add: drained_def)

lemma drained_miss: "i + ring_len b < length h \<Longrightarrow> drained b h i = drained b h (Suc i)"
proof -
  assume "i + ring_len b < length h"
  then have "max i (length h - ring_len b) = max (Suc i) (length h - ring_len b)" by simp
  then show ?thesis by (simp add: drained_def)
qed

lemma drained_hit:
  assumes "i < length h" "length h \<le> i + ring_len b"
  shows "drained b h i = take (unat (rf_samples (h ! i)) * 2 * unat (b_channels b)) (rf_data (h ! i)) # drained b h (Suc i)"
proof -
  have "max i (length h - ring_len b) = i" "max (Suc i) (length h - ring_len b) = Suc i" using assms by auto
  then show ?thesis using assms(1) by (simp add: drained_def upt_rec)
qed

lemma writer_drain_all:
  assumes "ring_hist b h" "frames_fit (b_channels b) h" "\<And>s. wr s = ST_SUCCESS"
  shows "rc_running rec \<Longrightarrow> unat (rc_consumer_seq rec) \<le> length h \<Longrightarrow>
    writer_drain cpy now wr (b_producer_seq b) b rec =
      Some (b, rec\<lparr>rc_written := rc_written rec @ drained b h (unat (rc_consumer_seq rec)),
                   rc_consumer_seq := b_producer_seq b\<rparr>, False)"
proof (induction "length h - unat (rc_consumer_seq rec)" arbitrary: rec)
  case 0
  have hd: "unat (b_producer_seq b) = length h" by (rule mring.head_len [OF assms(1)])
  with 0 have "rc_consumer_seq rec = b_producer_seq b" by (simp add: word_unat_eq_iff)
  with hd show ?case by (subst writer_drain.simps) (simp add: drained_end)
next
  case (Suc n)
  let ?cs = "rc_consumer_seq rec"
  have hd: "unat (b_producer_seq b) = length h" by (rule mring.head_len [OF assms(1)])
  have lt: "unat ?cs < length h" using Suc.hyps(2) by simp
  then have less: "?cs < b_producer_seq b" by (simp add: word_less_nat_alt hd)
  have suc: "unat (?cs + 1) = Suc (unat ?cs)" using lt hd by (intro unat_Suc_nowrap [of _ "b_producer_seq b"]) simp
  note slot = ring_slot_in(1) [OF assms(1), of ?cs]
  note look = ring_lookup_in [OF assms(1), of ?cs]
  show ?case
  proof (cases "length h \<le> unat ?cs + ring_len b")
    case True
    then have "ring_lookup b ?cs = Some (h ! unat ?cs)" by (rule ring_lookup_hit [OF assms(1) lt])
    then have sl: "ring_slot b ?cs = Some (h ! unat ?cs)" "rf_seq (h ! unat ?cs) = ?cs"
      using slot look by (auto split: if_splits)
    have "slot_bytes (b_channels b) (h ! unat ?cs) =
        Some (take (unat (rf_samples (h ! unat ?cs)) * 2 * unat (b_channels b)) (rf_data (h ! unat ?cs)))"
      using assms(2) lt by (simp add: slot_bytes_def frames_fit_def)
    then have step: "writer_drain cpy now wr (b_producer_seq b) b rec =
        writer_drain cpy now wr (b_producer_seq b) b
          (rec\<lparr>rc_written := rc_written rec @ [take (unat (rf_samples (h ! unat ?cs)) * 2 * unat (b_channels b)) (rf_data (h ! unat ?cs))],
               rc_consumer_seq := ?cs + 1\<rparr>)"
      using less Suc.prems(1) sl assms(3) by (subst writer_drain.simps) simp
    show ?thesis
      unfolding step by (subst Suc.hyps(1)) (use Suc.hyps(2) Suc.prems lt suc drained_hit [OF lt True] in simp_all)
  next
    case False
    then have "ring_lookup b ?cs = None" by (intro ring_lookup_miss [OF assms(1)]) simp
    then obtain sl where sl: "ring_slot b ?cs = Some sl" "rf_seq sl \<noteq> ?cs"
      using slot look by (auto split: if_splits)
    have step: "writer_drain cpy now wr (b_producer_seq b) b rec =
        writer_drain cpy now wr (b_producer_seq b) b (rec\<lparr>rc_consumer_seq := ?cs + 1\<rparr>)"
      using less Suc.prems(1) sl by (subst writer_drain.simps) simp
    show ?thesis
      unfolding step by (subst Suc.hyps(1)) (use Suc.hyps(2) Suc.prems lt suc drained_miss [of "unat ?cs" b h] False in simp_all)
  qed
qed

section \<open>The recording flag\<close>

text \<open>\<open>BFLAG_RECORDING\<close> says that the list is not empty; starting and stopping keep it so.\<close>

definition rec_flag_inv :: "broadcast_obj \<Rightarrow> bool" where
  "rec_flag_inv b = (has_flag (b_cflags b) BFLAG_RECORDING = (b_recordings b \<noteq> []))"

datatype rec_op =
    RecStart "(string \<Rightarrow> string option) option" bool "string \<Rightarrow> u8 \<Rightarrow> u32 \<Rightarrow> switch_status" bool "string option"
  | RecStop "string option"

fun rec_apply :: "copy_string \<Rightarrow> usec \<Rightarrow> broadcast_obj \<Rightarrow> rec_op \<Rightarrow> broadcast_obj" where
  "rec_apply cpy now b (RecStart expand pool_ok fopen thread_ok target) =
     snd (broadcast_record_start cpy now expand pool_ok fopen thread_ok b target)"
| "rec_apply cpy now b (RecStop target) = fst (snd (broadcast_record_stop cpy now b target))"

lemma record_start_cases:
  obtains (refused) "broadcast_record_start cpy now expand pool_ok fopen thread_ok b target = (ST_FALSE, b)"
    | (started) path where "broadcast_record_start cpy now expand pool_ok fopen thread_ok b target =
        (ST_SUCCESS, broadcast_enqueue_event cpy now
          (b\<lparr>b_recordings := (rec_new path b)\<lparr>rc_writer_thread := True\<rparr> # b_recordings b,
             b_cflags := set_flag (b_cflags b) BFLAG_RECORDING\<rparr>) BEVT_RECORDING_START 0 (Some path))"
      "\<not> zstr target" "pool_ok" "thread_ok" "fopen path (b_channels b) (b_rate b) = ST_SUCCESS"
      "path = the target \<or> (\<exists>f. expand = Some f \<and> f (the target) = Some path)"
proof -
  let ?path = "case expand of None \<Rightarrow> the target | Some f \<Rightarrow> (case f (the target) of None \<Rightarrow> the target | Some e \<Rightarrow> e)"
  have p: "?path = the target \<or> (\<exists>f. expand = Some f \<and> f (the target) = Some ?path)"
    by (auto split: option.splits)
  show thesis
  proof (cases "\<not> zstr target \<and> pool_ok \<and> fopen ?path (b_channels b) (b_rate b) = ST_SUCCESS \<and> thread_ok")
    case True
    then show thesis
      by (intro started [of ?path]) (use p in \<open>simp_all add: broadcast_record_start_def Let_def rec_link_def\<close>)
  next
    case False
    then show thesis
      by (intro refused) (auto simp: broadcast_record_start_def Let_def rec_link_def rec_rollback_def)
  qed
qed

lemma record_stop_parts:
  shows "b_recordings (fst (snd (broadcast_record_stop cpy now b target))) = filter (\<lambda>r. \<not> rec_matches target r) (b_recordings b)"
    and "snd (snd (broadcast_record_stop cpy now b target)) = rev (map (\<lambda>r. r\<lparr>rc_running := False\<rparr>) (filter (rec_matches target) (b_recordings b)))"
    and "fst (broadcast_record_stop cpy now b target) = (if filter (rec_matches target) (b_recordings b) = [] then ST_FALSE else ST_SUCCESS)"
    and "b_cflags (fst (snd (broadcast_record_stop cpy now b target))) =
      (if filter (\<lambda>r. \<not> rec_matches target r) (b_recordings b) = [] then clr_flag (b_cflags b) BFLAG_RECORDING else b_cflags b)"
  by (simp_all add: broadcast_record_stop_def rec_scan_filter stop_events_frame Let_def)

lemma rec_apply_flag: "rec_flag_inv b \<Longrightarrow> rec_flag_inv (rec_apply cpy now b op)"
proof (cases op)
  case (RecStart expand pool_ok fopen thread_ok target)
  assume "rec_flag_inv b"
  then show ?thesis
    by (cases rule: record_start_cases [of cpy now expand pool_ok fopen thread_ok b target])
      (simp_all add: RecStart rec_flag_inv_def flag_simps)
next
  case (RecStop target)
  assume "rec_flag_inv b"
  then show ?thesis
    using record_stop_parts [of cpy now b target]
    by (auto simp: RecStop rec_flag_inv_def flag_simps split: if_splits)
qed

text \<open>
  The rollback after a failed thread start takes the head from the failed recording's own link:
  recordings that other threads started in between are unlinked with it, though their writers run on.
\<close>

lemma record_rollback_unlinks_others:
  "b_recordings (rec_rollback (length new) (b\<lparr>b_recordings := new @ rec_new path b # b_recordings b\<rparr>)) = b_recordings b"
  by (simp add: rec_rollback_def)

section \<open>Theorems\<close>

text \<open>
  C22. The writer thread at a timer event: it ends, and it writes, in order and each once, exactly
  those frames published since its position that are still in the ring, sample for sample; afterwards
  its position is the producer's. A lagging recording loses what was overwritten and nothing else.
\<close>

theorem recorder_drain_exact:
  assumes "ring_hist b h" "frames_fit (b_channels b) h" "\<And>s. wr s = ST_SUCCESS" "rc_running rec"
    "unat (rc_consumer_seq rec) \<le> length h"
  shows "writer_drain cpy now wr (b_producer_seq b) b rec =
    Some (b, rec\<lparr>rc_written := rc_written rec @
        map (\<lambda>j. take (unat (rf_samples (h ! j)) * 2 * unat (b_channels b)) (rf_data (h ! j)))
          [max (unat (rc_consumer_seq rec)) (length h - ring_len b)..<length h],
      rc_consumer_seq := b_producer_seq b\<rparr>, False)"
  using writer_drain_all [OF assms] unfolding drained_def .

theorem recorder_drain_exact_witness:
  "\<exists>rec'. writer_drain cut_copy 0 (\<lambda>s. ST_SUCCESS) (b_producer_seq full_four) full_four (rec_new ''/tmp/a.wav'' four_slots)
      = Some (full_four, rec', False) \<and> length (rc_written rec') = 4"
proof -
  have f: "frames_fit (b_channels full_four) full_four_hist"
    by (simp add: frames_fit_def full_four_hist_def zero_slot_def)
  have "rc_consumer_seq (rec_new ''/tmp/a.wav'' four_slots) = 0" "rc_running (rec_new ''/tmp/a.wav'' four_slots)"
    "rc_written (rec_new ''/tmp/a.wav'' four_slots) = []"
    by (simp_all add: rec_new_def four_slots_def zero_broadcast_def)
  moreover have "ring_len full_four = 4" "length full_four_hist = 4"
    by (simp_all add: ring_len_def full_four_def four_slots_def full_four_hist_def)
  ultimately show ?thesis
    using recorder_drain_exact [OF full_four_ring f, of "\<lambda>s. ST_SUCCESS" "rec_new ''/tmp/a.wav'' four_slots" cut_copy 0] by simp
qed

text \<open>
  Starting a recording: an empty target, and a failure of the pool, the file or the thread, leave
  the broadcast as it was; otherwise one running consumer is added in front, positioned at the
  producer (it records from the next frame on), the flag is set and a start event is queued.
\<close>

theorem record_start_outcome:
  "(broadcast_record_start cpy now expand pool_ok fopen thread_ok b target = (ST_FALSE, b)
      \<or> (\<exists>path rec. broadcast_record_start cpy now expand pool_ok fopen thread_ok b target =
           (ST_SUCCESS, broadcast_enqueue_event cpy now (b\<lparr>b_recordings := rec # b_recordings b,
              b_cflags := set_flag (b_cflags b) BFLAG_RECORDING\<rparr>) BEVT_RECORDING_START 0 (Some path))
         \<and> rc_target rec = path \<and> rc_running rec \<and> rc_writer_thread rec \<and> rc_written rec = []
         \<and> rc_consumer_seq rec = b_producer_seq b
         \<and> pool_ok \<and> thread_ok \<and> fopen path (b_channels b) (b_rate b) = ST_SUCCESS))
    \<and> fst (broadcast_record_start cpy now expand pool_ok fopen thread_ok b (Some [])) = ST_FALSE"
proof -
  have z: "fst (broadcast_record_start cpy now expand pool_ok fopen thread_ok b (Some [])) = ST_FALSE"
    by (simp add: broadcast_record_start_def)
  show ?thesis
  proof (cases rule: record_start_cases [of cpy now expand pool_ok fopen thread_ok b target])
    case refused
    with z show ?thesis by simp
  next
    case (started path)
    with z show ?thesis
      by (intro conjI disjI2 exI [of _ path] exI [of _ "(rec_new path b)\<lparr>rc_writer_thread := True\<rparr>"]) (simp_all add: rec_new_def)
  qed
qed

text \<open>
  Stopping: exactly the recordings whose target matches (all of them for an empty target) are
  unlinked and told to stop, the others stay in order, the status says whether there was one, and the
  recording flag goes exactly when none is left.
\<close>

theorem record_stop_outcome:
  "b_recordings (fst (snd (broadcast_record_stop cpy now b target))) = filter (\<lambda>r. \<not> rec_matches target r) (b_recordings b)
    \<and> snd (snd (broadcast_record_stop cpy now b target))
        = rev (map (\<lambda>r. r\<lparr>rc_running := False\<rparr>) (filter (rec_matches target) (b_recordings b)))
    \<and> fst (broadcast_record_stop cpy now b target)
        = (if filter (rec_matches target) (b_recordings b) = [] then ST_FALSE else ST_SUCCESS)
    \<and> b_cflags (fst (snd (broadcast_record_stop cpy now b target)))
        = (if filter (\<lambda>r. \<not> rec_matches target r) (b_recordings b) = []
           then clr_flag (b_cflags b) BFLAG_RECORDING else b_cflags b)
    \<and> b_recordings (broadcast_record_stop_all cpy now b) = []"
  using record_stop_parts [of cpy now b target] record_stop_parts(1) [of cpy now b None]
  by (simp add: broadcast_record_stop_all_def rec_matches_def)

text \<open>
  Over any sequence of starts (successful or not) and stops, \<open>BFLAG_RECORDING\<close> is set exactly
  while a recording is linked.
\<close>

theorem recording_flag_invariant:
  assumes "rec_flag_inv b"
  shows "has_flag (b_cflags (foldl (rec_apply cpy now) b ops)) BFLAG_RECORDING
    = (b_recordings (foldl (rec_apply cpy now) b ops) \<noteq> [])"
proof -
  have "rec_flag_inv (foldl (rec_apply cpy now) b ops)"
    using assms by (induction ops arbitrary: b) (simp_all add: rec_apply_flag)
  then show ?thesis by (simp add: rec_flag_inv_def)
qed

theorem recording_flag_invariant_witness:
  "has_flag (b_cflags (foldl (rec_apply cut_copy 0) (zero_broadcast 4) [RecStop None])) BFLAG_RECORDING
    = (b_recordings (foldl (rec_apply cut_copy 0) (zero_broadcast 4) [RecStop None]) \<noteq> [])"
  by (rule recording_flag_invariant) (simp add: rec_flag_inv_def zero_broadcast_def flag_simps)

text \<open>
  Once the broadcast is marked destroyed, stopping its recordings queues no event at all: the
  recordings of a destroyed broadcast end without a recording-stop event.
\<close>

theorem destroyed_stop_is_silent:
  assumes "b_destroyed b"
  shows "b_event_ring (broadcast_record_stop_all cpy now b) = b_event_ring b
    \<and> b_event_prod_idx (broadcast_record_stop_all cpy now b) = b_event_prod_idx b
    \<and> b_recordings (broadcast_record_stop_all cpy now b) = []"
  using assms record_stop_parts(1) [of cpy now b None] 
  by (simp add: broadcast_record_stop_all_def broadcast_record_stop_def Let_def rec_scan_filter stop_events_destroyed rec_matches_def)

theorem destroyed_stop_is_silent_witness:
  "b_recordings (broadcast_record_stop_all cut_copy 0
     ((zero_broadcast 4)\<lparr>b_destroyed := True, b_recordings := [rec_new ''a'' (zero_broadcast 4)]\<rparr>)) = []"
  using destroyed_stop_is_silent [of "(zero_broadcast 4)\<lparr>b_destroyed := True, b_recordings := [rec_new ''a'' (zero_broadcast 4)]\<rparr>"] by simp

end
