(* ===== verification/Config.thy ===== *)
theory Config
  imports Bcast_Types
begin

text \<open>
  The configuration (broadcast_config.c): parameter lookup, profiles, caller-control groups, load,
  reload and unload, and profile lookup. The XML document is the data its accessors give: the
  \<open>param\<close> elements as name/value pairs in document order, a missing attribute being the empty
  string. \<open>switch_true\<close> of the core is a parameter.
\<close>

type_synonym xparams = "(string \<times> string) list"

record xcfg =
  x_settings :: "xparams option"
  x_profiles :: "(string \<times> xparams) list option"
  x_controls :: "(string \<times> (string \<times> string \<times> string) list) list option"

section \<open>Numbers\<close>

text \<open>
  \<open>atoi\<close>: leading white space, an optional sign, decimal digits up to the first other character.
  Values outside \<open>int\<close> are undefined in C; the cast to \<open>uint32_t\<close> reduces modulo \<open>2^32\<close>.
\<close>

definition is_space :: "char \<Rightarrow> bool" where
  "is_space c = (let n = of_char c :: nat in n = 32 \<or> 9 \<le> n \<and> n \<le> 13)"

definition is_digit :: "char \<Rightarrow> bool" where
  "is_digit c = (let n = of_char c :: nat in 48 \<le> n \<and> n \<le> 57)"

fun digits_value :: "nat \<Rightarrow> string \<Rightarrow> nat" where
  "digits_value acc [] = acc"
| "digits_value acc (c # cs) = (if is_digit c then digits_value (acc * 10 + (of_char c - 48)) cs else acc)"

definition atoi :: "string \<Rightarrow> int" where
  "atoi s =
     (case dropWhile is_space s of
        [] \<Rightarrow> 0
      | c # cs \<Rightarrow> if c = CHR ''-'' then - int (digits_value 0 cs)
                   else if c = CHR ''+'' then int (digits_value 0 cs) else int (digits_value 0 (c # cs)))"

definition atoi_u32 :: "string \<Rightarrow> u32" where
  "atoi_u32 s = word_of_int (atoi s)"

lemma digit_char: "(n :: nat) < 10 \<Longrightarrow> of_char (char_of (48 + n) :: char) = 48 + n"
  by (simp add: of_char_of)

lemma digit_is_digit: "(n :: nat) < 10 \<Longrightarrow> is_digit (char_of (48 + n))"
  by (simp add: is_digit_def digit_char Let_def)

lemma digits_value_append: "list_all is_digit xs \<Longrightarrow> digits_value acc (xs @ ys) = digits_value (digits_value acc xs) ys"
  by (induction xs arbitrary: acc) auto

lemma dec_string_digits: "list_all is_digit (dec_string n)"
  by (induction n rule: dec_string.induct) (subst dec_string.simps, simp add: digit_is_digit)

lemma dec_string_ne: "dec_string n \<noteq> []"
  by (subst dec_string.simps) simp

lemma digits_value_dec: "digits_value 0 (dec_string n) = n"
proof (induction n rule: dec_string.induct)
  case (1 n)
  show ?case
  proof (cases "n < 10")
    case True
    then show ?thesis by (subst dec_string.simps) (simp add: digit_is_digit digit_char)
  next
    case False
    with 1 show ?thesis
      by (subst dec_string.simps) (simp add: digits_value_append dec_string_digits digit_is_digit digit_char)
  qed
qed

text \<open>Reading back what \<open>%u\<close> printed.\<close>

lemma atoi_dec_string: "atoi (dec_string n) = int n"
proof -
  obtain c cs where c: "dec_string n = c # cs" using dec_string_ne by (cases "dec_string n") auto
  then have d: "is_digit c" using dec_string_digits [of n] by simp
  then have "\<not> is_space c" "c \<noteq> CHR ''-''" "c \<noteq> CHR ''+''"
    by (auto simp: is_digit_def is_space_def Let_def)
  then show ?thesis using digits_value_dec [of n] by (simp add: atoi_def c)
qed

section \<open>Profiles\<close>

fun b_param :: "xparams \<Rightarrow> string \<Rightarrow> string option \<Rightarrow> string option" where
  "b_param [] name def = def"
| "b_param ((var, val) # ps) name def =
     (if strcaseeq var name then (if zstr (Some val) then def else Some val) else b_param ps name def)"

fun b_param_uint :: "xparams \<Rightarrow> string \<Rightarrow> u32 \<Rightarrow> u32" where
  "b_param_uint [] name def = def"
| "b_param_uint ((var, val) # ps) name def =
     (if strcaseeq var name \<and> \<not> zstr (Some val) then atoi_u32 val else b_param_uint ps name def)"

fun b_param_bool :: "(string \<Rightarrow> bool) \<Rightarrow> xparams \<Rightarrow> string \<Rightarrow> bool \<Rightarrow> bool" where
  "b_param_bool strue [] name def = def"
| "b_param_bool strue ((var, val) # ps) name def =
     (if strcaseeq var name \<and> \<not> zstr (Some val) then strue val else b_param_bool strue ps name def)"

definition b_parse_profile :: "(string \<Rightarrow> bool) \<Rightarrow> string \<times> xparams \<Rightarrow> broadcast_profile option" where
  "b_parse_profile strue x =
     (let (name, ps) = x in
      if zstr (Some name) then None
      else Some
       \<lparr>p_name = name,
        p_rate = b_param_uint ps ''rate'' BROADCAST_DEFAULT_RATE,
        p_interval_ms = b_param_uint ps ''interval'' BROADCAST_DEFAULT_INTERVAL_MS,
        p_channels = b_param_uint ps ''channels'' 1,
        p_ring_size = b_param_uint ps ''ring-size'' BROADCAST_DEFAULT_RING_SIZE,
        p_max_lag_frames = b_param_uint ps ''max-lag-frames'' BROADCAST_DEFAULT_MAX_LAG_FRAMES,
        p_speaker_override = b_param_bool strue ps ''speaker-override'' False,
        p_silence_window_ms = b_param_uint ps ''silence-window-ms'' 800,
        p_silence_policy = b_param ps ''silence-policy'' (Some ''zero''),
        p_moh_sound = b_param ps ''moh-sound'' (Some []),
        p_max_listeners = b_param_uint ps ''max-listeners'' 2000,
        p_listener_pre_buffer_ms = b_param_uint ps ''listener-pre-buffer-ms'' 0,
        p_timer_name = b_param ps ''timer-name'' (Some ''timerfd''),
        p_energy_detection = b_param_bool strue ps ''energy-detection'' True,
        p_comfort_noise_level = b_param_uint ps ''comfort-noise-level'' 0,
        p_agc = b_param_bool strue ps ''agc'' False,
        p_enter_sound = b_param ps ''enter-sound'' (Some []),
        p_exit_sound = b_param ps ''exit-sound'' (Some []),
        p_kicked_sound = b_param ps ''kicked-sound'' (Some []),
        p_locked_sound = b_param ps ''locked-sound'' (Some []),
        p_speaker_joined_sound = b_param ps ''speaker-joined-sound'' (Some []),
        p_verbose_events = b_param_bool strue ps ''verbose-events'' False,
        p_join_event_delay_ms = b_param_uint ps ''join-event-delay-ms'' 0,
        p_caller_controls = b_param ps ''caller-controls'' (Some ''default''),
        p_auto_record = b_param_bool strue ps ''auto-record'' False,
        p_record_template = b_param ps ''record-template''
          (Some ''/var/spool/freeswitch/broadcast/${name}-${strftime(%Y%m%d-%H%M%S)}.wav''),
        p_heartbeat_interval_sec = b_param_uint ps ''heartbeat-interval-sec'' 60\<rparr>)"

section \<open>Caller controls\<close>

definition b_parse_action :: "string option \<Rightarrow> bctl_action" where
  "b_parse_action s =
     (if zstr s then BCTL_ACTION_NONE
      else if strcaseeq (the s) ''hangup'' then BCTL_ACTION_HANGUP
      else if strcaseeq (the s) ''request-speaker'' then BCTL_ACTION_REQUEST_SPEAKER
      else if strcaseeq (the s) ''energy-up'' then BCTL_ACTION_ENERGY_UP
      else if strcaseeq (the s) ''energy-down'' then BCTL_ACTION_ENERGY_DOWN
      else if strcaseeq (the s) ''leave'' then BCTL_ACTION_LEAVE
      else if strcaseeq (the s) ''mute-toggle'' then BCTL_ACTION_MUTE_TOGGLE
      else if strcaseeq (the s) ''vol-up'' then BCTL_ACTION_VOL_UP
      else if strcaseeq (the s) ''vol-down'' then BCTL_ACTION_VOL_DOWN
      else if strcaseeq (the s) ''vol-reset'' then BCTL_ACTION_VOL_RESET
      else if strcaseeq (the s) ''execute-app'' then BCTL_ACTION_EXECUTE_APP
      else if strcaseeq (the s) ''lua'' then BCTL_ACTION_LUA
      else if strcaseeq (the s) ''js'' then BCTL_ACTION_JS
      else if strcaseeq (the s) ''transfer'' then BCTL_ACTION_TRANSFER
      else if strcaseeq (the s) ''event'' then BCTL_ACTION_EVENT
      else BCTL_ACTION_NONE)"

fun parse_bindings :: "copy_string \<Rightarrow> (string \<times> string \<times> string) list \<Rightarrow> control_binding list" where
  "parse_bindings cpy [] = []"
| "parse_bindings cpy ((digits, action, data) # ctls) =
     (let act = b_parse_action (Some action) in
      if zstr (Some digits) \<or> act = BCTL_ACTION_NONE then parse_bindings cpy ctls
      else \<lparr>cb_digits = cpy digits 16, cb_action = act, cb_arg = (if zstr (Some data) then None else Some data)\<rparr>
             # parse_bindings cpy ctls)"

fun parse_groups :: "copy_string \<Rightarrow> (string \<times> (string \<times> string \<times> string) list) list \<Rightarrow> control_group list" where
  "parse_groups cpy [] = []"
| "parse_groups cpy ((gname, ctls) # groups) =
     (if zstr (Some gname) then parse_groups cpy groups
      else \<lparr>cg_name = gname, cg_bindings = parse_bindings cpy ctls\<rparr> # parse_groups cpy groups)"

definition b_parse_control_groups :: "copy_string \<Rightarrow> xcfg \<Rightarrow> broadcast_globals \<Rightarrow> broadcast_globals" where
  "b_parse_control_groups cpy cfg g =
     g\<lparr>g_control_groups := (case x_controls cfg of None \<Rightarrow> [] | Some gs \<Rightarrow> parse_groups cpy gs)\<rparr>"

section \<open>Load, unload, reload\<close>

fun parse_profiles :: "(string \<Rightarrow> bool) \<Rightarrow> (string \<times> xparams) list \<Rightarrow> broadcast_profile list" where
  "parse_profiles strue [] = []"
| "parse_profiles strue (x # xs) =
     (case b_parse_profile strue x of None \<Rightarrow> parse_profiles strue xs | Some p \<Rightarrow> p # parse_profiles strue xs)"

fun load_settings :: "xparams \<Rightarrow> broadcast_globals \<Rightarrow> broadcast_globals" where
  "load_settings [] g = g"
| "load_settings ((var, val) # ps) g =
     load_settings ps
       (if strcaseeq var ''default-profile'' \<and> \<not> zstr (Some val) then g\<lparr>g_default_profile_name := Some val\<rparr>
        else if strcaseeq var ''max-broadcasts'' \<and> \<not> zstr (Some val) then g\<lparr>g_max_broadcasts := atoi_u32 val\<rparr>
        else if strcaseeq var ''event-ring-size'' \<and> \<not> zstr (Some val) then g\<lparr>g_event_ring_size := atoi_u32 val\<rparr>
        else g)"

text \<open>\<open>doc\<close> is the document \<open>switch_xml_open_cfg\<close> gives, or nothing when it cannot be opened.\<close>

definition broadcast_config_load ::
  "copy_string \<Rightarrow> (string \<Rightarrow> bool) \<Rightarrow> xcfg option \<Rightarrow> broadcast_globals \<Rightarrow> switch_status \<times> broadcast_globals" where
  "broadcast_config_load cpy strue doc g =
     (case doc of
        None \<Rightarrow> (ST_FALSE, g)
      | Some cfg \<Rightarrow>
          let g = g\<lparr>g_config_loaded := True, g_default_profile_name := Some ''default'', g_max_broadcasts := 500,
                    g_event_ring_size := BROADCAST_EVENT_RING_SIZE\<rparr>;
              g = (case x_settings cfg of None \<Rightarrow> g | Some ps \<Rightarrow> load_settings ps g);
              g = g\<lparr>g_profiles := (case x_profiles cfg of None \<Rightarrow> [] | Some xs \<Rightarrow> parse_profiles strue xs)\<rparr>
          in (ST_SUCCESS, b_parse_control_groups cpy cfg g))"

definition broadcast_config_unload :: "broadcast_globals \<Rightarrow> broadcast_globals" where
  "broadcast_config_unload g =
     g\<lparr>g_profiles := [], g_control_groups := [], g_default_profile_name := None, g_config_loaded := False,
       g_config_pool := False\<rparr>"

definition broadcast_config_reload ::
  "copy_string \<Rightarrow> (string \<Rightarrow> bool) \<Rightarrow> bool \<Rightarrow> xcfg option \<Rightarrow> broadcast_globals \<Rightarrow> switch_status \<times> broadcast_globals" where
  "broadcast_config_reload cpy strue pool_ok doc g =
     (let g = g\<lparr>g_profiles := [], g_control_groups := [], g_default_profile_name := None, g_config_loaded := False,
                g_config_pool := False\<rparr>
      in if \<not> pool_ok then (ST_FALSE, g)
         else case broadcast_config_load cpy strue doc g of
                (st, g) \<Rightarrow> if st \<noteq> ST_SUCCESS then (ST_FALSE, g) else (ST_SUCCESS, g\<lparr>g_config_pool := True\<rparr>))"

section \<open>Lookup\<close>

text \<open>
  \<open>b_config_find_profile_unlocked\<close>. The outer option is \<open>None\<close> when \<open>strcasecmp\<close> would be called
  with the NULL default name; the inner one is the returned pointer.
\<close>

definition find_named :: "broadcast_profile list \<Rightarrow> string \<Rightarrow> broadcast_profile option" where
  "find_named ps name = find (\<lambda>p. strcaseeq (p_name p) name) ps"

definition b_config_find_profile_unlocked :: "broadcast_globals \<Rightarrow> string option \<Rightarrow> broadcast_profile option option" where
  "b_config_find_profile_unlocked g name =
     (let want = (if zstr name then g_default_profile_name g else name) in
      case g_profiles g of
        [] \<Rightarrow> Some None
      | p0 # _ \<Rightarrow>
          (case want of
             None \<Rightarrow> None
           | Some w \<Rightarrow>
               (case find_named (g_profiles g) w of
                  Some p \<Rightarrow> Some (Some p)
                | None \<Rightarrow>
                    (case find_named (g_profiles g) ''default'' of
                       Some p \<Rightarrow> Some (Some p)
                     | None \<Rightarrow> Some (Some p0)))))"

definition broadcast_config_find_profile :: "broadcast_globals \<Rightarrow> string option \<Rightarrow> broadcast_profile option option" where
  "broadcast_config_find_profile g name = b_config_find_profile_unlocked g name"

definition broadcast_config_find_controls_rdlocked :: "broadcast_globals \<Rightarrow> string option \<Rightarrow> control_group option" where
  "broadcast_config_find_controls_rdlocked g name =
     (if zstr name then None else find (\<lambda>cg. strcaseeq (cg_name cg) (the name)) (g_control_groups g))"

text \<open>The deep copy of a profile, field by field.\<close>

definition broadcast_profile_clone :: "broadcast_profile \<Rightarrow> broadcast_profile" where
  "broadcast_profile_clone src =
     \<lparr>p_name = p_name src, p_rate = p_rate src, p_interval_ms = p_interval_ms src, p_channels = p_channels src,
      p_ring_size = p_ring_size src, p_max_lag_frames = p_max_lag_frames src,
      p_speaker_override = p_speaker_override src, p_silence_window_ms = p_silence_window_ms src,
      p_silence_policy = p_silence_policy src, p_moh_sound = p_moh_sound src, p_max_listeners = p_max_listeners src,
      p_listener_pre_buffer_ms = p_listener_pre_buffer_ms src, p_timer_name = p_timer_name src,
      p_energy_detection = p_energy_detection src, p_comfort_noise_level = p_comfort_noise_level src,
      p_agc = p_agc src, p_enter_sound = p_enter_sound src, p_exit_sound = p_exit_sound src,
      p_kicked_sound = p_kicked_sound src, p_locked_sound = p_locked_sound src,
      p_speaker_joined_sound = p_speaker_joined_sound src, p_verbose_events = p_verbose_events src,
      p_join_event_delay_ms = p_join_event_delay_ms src, p_caller_controls = p_caller_controls src,
      p_auto_record = p_auto_record src, p_record_template = p_record_template src,
      p_heartbeat_interval_sec = p_heartbeat_interval_sec src\<rparr>"

definition broadcast_config_clone_profile :: "broadcast_globals \<Rightarrow> string option \<Rightarrow> broadcast_profile option option" where
  "broadcast_config_clone_profile g name =
     map_option (map_option broadcast_profile_clone) (b_config_find_profile_unlocked g name)"

section \<open>Lemmas\<close>

text \<open>The names of the actions in the configuration.\<close>

fun action_name :: "bctl_action \<Rightarrow> string" where
  "action_name BCTL_ACTION_NONE = []"
| "action_name BCTL_ACTION_HANGUP = ''hangup''"
| "action_name BCTL_ACTION_REQUEST_SPEAKER = ''request-speaker''"
| "action_name BCTL_ACTION_ENERGY_UP = ''energy-up''"
| "action_name BCTL_ACTION_ENERGY_DOWN = ''energy-down''"
| "action_name BCTL_ACTION_LEAVE = ''leave''"
| "action_name BCTL_ACTION_MUTE_TOGGLE = ''mute-toggle''"
| "action_name BCTL_ACTION_VOL_UP = ''vol-up''"
| "action_name BCTL_ACTION_VOL_DOWN = ''vol-down''"
| "action_name BCTL_ACTION_VOL_RESET = ''vol-reset''"
| "action_name BCTL_ACTION_EXECUTE_APP = ''execute-app''"
| "action_name BCTL_ACTION_LUA = ''lua''"
| "action_name BCTL_ACTION_JS = ''js''"
| "action_name BCTL_ACTION_TRANSFER = ''transfer''"
| "action_name BCTL_ACTION_EVENT = ''event''"

lemma action_names_lower: "map to_lower (action_name a) = action_name a"
  by (cases a) (simp_all add: to_lower_def)

lemma strcaseeq_action: "strcaseeq s (action_name a) = (map to_lower s = action_name a)"
  by (simp add: strcaseeq_def action_names_lower)

lemma parse_action_key:
  "b_parse_action (Some s) =
    (let k = map to_lower s in
     if k = [] then BCTL_ACTION_NONE else if k = ''hangup'' then BCTL_ACTION_HANGUP
     else if k = ''request-speaker'' then BCTL_ACTION_REQUEST_SPEAKER else if k = ''energy-up'' then BCTL_ACTION_ENERGY_UP
     else if k = ''energy-down'' then BCTL_ACTION_ENERGY_DOWN else if k = ''leave'' then BCTL_ACTION_LEAVE
     else if k = ''mute-toggle'' then BCTL_ACTION_MUTE_TOGGLE else if k = ''vol-up'' then BCTL_ACTION_VOL_UP
     else if k = ''vol-down'' then BCTL_ACTION_VOL_DOWN else if k = ''vol-reset'' then BCTL_ACTION_VOL_RESET
     else if k = ''execute-app'' then BCTL_ACTION_EXECUTE_APP else if k = ''lua'' then BCTL_ACTION_LUA
     else if k = ''js'' then BCTL_ACTION_JS else if k = ''transfer'' then BCTL_ACTION_TRANSFER
     else if k = ''event'' then BCTL_ACTION_EVENT else BCTL_ACTION_NONE)"
  using strcaseeq_action [of s BCTL_ACTION_HANGUP] strcaseeq_action [of s BCTL_ACTION_REQUEST_SPEAKER]
    strcaseeq_action [of s BCTL_ACTION_ENERGY_UP] strcaseeq_action [of s BCTL_ACTION_ENERGY_DOWN]
    strcaseeq_action [of s BCTL_ACTION_LEAVE] strcaseeq_action [of s BCTL_ACTION_MUTE_TOGGLE]
    strcaseeq_action [of s BCTL_ACTION_VOL_UP] strcaseeq_action [of s BCTL_ACTION_VOL_DOWN]
    strcaseeq_action [of s BCTL_ACTION_VOL_RESET] strcaseeq_action [of s BCTL_ACTION_EXECUTE_APP]
    strcaseeq_action [of s BCTL_ACTION_LUA] strcaseeq_action [of s BCTL_ACTION_JS]
    strcaseeq_action [of s BCTL_ACTION_TRANSFER] strcaseeq_action [of s BCTL_ACTION_EVENT]
  by (simp only: action_name.simps b_parse_action_def zstr_simps option.sel Let_def map_is_Nil_conv)

lemma parse_action_iff: "a \<noteq> BCTL_ACTION_NONE \<Longrightarrow> (b_parse_action (Some s) = a) = strcaseeq s (action_name a)"
  unfolding strcaseeq_action parse_action_key Let_def
  by (cases a) (auto split: if_split)

text \<open>Bindings and groups that load: never without digits or action, digits within the 16-byte buffer.\<close>

lemma parse_bindings_map:
  "parse_bindings cpy ctls =
    map (\<lambda>(d, a, dt). \<lparr>cb_digits = cpy d 16, cb_action = b_parse_action (Some a), cb_arg = (if dt = [] then None else Some dt)\<rparr>)
      (filter (\<lambda>(d, a, dt). d \<noteq> [] \<and> b_parse_action (Some a) \<noteq> BCTL_ACTION_NONE) ctls)"
  by (induction cpy ctls rule: parse_bindings.induct) (auto simp: Let_def)

lemma parse_bindings_ok:
  assumes "copy_string_ok cpy" "b \<in> set (parse_bindings cpy ctls)"
  shows "cb_action b \<noteq> BCTL_ACTION_NONE" "length (cb_digits b) \<le> 15" "cb_arg b \<noteq> Some []"
    "\<exists>digits action data. (digits, action, data) \<in> set ctls \<and> cb_digits b = cpy digits 16 \<and> digits \<noteq> []
       \<and> cb_action b = b_parse_action (Some action)"
proof -
  have "cb_action b \<noteq> BCTL_ACTION_NONE \<and> cb_arg b \<noteq> Some [] \<and> (\<exists>digits action data. (digits, action, data) \<in> set ctls
      \<and> cb_digits b = cpy digits 16 \<and> digits \<noteq> [] \<and> cb_action b = b_parse_action (Some action))"
    using assms(2) by (auto simp: parse_bindings_map split: if_splits) blast+
  moreover from this obtain d where "cb_digits b = cpy d 16" by blast
  then have "length (cb_digits b) \<le> 15" using copy_string_bound [OF assms(1), of 16 d] by simp
  ultimately show "cb_action b \<noteq> BCTL_ACTION_NONE" "length (cb_digits b) \<le> 15" "cb_arg b \<noteq> Some []"
    "\<exists>digits action data. (digits, action, data) \<in> set ctls \<and> cb_digits b = cpy digits 16 \<and> digits \<noteq> []
       \<and> cb_action b = b_parse_action (Some action)" by blast+
qed

text \<open>The default name is there whenever a profile is; load, reload and unload keep it so.\<close>

definition config_ok :: "broadcast_globals \<Rightarrow> bool" where
  "config_ok g = (g_profiles g = [] \<or> g_default_profile_name g \<noteq> None)"

lemma load_settings_default: "g_default_profile_name g \<noteq> None \<Longrightarrow> g_default_profile_name (load_settings ps g) \<noteq> None"
  by (induction ps g rule: load_settings.induct) simp_all

lemma load_settings_frame:
  "g_profiles (load_settings ps g) = g_profiles g" "g_broadcast_hash (load_settings ps g) = g_broadcast_hash g"
  by (induction ps g rule: load_settings.induct) simp_all

lemma load_ok:
  assumes "config_ok g"
  shows "config_ok (snd (broadcast_config_load cpy strue doc g))"
proof (cases doc)
  case None
  with assms show ?thesis by (simp add: broadcast_config_load_def)
next
  case (Some cfg)
  then show ?thesis
    by (cases "x_settings cfg")
      (auto simp: broadcast_config_load_def b_parse_control_groups_def config_ok_def Let_def load_settings_default
        simp del: not_None_eq)
qed

lemma load_hash: "g_broadcast_hash (snd (broadcast_config_load cpy strue doc g)) = g_broadcast_hash g"
  by (simp add: broadcast_config_load_def b_parse_control_groups_def Let_def load_settings_frame split: option.splits)

datatype config_op = CfgLoad "xcfg option" | CfgReload bool "xcfg option" | CfgUnload

fun config_apply :: "copy_string \<Rightarrow> (string \<Rightarrow> bool) \<Rightarrow> broadcast_globals \<Rightarrow> config_op \<Rightarrow> broadcast_globals" where
  "config_apply cpy strue g (CfgLoad doc) = snd (broadcast_config_load cpy strue doc g)"
| "config_apply cpy strue g (CfgReload pool_ok doc) = snd (broadcast_config_reload cpy strue pool_ok doc g)"
| "config_apply cpy strue g CfgUnload = broadcast_config_unload g"

lemma reload_ok: "config_ok (snd (broadcast_config_reload cpy strue pool_ok doc g))"
proof -
  let ?g = "g\<lparr>g_profiles := [], g_control_groups := [], g_default_profile_name := None, g_config_loaded := False,
                g_config_pool := False\<rparr>"
  have e: "config_ok ?g" by (simp add: config_ok_def)
  obtain st g' where l: "broadcast_config_load cpy strue doc ?g = (st, g')" by (cases "broadcast_config_load cpy strue doc ?g")
  then have "config_ok g'" using load_ok [OF e, of cpy strue doc] by simp
  then show ?thesis using e l by (simp add: broadcast_config_reload_def Let_def config_ok_def)
qed

lemma config_apply_ok: "config_ok g \<Longrightarrow> config_ok (config_apply cpy strue g op)"
  by (cases op) (simp_all add: load_ok reload_ok, simp add: broadcast_config_unload_def config_ok_def)

lemma find_named_Some: "find_named ps n = Some p \<Longrightarrow> p \<in> set ps \<and> strcaseeq (p_name p) n"
  by (auto simp: find_named_def find_Some_iff)

lemma find_named_None: "find_named ps n = None \<longleftrightarrow> (\<forall>p \<in> set ps. \<not> strcaseeq (p_name p) n)"
  by (auto simp: find_named_def find_None_iff)

lemma clone_id [simp]: "broadcast_profile_clone p = p"
  by (simp add: broadcast_profile_clone_def)

lemma parse_groups_elem:
  "cg \<in> set (parse_groups cpy gs) \<Longrightarrow>
   \<exists>ctls. (cg_name cg, ctls) \<in> set gs \<and> cg_bindings cg = parse_bindings cpy ctls \<and> cg_name cg \<noteq> []"
  by (induction cpy gs rule: parse_groups.induct) (auto split: if_splits)

section \<open>An example\<close>

text \<open>The module's data before the first load, and a document with one profile and one binding.\<close>

definition initial_globals :: broadcast_globals where
  "initial_globals = \<lparr>g_broadcast_hash = [], g_emitter_running = False, g_default_profile_name = None,
     g_config_loaded = False, g_config_pool = False, g_profiles = [], g_control_groups = [], g_max_broadcasts = 0,
     g_event_ring_size = 0, g_total_broadcasts_created = 0, g_total_listeners_served = 0, g_active_broadcasts = 0,
     g_module_load_us = 0, g_running = True, g_runtime_thread_running = False\<rparr>"

definition one_profile_cfg :: xcfg where
  "one_profile_cfg = \<lparr>x_settings = Some [(''max-broadcasts'', ''20'')],
     x_profiles = Some [(''talk'', [(''rate'', ''16000'')])],
     x_controls = Some [(''default'', [(''*0'', ''mute-toggle'', [])])]\<rparr>"

text \<open>The reference for a lookup of \<open>w\<close>: a match first, then a profile named default, then the first.\<close>

definition profile_choice :: "broadcast_profile list \<Rightarrow> string \<Rightarrow> broadcast_profile \<Rightarrow> bool" where
  "profile_choice ps w p \<longleftrightarrow> p \<in> set ps
     \<and> (if \<exists>q \<in> set ps. strcaseeq (p_name q) w then strcaseeq (p_name p) w
        else if \<exists>q \<in> set ps. strcaseeq (p_name q) ''default'' then strcaseeq (p_name p) ''default''
        else p = hd ps)"

lemma find_profile_choice:
  assumes "g_profiles g \<noteq> []" "(if zstr name then g_default_profile_name g else name) = Some w"
  shows "\<exists>p. b_config_find_profile_unlocked g name = Some (Some p) \<and> profile_choice (g_profiles g) w p"
proof -
  obtain p0 ps where c: "g_profiles g = p0 # ps" using assms(1) by (cases "g_profiles g") auto
  have r: "b_config_find_profile_unlocked g name = Some (Some (case find_named (g_profiles g) w of Some p \<Rightarrow> p
      | None \<Rightarrow> (case find_named (g_profiles g) ''default'' of Some p \<Rightarrow> p | None \<Rightarrow> p0)))"
    using assms(2) c by (auto simp: b_config_find_profile_unlocked_def Let_def split: option.splits)
  show ?thesis
  proof (cases "find_named (g_profiles g) w")
    case (Some p)
    with find_named_Some [OF Some] r show ?thesis by (auto simp: profile_choice_def)
  next
    case n1: None
    show ?thesis
    proof (cases "find_named (g_profiles g) ''default''")
      case (Some p)
      have r': "b_config_find_profile_unlocked g name = Some (Some p)" using r n1 Some by simp
      have "profile_choice (g_profiles g) w p"
        using find_named_Some [OF Some] n1 by (auto simp: profile_choice_def find_named_None)
      with r' show ?thesis by blast
    next
      case None
      have r': "b_config_find_profile_unlocked g name = Some (Some p0)" using r n1 None by simp
      have "profile_choice (g_profiles g) w p0"
        using n1 None c by (simp add: profile_choice_def find_named_None)
      with r' show ?thesis by blast
    qed
  qed
qed

section \<open>Theorems\<close>

text \<open>
  The action strings: each action is read from exactly its documented name, in any letter case,
  and every other string (the empty one included) is read as no action.
\<close>

theorem parse_action_exact:
  assumes "a \<noteq> BCTL_ACTION_NONE"
  shows "(b_parse_action (Some s) = a) = strcaseeq s (action_name a)
    \<and> b_parse_action (Some (action_name a)) = a \<and> b_parse_action None = BCTL_ACTION_NONE"
  using parse_action_iff [OF assms] by (simp add: b_parse_action_def [of None])

theorem parse_action_exact_witness:
  "b_parse_action (Some ''Vol-Up'') = BCTL_ACTION_VOL_UP"
proof -
  have "strcaseeq ''Vol-Up'' (action_name BCTL_ACTION_VOL_UP)" by code_simp
  then show ?thesis using parse_action_exact [of BCTL_ACTION_VOL_UP "''Vol-Up''"] by simp
qed

text \<open>
  C35. Whatever sequence of loads, reloads (succeeding or failing) and unloads ran before, a profile
  lookup never compares with a NULL name, and it answers nothing exactly when no profile is loaded;
  otherwise the answer is a loaded profile whose name matches the request (or the default name, for an
  empty request) whenever there is one, then one named default, then the first of the file.
\<close>

theorem find_profile_total:
  assumes "config_ok g" "g' = foldl (config_apply cpy strue) g ops"
  shows "(g_profiles g' = [] \<and> broadcast_config_find_profile g' name = Some None)
    \<or> (\<exists>w p. (if zstr name then g_default_profile_name g' else name) = Some w
         \<and> broadcast_config_find_profile g' name = Some (Some p) \<and> profile_choice (g_profiles g') w p)"
proof (cases "g_profiles g'")
  case Nil
  then show ?thesis by (simp add: broadcast_config_find_profile_def b_config_find_profile_unlocked_def Let_def)
next
  case (Cons p0 ps)
  have "config_ok g'"
    unfolding assms(2) using assms(1) by (induction ops arbitrary: g) (simp_all add: config_apply_ok)
  with Cons have "(if zstr name then g_default_profile_name g' else name) \<noteq> None"
    by (cases name) (auto simp: config_ok_def)
  then obtain w where w: "(if zstr name then g_default_profile_name g' else name) = Some w" by blast
  with find_profile_choice [of g' name w] Cons show ?thesis by (auto simp: broadcast_config_find_profile_def)
qed

theorem find_profile_total_witness:
  "\<exists>w p. broadcast_config_find_profile (foldl (config_apply cut_copy (\<lambda>s. s = ''true'')) initial_globals
       [CfgLoad (Some one_profile_cfg), CfgReload True (Some one_profile_cfg)]) (Some ''talk'') = Some (Some p)
     \<and> profile_choice (g_profiles (foldl (config_apply cut_copy (\<lambda>s. s = ''true'')) initial_globals
       [CfgLoad (Some one_profile_cfg), CfgReload True (Some one_profile_cfg)])) w p"
proof -
  let ?g = "foldl (config_apply cut_copy (\<lambda>s. s = ''true'')) initial_globals
       [CfgLoad (Some one_profile_cfg), CfgReload True (Some one_profile_cfg)]"
  have "g_profiles ?g \<noteq> []"
    by (simp add: broadcast_config_reload_def broadcast_config_load_def b_parse_control_groups_def one_profile_cfg_def
        initial_globals_def b_parse_profile_def Let_def)
  with find_profile_total [of initial_globals ?g cut_copy "\<lambda>s. s = ''true''" _ "Some ''talk''", OF _ refl] show ?thesis
    by (auto simp: config_ok_def initial_globals_def)
qed

text \<open>
  A reload that cannot open the document (or get its pool) leaves the module without any profile,
  control group or default name: every later lookup answers nothing, so no broadcast can be created
  until a reload succeeds. The running broadcasts and the limits are not touched.
\<close>

theorem reload_failure_loses_config:
  "fst (broadcast_config_reload cpy strue pool_ok None g) = ST_FALSE
   \<and> g_profiles (snd (broadcast_config_reload cpy strue pool_ok None g)) = []
   \<and> broadcast_config_clone_profile (snd (broadcast_config_reload cpy strue pool_ok None g)) name = Some None
   \<and> broadcast_config_find_controls_rdlocked (snd (broadcast_config_reload cpy strue pool_ok None g)) name = None
   \<and> g_broadcast_hash (snd (broadcast_config_reload cpy strue pool_ok None g)) = g_broadcast_hash g
   \<and> g_max_broadcasts (snd (broadcast_config_reload cpy strue pool_ok None g)) = g_max_broadcasts g"
  by (simp add: broadcast_config_reload_def broadcast_config_load_def broadcast_config_clone_profile_def
      b_config_find_profile_unlocked_def broadcast_config_find_controls_rdlocked_def Let_def)

text \<open>
  C40. Control groups: after a successful load every binding has an action and at most fifteen
  digits, so it fits the sixteen-byte field it is compared in; its action is the one its element names.
\<close>

theorem loaded_bindings_fit:
  assumes "copy_string_ok cpy" "broadcast_config_load cpy strue doc g = (ST_SUCCESS, g')"
    "cg \<in> set (g_control_groups g')" "b \<in> set (cg_bindings cg)" "doc = Some cfg"
  shows "cb_action b \<noteq> BCTL_ACTION_NONE \<and> length (cb_digits b) \<le> 15 \<and> cb_arg b \<noteq> Some [] \<and> cg_name cg \<noteq> []
    \<and> (\<exists>gs ctls digits action data. x_controls cfg = Some gs \<and> (cg_name cg, ctls) \<in> set gs \<and> (digits, action, data) \<in> set ctls
        \<and> cb_digits b = cpy digits 16 \<and> cb_action b = b_parse_action (Some action))"
proof -
  have g': "g_control_groups g' = (case x_controls cfg of None \<Rightarrow> [] | Some gs \<Rightarrow> parse_groups cpy gs)"
    using assms(2,5) by (auto simp: broadcast_config_load_def b_parse_control_groups_def Let_def)
  then obtain gs where gs: "x_controls cfg = Some gs" "cg \<in> set (parse_groups cpy gs)"
    using assms(3) by (auto split: option.splits)
  then obtain ctls where ctls: "(cg_name cg, ctls) \<in> set gs" "cg_bindings cg = parse_bindings cpy ctls" "cg_name cg \<noteq> []"
    using parse_groups_elem by blast
  note ok = parse_bindings_ok [OF assms(1), of b ctls]
  have b: "b \<in> set (parse_bindings cpy ctls)" using assms(4) ctls(2) by simp
  from ok(4) [OF b] obtain d a dt where "(d, a, dt) \<in> set ctls" "cb_digits b = cpy d 16" "cb_action b = b_parse_action (Some a)"
    by blast
  with ok(1-3) [OF b] gs(1) ctls(1,3) show ?thesis by blast
qed

theorem loaded_bindings_fit_witness:
  "\<exists>g'. broadcast_config_load cut_copy (\<lambda>s. s = ''true'') (Some one_profile_cfg) initial_globals = (ST_SUCCESS, g')
     \<and> (\<exists>cg \<in> set (g_control_groups g'). \<exists>b \<in> set (cg_bindings cg). length (cb_digits b) \<le> 15 \<and> cb_action b \<noteq> BCTL_ACTION_NONE)"
proof -
  let ?l = "broadcast_config_load cut_copy (\<lambda>s. s = ''true'') (Some one_profile_cfg) initial_globals"
  let ?cg = "\<lparr>cg_name = ''default'', cg_bindings = parse_bindings cut_copy [(''*0'', ''mute-toggle'', [])]\<rparr>"
  let ?b = "\<lparr>cb_digits = cut_copy ''*0'' 16, cb_action = b_parse_action (Some ''mute-toggle''), cb_arg = None\<rparr>"
  have n: "b_parse_action (Some ''mute-toggle'') = BCTL_ACTION_MUTE_TOGGLE"
    using parse_action_iff [of BCTL_ACTION_MUTE_TOGGLE "''mute-toggle''"] by simp
  obtain g' where g': "?l = (ST_SUCCESS, g')" "g_control_groups g' = [?cg]"
    by (simp add: broadcast_config_load_def b_parse_control_groups_def one_profile_cfg_def Let_def)
  have "?cg \<in> set (g_control_groups g')" "?b \<in> set (cg_bindings ?cg)" using g'(2) n by simp_all
  with loaded_bindings_fit [OF cut_copy_ok g'(1), of ?cg ?b] g'(1) show ?thesis by blast
qed

end
