(* ===== verification/Controls.thy ===== *)
theory Controls
  imports Config Event_Queue "HOL-Library.Sublist"
begin

text \<open>
  Caller controls (broadcast_listener.c): accumulation of DTMF digits, matching against the bindings
  of the profile's control group, and dispatch of the bound action. What an action asks of the session
  and the channel is returned as a list of calls.
\<close>

datatype chan_call =
    SetVariable string string
  | Hangup
  | ExecuteApp string "string option"
  | Transfer string string string

section \<open>Splitting an argument at spaces\<close>

definition is_sp :: "char \<Rightarrow> bool" where
  "is_sp c = (c = CHR '' '')"

text \<open>\<open>strchr(app, ' ')\<close>, cut, and skip the spaces that follow.\<close>

definition split_app :: "string \<Rightarrow> string \<times> string option" where
  "split_app s =
     (if list_ex is_sp s
      then (takeWhile (\<lambda>c. \<not> is_sp c) s, Some (dropWhile is_sp (tl (dropWhile (\<lambda>c. \<not> is_sp c) s))))
      else (s, None))"

text \<open>\<open>strtok_r(p, " ", &p)\<close>: the next word and what follows it, or nothing.\<close>

definition strtok_sp :: "string \<Rightarrow> (string \<times> string) option" where
  "strtok_sp s =
     (let s = dropWhile is_sp s in
      if s = [] then None
      else Some (takeWhile (\<lambda>c. \<not> is_sp c) s, drop 1 (dropWhile (\<lambda>c. \<not> is_sp c) s)))"

definition transfer_call :: "string \<Rightarrow> chan_call list" where
  "transfer_call args =
     (case strtok_sp args of
        None \<Rightarrow> []
      | Some (ext, p) \<Rightarrow>
          (case strtok_sp p of
             None \<Rightarrow> [Transfer ext ''XML'' ''default'']
           | Some (dp, p) \<Rightarrow>
               (case strtok_sp p of
                  None \<Rightarrow> [Transfer ext dp ''default'']
                | Some (ctx, p) \<Rightarrow> [Transfer ext dp ctx])))"

section \<open>Dispatch\<close>

definition set_gains :: "member_obj \<Rightarrow> member_obj" where
  "set_gains m =
     m\<lparr>m_write_gain := (if m_vol_idx m = 0 then GAIN_1_0 else GAIN_1_1),
       m_read_gain := (if m_vol_idx m = 0 then GAIN_1_0 else GAIN_1_1)\<rparr>"

text \<open>\<open>b_listener_dispatch_control\<close>; \<open>has_mod\<close> says which modules are loaded.\<close>

definition b_listener_dispatch_control ::
  "copy_string \<Rightarrow> (string \<Rightarrow> bool) \<Rightarrow> usec \<Rightarrow> broadcast_obj \<Rightarrow> member_obj \<Rightarrow> control_binding
    \<Rightarrow> broadcast_obj \<times> member_obj \<times> chan_call list" where
  "b_listener_dispatch_control cpy has_mod now b m bind =
     (case cb_action bind of
        BCTL_ACTION_HANGUP \<Rightarrow>
          (b, m, [SetVariable ''broadcast_ended_by_self'' ''true'',
                  SetVariable ''broadcast_left_reason'' ''self-hangup'', Hangup])
      | BCTL_ACTION_LEAVE \<Rightarrow>
          (b, m\<lparr>m_mflags := clr_flag (m_mflags m) MFLAG_RUNNING\<rparr>,
           [SetVariable ''broadcast_ended_by_self'' ''true'', SetVariable ''broadcast_left_reason'' ''self-leave''])
      | BCTL_ACTION_REQUEST_SPEAKER \<Rightarrow>
          (broadcast_enqueue_event cpy now b BEVT_SPEAKER_REQUEST (m_id m) None, m, [])
      | BCTL_ACTION_ENERGY_UP \<Rightarrow>
          (b, (if 100 < m_energy_threshold m then m\<lparr>m_energy_threshold := m_energy_threshold m - 50\<rparr> else m), [])
      | BCTL_ACTION_ENERGY_DOWN \<Rightarrow>
          (b, (if m_energy_threshold m < 5000 then m\<lparr>m_energy_threshold := m_energy_threshold m + 50\<rparr> else m), [])
      | BCTL_ACTION_MUTE_TOGGLE \<Rightarrow>
          (b, (if m_role m = BMEMBER_ROLE_SPEAKER then
                 (if has_flag (m_mflags m) MFLAG_MUTED_SPEAKER
                  then m\<lparr>m_mflags := clr_flag (m_mflags m) MFLAG_MUTED_SPEAKER\<rparr>
                  else m\<lparr>m_mflags := set_flag (m_mflags m) MFLAG_MUTED_SPEAKER\<rparr>)
               else m), [])
      | BCTL_ACTION_VOL_UP \<Rightarrow>
          (b, set_gains (if m_vol_idx m < 12 then m\<lparr>m_vol_idx := m_vol_idx m + 1\<rparr> else m), [])
      | BCTL_ACTION_VOL_DOWN \<Rightarrow>
          (b, set_gains (if m_vol_idx m > -12 then m\<lparr>m_vol_idx := m_vol_idx m - 1\<rparr> else m), [])
      | BCTL_ACTION_VOL_RESET \<Rightarrow>
          (b, m\<lparr>m_vol_idx := 0, m_write_gain := GAIN_1_0, m_read_gain := GAIN_1_0\<rparr>, [])
      | BCTL_ACTION_EXECUTE_APP \<Rightarrow>
          (b, m, if zstr (cb_arg bind) then []
                 else (case split_app (the (cb_arg bind)) of (app, args) \<Rightarrow> [ExecuteApp app args]))
      | BCTL_ACTION_LUA \<Rightarrow>
          (b, m, if \<not> zstr (cb_arg bind) \<and> has_mod ''mod_lua'' then [ExecuteApp ''lua'' (cb_arg bind)] else [])
      | BCTL_ACTION_JS \<Rightarrow>
          (b, m, if \<not> zstr (cb_arg bind) \<and> has_mod ''mod_v8'' then [ExecuteApp ''javascript'' (cb_arg bind)] else [])
      | BCTL_ACTION_TRANSFER \<Rightarrow>
          (b, m, if zstr (cb_arg bind) then [] else transfer_call (the (cb_arg bind)))
      | BCTL_ACTION_EVENT \<Rightarrow>
          (let payload = take 511 (cb_digits bind @ ''|'' @ (case cb_arg bind of None \<Rightarrow> [] | Some a \<Rightarrow> a))
           in (broadcast_enqueue_event cpy now b BEVT_DTMF_ACTION (m_id m) (Some payload), m, []))
      | BCTL_ACTION_NONE \<Rightarrow> (b, m, []))"

section \<open>Matching and accumulation\<close>

definition control_bindings :: "broadcast_globals \<Rightarrow> broadcast_obj \<Rightarrow> control_binding list" where
  "control_bindings g b =
     (case b_profile b of
        None \<Rightarrow> []
      | Some prof \<Rightarrow>
          (case broadcast_config_find_controls_rdlocked g (p_caller_controls prof) of
             None \<Rightarrow> []
           | Some cg \<Rightarrow> cg_bindings cg))"

text \<open>The first binding whose digits equal the buffer; the buffer is cleared before the dispatch.\<close>

definition b_listener_match_controls ::
  "copy_string \<Rightarrow> (string \<Rightarrow> bool) \<Rightarrow> usec \<Rightarrow> broadcast_globals \<Rightarrow> broadcast_obj \<Rightarrow> member_obj
    \<Rightarrow> broadcast_obj \<times> member_obj \<times> chan_call list" where
  "b_listener_match_controls cpy has_mod now g b m =
     (case find (\<lambda>bind. m_dtmf_buf m = cb_digits bind) (control_bindings g b) of
        None \<Rightarrow> (b, m, [])
      | Some bind \<Rightarrow> b_listener_dispatch_control cpy has_mod now b (m\<lparr>m_dtmf_buf := []\<rparr>) bind)"

text \<open>The digit buffer: \<open>char dtmf_buf[16]\<close>, emptied after 1.5 s without a digit and when it is full.\<close>

definition dtmf_append :: "usec \<Rightarrow> char \<Rightarrow> member_obj \<Rightarrow> member_obj" where
  "dtmf_append now digit m =
     (let buf = (if 1500000 < now - m_dtmf_buf_time_us m then [] else m_dtmf_buf m);
          buf = (if 16 \<le> length buf + 1 then [] else buf)
      in m\<lparr>m_dtmf_buf := buf @ [digit], m_dtmf_buf_time_us := now\<rparr>)"

definition broadcast_listener_handle_dtmf ::
  "copy_string \<Rightarrow> (string \<Rightarrow> bool) \<Rightarrow> usec \<Rightarrow> broadcast_globals \<Rightarrow> char \<Rightarrow> broadcast_obj \<Rightarrow> member_obj
    \<Rightarrow> broadcast_obj \<times> member_obj \<times> chan_call list" where
  "broadcast_listener_handle_dtmf cpy has_mod now g digit b m =
     (if of_char digit = (0 :: nat) then (b, m, [])
      else b_listener_match_controls cpy has_mod now g b (dtmf_append now digit m))"

text \<open>A session of digits, each with its time.\<close>

fun dtmf_session ::
  "copy_string \<Rightarrow> (string \<Rightarrow> bool) \<Rightarrow> broadcast_globals \<Rightarrow> (usec \<times> char) list \<Rightarrow> broadcast_obj \<Rightarrow> member_obj
    \<Rightarrow> broadcast_obj \<times> member_obj \<times> chan_call list" where
  "dtmf_session cpy has_mod g [] b m = (b, m, [])"
| "dtmf_session cpy has_mod g ((now, d) # ds) b m =
     (let (b, m, calls) = broadcast_listener_handle_dtmf cpy has_mod now g d b m;
          (b, m, calls') = dtmf_session cpy has_mod g ds b m
      in (b, m, calls @ calls'))"

section \<open>Invariants of a member's controls\<close>

definition controls_inv :: "member_obj \<Rightarrow> bool" where
  "controls_inv m \<longleftrightarrow> length (m_dtmf_buf m) \<le> 15 \<and> -12 \<le> m_vol_idx m \<and> m_vol_idx m \<le> 12
     \<and> (m_write_gain m = GAIN_1_0 \<longleftrightarrow> m_vol_idx m = 0) \<and> (m_read_gain m = GAIN_1_0 \<longleftrightarrow> m_vol_idx m = 0)
     \<and> 100 \<le> unat (m_energy_threshold m) \<and> unat (m_energy_threshold m) \<le> 5000 \<and> 50 dvd unat (m_energy_threshold m)"

lemma energy_down_step:
  "100 < (t :: u32) \<Longrightarrow> 50 dvd unat t \<Longrightarrow> unat t \<le> 5000 \<Longrightarrow> 100 \<le> unat (t - 50) \<and> unat (t - 50) \<le> 5000 \<and> 50 dvd unat (t - 50)"
proof -
  assume "100 < t" "50 dvd unat t" "unat t \<le> 5000"
  then obtain k where k: "unat t = 50 * k" "100 < unat t" by (auto simp: word_less_nat_alt elim: dvdE)
  then have "unat (t - 50) = 50 * (k - 1)" by (subst unat_diff_nowrap) auto
  with k \<open>unat t \<le> 5000\<close> show ?thesis by auto
qed

lemma energy_up_step:
  "(t :: u32) < 5000 \<Longrightarrow> 50 dvd unat t \<Longrightarrow> 100 \<le> unat t \<Longrightarrow> 100 \<le> unat (t + 50) \<and> unat (t + 50) \<le> 5000 \<and> 50 dvd unat (t + 50)"
proof -
  assume "t < 5000" "50 dvd unat t" "100 \<le> unat t"
  then obtain k where k: "unat t = 50 * k" "unat t < 5000" by (auto simp: word_less_nat_alt elim: dvdE)
  then have "unat (t + 50) = 50 * (k + 1)" by (subst unat_add_nowrap) auto
  with k \<open>100 \<le> unat t\<close> show ?thesis by auto
qed

lemma dispatch_inv:
  assumes "controls_inv m"
  shows "controls_inv (fst (snd (b_listener_dispatch_control cpy has_mod now b m bind)))"
  using assms energy_down_step [of "m_energy_threshold m"] energy_up_step [of "m_energy_threshold m"]
  by (cases "cb_action bind") (auto simp: b_listener_dispatch_control_def controls_inv_def set_gains_def Let_def)

lemma dispatch_frame:
  "b_profile (fst (b_listener_dispatch_control cpy has_mod now b m bind)) = b_profile b"
  "m_dtmf_buf (fst (snd (b_listener_dispatch_control cpy has_mod now b m bind))) = m_dtmf_buf m"
  "m_dtmf_buf_time_us (fst (snd (b_listener_dispatch_control cpy has_mod now b m bind))) = m_dtmf_buf_time_us m"
  by (cases "cb_action bind"; simp add: b_listener_dispatch_control_def set_gains_def Let_def)+

lemma append_inv: "controls_inv m \<Longrightarrow> controls_inv (dtmf_append now d m)"
  by (auto simp: controls_inv_def dtmf_append_def Let_def)

lemma clear_inv: "controls_inv m \<Longrightarrow> controls_inv (m\<lparr>m_dtmf_buf := []\<rparr>)"
  by (simp add: controls_inv_def)

lemma handle_inv:
  "controls_inv m \<Longrightarrow> controls_inv (fst (snd (broadcast_listener_handle_dtmf cpy has_mod now g d b m)))"
  by (auto simp: broadcast_listener_handle_dtmf_def b_listener_match_controls_def append_inv
      intro!: dispatch_inv clear_inv split: option.splits)

lemma handle_profile: "b_profile (fst (broadcast_listener_handle_dtmf cpy has_mod now g d b m)) = b_profile b"
  by (auto simp: broadcast_listener_handle_dtmf_def b_listener_match_controls_def dispatch_frame split: option.splits)

section \<open>Typing bound words\<close>

definition first_binding :: "control_binding list \<Rightarrow> string \<Rightarrow> control_binding option" where
  "first_binding bs w = find (\<lambda>bind. w = cb_digits bind) bs"

text \<open>Digits at most 1.5 s apart, none of them NUL.\<close>

fun in_time :: "(usec \<times> char) list \<Rightarrow> bool" where
  "in_time [] = True"
| "in_time [(t, d)] = (of_char d \<noteq> (0 :: nat))"
| "in_time ((t, d) # (t', d') # ds) = (of_char d \<noteq> (0 :: nat) \<and> t' - t \<le> 1500000 \<and> in_time ((t', d') # ds))"

definition prefix_free :: "control_binding list \<Rightarrow> bool" where
  "prefix_free bs = (\<forall>x \<in> set bs. \<forall>y \<in> set bs. \<not> strict_prefix (cb_digits x) (cb_digits y))"

text \<open>
  What typed words should do, each word a list of timed digits: for every word, at the time of its last
  digit, the action of its first binding among \<open>bs\<close>, on a member whose buffer is empty.
\<close>

fun dispatch_words ::
  "copy_string \<Rightarrow> (string \<Rightarrow> bool) \<Rightarrow> control_binding list \<Rightarrow> (usec \<times> char) list list \<Rightarrow> broadcast_obj \<Rightarrow> member_obj
    \<Rightarrow> broadcast_obj \<times> member_obj \<times> chan_call list" where
  "dispatch_words cpy has_mod bs [] b m = (b, m, [])"
| "dispatch_words cpy has_mod bs (v # vs) b m =
     (let now = fst (last v);
          (b, m, calls) = b_listener_dispatch_control cpy has_mod now b (m\<lparr>m_dtmf_buf := [], m_dtmf_buf_time_us := now\<rparr>)
            (the (find (\<lambda>bind. map snd v = cb_digits bind) bs));
          (b, m, calls') = dispatch_words cpy has_mod bs vs b m
      in (b, m, calls @ calls'))"

lemma in_time_head: "in_time ((t, d) # ds) \<Longrightarrow> of_char d \<noteq> (0 :: nat) \<and> in_time ds"
  by (cases ds) auto

lemma in_time_gap: "in_time ((t, d) # (t', d') # ds) \<Longrightarrow> t' - t \<le> 1500000"
  by simp

lemma in_time_rest: "in_time (v @ ds) \<Longrightarrow> in_time ds"
proof (induction v)
  case (Cons x v)
  obtain t d where "x = (t, d)" by (cases x)
  with Cons in_time_head [of t d "v @ ds"] show ?case by simp
qed simp

lemma append_buf:
  assumes "m_dtmf_buf m \<noteq> [] \<Longrightarrow> now - m_dtmf_buf_time_us m \<le> 1500000" "length (m_dtmf_buf m) < 15"
  shows "dtmf_append now d m = m\<lparr>m_dtmf_buf := m_dtmf_buf m @ [d], m_dtmf_buf_time_us := now\<rparr>"
  using assms by (cases "m_dtmf_buf m = []") (auto simp: dtmf_append_def Let_def)

lemma first_binding_bound: "w \<in> cb_digits ` set bs \<Longrightarrow> \<exists>bd. first_binding bs w = Some bd"
  by (induction bs) (auto simp: first_binding_def)

text \<open>
  Typing the rest \<open>v\<close> of a bound word \<open>w\<close> after \<open>u\<close>, where no binding is a proper prefix of \<open>w\<close>: its
  binding is dispatched at the last digit, and what follows is read from an empty buffer.
\<close>

lemma type_word:
  "(\<And>x. x \<in> set (control_bindings g b) \<Longrightarrow> \<not> strict_prefix (cb_digits x) w) \<Longrightarrow> first_binding (control_bindings g b) w = Some bd \<Longrightarrow>
   w = u @ map snd v \<Longrightarrow> v \<noteq> [] \<Longrightarrow> length w \<le> 15 \<Longrightarrow> m_dtmf_buf m = u \<Longrightarrow> in_time (v @ ds) \<Longrightarrow>
   (u \<noteq> [] \<longrightarrow> fst (hd v) - m_dtmf_buf_time_us m \<le> 1500000) \<Longrightarrow>
   dtmf_session cpy has_mod g (v @ ds) b m =
     (let now = fst (last v);
          (b, m, calls) = b_listener_dispatch_control cpy has_mod now b (m\<lparr>m_dtmf_buf := [], m_dtmf_buf_time_us := now\<rparr>) bd;
          (b, m, calls') = dtmf_session cpy has_mod g ds b m
      in (b, m, calls @ calls'))"
proof (induction v arbitrary: u m)
  case (Cons c v)
  obtain now d where c: "c = (now, d)" by (cases c)
  have nz: "of_char d \<noteq> (0 :: nat)" using in_time_head [of now d "v @ ds"] Cons.prems(7) c by simp
  have app: "dtmf_append now d m = m\<lparr>m_dtmf_buf := u @ [d], m_dtmf_buf_time_us := now\<rparr>"
    using Cons.prems(3,5,6,8) c by (subst append_buf) auto
  show ?case
  proof (cases "v = []")
    case True
    then have "u @ [d] = w" using Cons.prems(3) c by simp
    then have f: "find (\<lambda>bind. u @ [d] = cb_digits bind) (control_bindings g b) = Some bd"
      using Cons.prems(2) by (simp add: first_binding_def)
    have "(m\<lparr>m_dtmf_buf := u @ [d], m_dtmf_buf_time_us := now\<rparr>)\<lparr>m_dtmf_buf := []\<rparr> = m\<lparr>m_dtmf_buf := [], m_dtmf_buf_time_us := now\<rparr>"
      by (cases m) simp
    then have "broadcast_listener_handle_dtmf cpy has_mod now g d b m =
        b_listener_dispatch_control cpy has_mod now b (m\<lparr>m_dtmf_buf := [], m_dtmf_buf_time_us := now\<rparr>) bd"
      using nz f by (simp only: broadcast_listener_handle_dtmf_def b_listener_match_controls_def app if_False) simp
    then show ?thesis using True by (simp add: c)
  next
    case False
    let ?m = "m\<lparr>m_dtmf_buf := u @ [d], m_dtmf_buf_time_us := now\<rparr>"
    have "strict_prefix (u @ [d]) w" using Cons.prems(3) False c by (auto simp: strict_prefix_def)
    then have "find (\<lambda>bind. u @ [d] = cb_digits bind) (control_bindings g b) = None"
      using Cons.prems(1) unfolding find_None_iff by auto
    then have h: "broadcast_listener_handle_dtmf cpy has_mod now g d b m = (b, ?m, [])"
      using nz by (simp add: broadcast_listener_handle_dtmf_def b_listener_match_controls_def app)
    have gap: "fst (hd v) - now \<le> 1500000"
      using Cons.prems(7) c False by (cases v) (auto dest: in_time_gap)
    have it: "in_time (v @ ds)" using in_time_head [of now d "v @ ds"] Cons.prems(7) c by simp
    from Cons.IH [OF Cons.prems(1,2), of "u @ [d]" ?m] False Cons.prems(3,5) it gap
    show ?thesis by (simp add: c h split_beta Let_def)
  qed
qed simp

lemma type_words:
  "prefix_free (control_bindings g b) \<Longrightarrow>
   (\<forall>v \<in> set vs. v \<noteq> [] \<and> length v \<le> 15 \<and> map snd v \<in> cb_digits ` set (control_bindings g b)) \<Longrightarrow>
   m_dtmf_buf m = [] \<Longrightarrow> in_time (concat vs) \<Longrightarrow>
   dtmf_session cpy has_mod g (concat vs) b m = dispatch_words cpy has_mod (control_bindings g b) vs b m"
proof (induction vs arbitrary: b m)
  case (Cons v vs)
  let ?w = "map snd v" and ?now = "fst (last v)"
  have v: "v \<noteq> []" "length ?w \<le> 15" "?w \<in> cb_digits ` set (control_bindings g b)" using Cons.prems(2) by auto
  from first_binding_bound [OF v(3)] obtain bd where bd: "first_binding (control_bindings g b) ?w = Some bd" by blast
  obtain b1 m1 calls where d: "b_listener_dispatch_control cpy has_mod ?now b (m\<lparr>m_dtmf_buf := [], m_dtmf_buf_time_us := ?now\<rparr>) bd = (b1, m1, calls)"
    by (metis prod_cases3)
  have b1: "control_bindings g b1 = control_bindings g b" "m_dtmf_buf m1 = []"
    using dispatch_frame [of cpy has_mod ?now b "m\<lparr>m_dtmf_buf := [], m_dtmf_buf_time_us := ?now\<rparr>" bd]
    by (simp_all add: d control_bindings_def)
  have "dtmf_session cpy has_mod g (concat vs) b1 m1 = dispatch_words cpy has_mod (control_bindings g b1) vs b1 m1"
    by (rule Cons.IH) (use Cons.prems b1 in_time_rest in auto)
  moreover have "dtmf_session cpy has_mod g (v @ concat vs) b m =
     (let (b2, m2, calls') = dtmf_session cpy has_mod g (concat vs) b1 m1 in (b2, m2, calls @ calls'))"
    by (subst type_word [OF _ bd, of "[]"])
      (use Cons.prems v in \<open>auto simp: d prefix_free_def\<close>)
  ultimately show ?case using bd b1 by (simp add: d first_binding_def)
qed simp

section \<open>Examples\<close>

definition bind_of :: "string \<Rightarrow> bctl_action \<Rightarrow> control_binding" where
  "bind_of d a = \<lparr>cb_digits = d, cb_action = a, cb_arg = None\<rparr>"

definition star_globals :: "control_binding list \<Rightarrow> broadcast_globals" where
  "star_globals bs = initial_globals\<lparr>g_control_groups := [\<lparr>cg_name = ''default'', cg_bindings = bs\<rparr>]\<rparr>"

definition a_room :: broadcast_obj where
  "a_room = (zero_broadcast 8)\<lparr>b_profile := Some zero_profile\<rparr>"

lemma star_bindings: "control_bindings (star_globals bs) a_room = bs"
  by (simp add: control_bindings_def star_globals_def a_room_def zero_profile_def
      broadcast_config_find_controls_rdlocked_def)

section \<open>Theorems\<close>

text \<open>
  C34. However many digits a member sends, at whatever times: the accumulated digits always fit the
  sixteen-byte buffer with its terminator, the volume index stays within -12 and 12, both gains are
  unity exactly at index 0, and the energy threshold stays a multiple of 50 between 100 and 5000.
\<close>

theorem dtmf_session_bounds:
  assumes "controls_inv m" "dtmf_session cpy has_mod g ds b m = (b', m', calls)"
  shows "length (m_dtmf_buf m') \<le> 15 \<and> -12 \<le> m_vol_idx m' \<and> m_vol_idx m' \<le> 12
    \<and> (m_write_gain m' = GAIN_1_0 \<longleftrightarrow> m_vol_idx m' = 0) \<and> (m_read_gain m' = GAIN_1_0 \<longleftrightarrow> m_vol_idx m' = 0)
    \<and> 100 \<le> unat (m_energy_threshold m') \<and> unat (m_energy_threshold m') \<le> 5000 \<and> 50 dvd unat (m_energy_threshold m')"
proof -
  have "controls_inv (fst (snd (dtmf_session cpy has_mod g ds b m)))"
    using assms(1)
  proof (induction ds arbitrary: b m)
    case (Cons t ds)
    obtain now d where t: "t = (now, d)" by (cases t)
    show ?case
      using Cons.IH handle_inv [OF Cons.prems, of cpy has_mod now g d b]
      by (simp add: t case_prod_unfold Let_def)
  qed simp
  then show ?thesis using assms(2) by (simp add: controls_inv_def)
qed

theorem dtmf_session_bounds_witness:
  "\<exists>b' m' calls. dtmf_session cut_copy (\<lambda>s. True) (star_globals [bind_of ''1'' BCTL_ACTION_VOL_UP]) [(1, CHR ''1''), (2, CHR ''1'')]
      a_room (zero_member ''aa'') = (b', m', calls) \<and> -12 \<le> m_vol_idx m' \<and> m_vol_idx m' \<le> 12"
proof -
  have i: "controls_inv (zero_member ''aa'')" by (simp add: controls_inv_def zero_member_def)
  obtain b' m' calls where r: "dtmf_session cut_copy (\<lambda>s. True) (star_globals [bind_of ''1'' BCTL_ACTION_VOL_UP])
      [(1, CHR ''1''), (2, CHR ''1'')] a_room (zero_member ''aa'') = (b', m', calls)"
    by (metis surj_pair)
  with dtmf_session_bounds [OF i r] show ?thesis by blast
qed

text \<open>
  C25. In a group where no binding is a proper prefix of another, typing bound words one after the
  other (each digit at most 1.5 s after the one before, from an empty buffer) does to the broadcast, to
  the member and to the channel exactly what the actions of those words do, in order, each at the time of
  its word's last digit and once: a match clears the buffer, so controls work in quick succession.
\<close>

theorem typed_controls_fire:
  assumes "prefix_free (control_bindings g b)" "m_dtmf_buf m = []" "in_time (concat vs)"
    "\<forall>v \<in> set vs. v \<noteq> [] \<and> length v \<le> 15 \<and> map snd v \<in> cb_digits ` set (control_bindings g b)"
  shows "dtmf_session cpy has_mod g (concat vs) b m = dispatch_words cpy has_mod (control_bindings g b) vs b m"
  by (rule type_words [OF assms(1,4,2,3)])

theorem typed_controls_fire_witness:
  "dtmf_session cut_copy (\<lambda>s. True) (star_globals [bind_of ''*0'' BCTL_ACTION_VOL_UP, bind_of ''*5'' BCTL_ACTION_HANGUP])
      [(10, CHR ''*''), (20, CHR ''0''), (30, CHR ''*''), (40, CHR ''5'')] a_room (zero_member ''aa'')
    = (a_room, (zero_member ''aa'')\<lparr>m_dtmf_buf_time_us := 40, m_vol_idx := 1, m_write_gain := GAIN_1_1, m_read_gain := GAIN_1_1\<rparr>,
       [SetVariable ''broadcast_ended_by_self'' ''true'', SetVariable ''broadcast_left_reason'' ''self-hangup'', Hangup])"
proof -
  let ?bs = "[bind_of ''*0'' BCTL_ACTION_VOL_UP, bind_of ''*5'' BCTL_ACTION_HANGUP]"
  let ?vs = "[[(10, CHR ''*''), (20, CHR ''0'')], [(30, CHR ''*''), (40, CHR ''5'')]] :: (usec \<times> char) list list"
  have p: "prefix_free (control_bindings (star_globals ?bs) a_room)"
    unfolding star_bindings by (simp add: prefix_free_def bind_of_def)
  have w: "\<forall>v \<in> set ?vs. v \<noteq> [] \<and> length v \<le> 15 \<and> map snd v \<in> cb_digits ` set (control_bindings (star_globals ?bs) a_room)"
    unfolding star_bindings by (simp add: bind_of_def)
  have "dtmf_session cut_copy (\<lambda>s. True) (star_globals ?bs) (concat ?vs) a_room (zero_member ''aa'')
      = dispatch_words cut_copy (\<lambda>s. True) (control_bindings (star_globals ?bs) a_room) ?vs a_room (zero_member ''aa'')"
    by (rule typed_controls_fire [OF p _ _ w]) (simp_all add: zero_member_def)
  then show ?thesis unfolding star_bindings by (simp add: bind_of_def b_listener_dispatch_control_def set_gains_def zero_member_def)
qed

text \<open>
  A binding whose digits \<open>w\<close> are a proper prefix of another's shadows it: when the longer word is typed from an
  empty buffer the shorter binding is dispatched after the digits of \<open>w\<close>, and the other digits are read
  from an empty buffer, so that what they can match is shorter than the longer word.
\<close>

theorem prefix_binding_shadows:
  assumes "find (\<lambda>bind. map snd v = cb_digits bind) (control_bindings g b) = Some short"
    "\<forall>x \<in> set (control_bindings g b). \<not> strict_prefix (cb_digits x) (map snd v)"
    "v \<noteq> []" "length v \<le> 15" "m_dtmf_buf m = []" "in_time (v @ ds)"
    "b_listener_dispatch_control cpy has_mod (fst (last v)) b (m\<lparr>m_dtmf_buf := [], m_dtmf_buf_time_us := fst (last v)\<rparr>) short = (b1, m1, calls)"
  shows "m_dtmf_buf m1 = [] \<and> dtmf_session cpy has_mod g (v @ ds) b m =
     (case dtmf_session cpy has_mod g ds b1 m1 of (b2, m2, calls') \<Rightarrow> (b2, m2, calls @ calls'))"
proof
  show "m_dtmf_buf m1 = []"
    using dispatch_frame(2) [of cpy has_mod "fst (last v)" b "m\<lparr>m_dtmf_buf := [], m_dtmf_buf_time_us := fst (last v)\<rparr>" short]
    by (simp add: assms(7))
  show "dtmf_session cpy has_mod g (v @ ds) b m =
     (case dtmf_session cpy has_mod g ds b1 m1 of (b2, m2, calls') \<Rightarrow> (b2, m2, calls @ calls'))"
    using type_word [of g b "map snd v" short "[]" v m ds cpy has_mod] assms by (simp add: first_binding_def)
qed

theorem prefix_binding_shadows_witness:
  "snd (snd (dtmf_session cut_copy (\<lambda>s. True) (star_globals [bind_of ''1'' BCTL_ACTION_VOL_UP, bind_of ''12'' BCTL_ACTION_HANGUP])
      ([(10, CHR ''1'')] @ [(20, CHR ''2'')]) a_room (zero_member ''aa''))) = []"
proof -
  let ?bs = "[bind_of ''1'' BCTL_ACTION_VOL_UP, bind_of ''12'' BCTL_ACTION_HANGUP]"
  let ?m = "(zero_member ''aa'')\<lparr>m_dtmf_buf := [], m_dtmf_buf_time_us := 10\<rparr>"
  have b: "find (\<lambda>bind. map snd [(10 :: usec, CHR ''1'')] = cb_digits bind) (control_bindings (star_globals ?bs) a_room)
      = Some (bind_of ''1'' BCTL_ACTION_VOL_UP)"
    unfolding star_bindings by (simp add: bind_of_def)
  have n: "\<forall>x \<in> set (control_bindings (star_globals ?bs) a_room). \<not> strict_prefix (cb_digits x) (map snd [(10 :: usec, CHR ''1'')])"
    unfolding star_bindings by (simp add: bind_of_def)
  have d: "b_listener_dispatch_control cut_copy (\<lambda>s. True) (fst (last [(10 :: usec, CHR ''1'')])) a_room
      ((zero_member ''aa'')\<lparr>m_dtmf_buf := [], m_dtmf_buf_time_us := fst (last [(10 :: usec, CHR ''1'')])\<rparr>) (bind_of ''1'' BCTL_ACTION_VOL_UP)
      = (a_room, set_gains (?m\<lparr>m_vol_idx := 1\<rparr>), [])"
    by (simp add: b_listener_dispatch_control_def bind_of_def zero_member_def)
  have "dtmf_session cut_copy (\<lambda>s. True) (star_globals ?bs) ([(10, CHR ''1'')] @ [(20, CHR ''2'')]) a_room (zero_member ''aa'')
      = (case dtmf_session cut_copy (\<lambda>s. True) (star_globals ?bs) [(20, CHR ''2'')] a_room (set_gains (?m\<lparr>m_vol_idx := 1\<rparr>)) of
           (b2, m2, calls') \<Rightarrow> (b2, m2, [] @ calls'))"
    by (rule prefix_binding_shadows [OF b n _ _ _ _ d, THEN conjunct2]) (simp_all add: zero_member_def)
  also have "snd (snd \<dots>) = []"
    by (simp add: broadcast_listener_handle_dtmf_def b_listener_match_controls_def star_bindings dtmf_append_def set_gains_def
        zero_member_def bind_of_def split_beta)
  finally show ?thesis .
qed

end
