(* ===== verification/Listener_Loop.thy ===== *)
theory Listener_Loop
  imports Frame_Ring Controls
begin

text \<open>
  The output loop of a listener (\<open>broadcast_listener_run\<close>): an opening phase paced by reads of the
  session, then one frame per timer event, from the ring or silence. What the core answers at a tick
  is a record; what the other threads did while the listener waited is a function on the state.
\<close>

record lt_io =
  lt_ready :: bool
  lt_read_ok :: bool
  lt_latched :: bool
  lt_others :: "broadcast_obj \<times> member_obj \<Rightarrow> broadcast_obj \<times> member_obj"
  lt_dtmf :: "(usec \<times> char) list"
  lt_ready_again :: bool
  lt_resync_now :: usec
  lt_evt_now :: usec
  lt_volume :: "int \<Rightarrow> u8 list \<Rightarrow> u8 list"
  lt_advance_now :: usec
  lt_write_ok :: bool

text \<open>What a write hands to the session: the bytes, and the frame's byte and sample counts.\<close>

record out_frame =
  of_bytes :: "u8 list"
  of_datalen :: u32
  of_samples :: u32

section \<open>The frame of a tick\<close>

text \<open>Too far behind: step to the newest frame, count it, and report it at most once per second.\<close>

definition listener_resync :: "copy_string \<Rightarrow> lt_io \<Rightarrow> u64 \<Rightarrow> broadcast_obj \<Rightarrow> member_obj \<Rightarrow> broadcast_obj \<times> member_obj" where
  "listener_resync cpy io lag b m =
     (let m = m\<lparr>m_resync_count := m_resync_count m + 1\<rparr>;
          b = b\<lparr>b_stat_listener_resyncs := b_stat_listener_resyncs b + 1\<rparr>
      in if 1000000 < lt_resync_now io - m_last_resync_evt_us m then
           (broadcast_enqueue_event cpy (lt_evt_now io) b BEVT_LISTENER_RESYNC (m_id m) (Some (snprintf_u 24 (unat lag))),
            m\<lparr>m_last_resync_evt_us := lt_resync_now io\<rparr>)
         else (b, m))"

definition silence_buf :: "u8 list" where
  "silence_buf = replicate BROADCAST_MAX_FRAME_BYTES 0"

text \<open>The block that fills \<open>encode_scratch\<close> and moves \<open>consumer_seq\<close>.\<close>

definition listener_frame ::
  "copy_string \<Rightarrow> lt_io \<Rightarrow> u32 \<Rightarrow> broadcast_obj \<Rightarrow> member_obj \<Rightarrow> u8 list
    \<Rightarrow> (broadcast_obj \<times> member_obj \<times> u8 list \<times> u32 \<times> u32) option" where
  "listener_frame cpy io max_lag b m scratch =
     (let cs = m_consumer_seq m; pseq = b_producer_seq b in
      if cs < pseq then
        let ((b, m), cs) = (if u64_of max_lag < pseq - cs then (listener_resync cpy io (pseq - cs) b m, pseq - 1)
                            else ((b, m), cs))
        in (case ring_slot b cs of
              None \<Rightarrow> None
            | Some slot \<Rightarrow>
                if rf_seq slot = cs then
                  (case memcpy scratch (rf_data slot) (unat (rf_datalen slot)) of
                     None \<Rightarrow> None
                   | Some scratch \<Rightarrow> Some (b, m\<lparr>m_consumer_seq := cs + 1\<rparr>, scratch, rf_datalen slot, rf_samples slot))
                else
                  (case memcpy scratch silence_buf (unat (b_bytes_per_frame b)) of
                     None \<Rightarrow> None
                   | Some scratch \<Rightarrow> Some (b, m\<lparr>m_consumer_seq := pseq - 1 + 1\<rparr>, scratch, b_bytes_per_frame b, b_samples_per_frame b)))
      else
        (case memcpy scratch silence_buf (unat (b_bytes_per_frame b)) of
           None \<Rightarrow> None
         | Some scratch \<Rightarrow> Some (b, m, scratch, b_bytes_per_frame b, b_samples_per_frame b)))"

text \<open>The member's volume, over \<open>write_frame.samples\<close> 16-bit values.\<close>

definition listener_gain :: "lt_io \<Rightarrow> member_obj \<Rightarrow> u32 \<Rightarrow> u8 list \<Rightarrow> u8 list option" where
  "listener_gain io m samples scratch =
     (if m_write_gain m \<noteq> GAIN_1_0 then
        (if 2 * unat samples \<le> length scratch then
           (let scaled = lt_volume io (m_vol_idx m) (take (2 * unat samples) scratch) in memcpy scratch scaled (length scaled))
         else None)
      else Some scratch)"

section \<open>The loop\<close>

record lstate =
  ls_b :: broadcast_obj
  ls_m :: member_obj
  ls_nat_window :: bool
  ls_nat_ticks :: u32
  ls_scratch :: "u8 list"
  ls_sent :: "out_frame list"

definition nat_ticks_max :: "broadcast_obj \<Rightarrow> u32" where
  "nat_ticks_max b = (if b_interval_ms b \<noteq> 0 then 3000 div b_interval_ms b else 150)"

definition listener_max_lag :: "broadcast_obj \<Rightarrow> u32" where
  "listener_max_lag b =
     (case b_profile b of
        Some p \<Rightarrow> if p_max_lag_frames p \<noteq> 0 then p_max_lag_frames p else BROADCAST_DEFAULT_MAX_LAG_FRAMES
      | None \<Rightarrow> BROADCAST_DEFAULT_MAX_LAG_FRAMES)"

text \<open>What the other threads did while the listener waited.\<close>

definition listener_waited :: "lt_io \<Rightarrow> lstate \<Rightarrow> lstate" where
  "listener_waited io s = (let (b, m) = lt_others io (ls_b s, ls_m s) in s\<lparr>ls_b := b, ls_m := m\<rparr>)"

text \<open>The wait of a tick: a read of the session in the opening phase, the timer afterwards. \<open>None\<close>: the read failed and the loop ends.\<close>

definition listener_wait :: "lt_io \<Rightarrow> u32 \<Rightarrow> lstate \<Rightarrow> lstate option" where
  "listener_wait io max_ticks s =
     (let s = listener_waited io s
      in if ls_nat_window s then
           if \<not> lt_read_ok io then None
           else
             let ticks = ls_nat_ticks s + 1
             in Some (s\<lparr>ls_nat_ticks := ticks, ls_nat_window := \<not> (max_ticks \<le> ticks \<or> lt_latched io)\<rparr>)
         else Some s)"

datatype loop_end = Continue lstate | Break lstate

text \<open>One iteration, up to its \<open>break\<close>s. The outer \<open>None\<close> is an access outside a buffer.\<close>

definition listener_tick ::
  "copy_string \<Rightarrow> (string \<Rightarrow> bool) \<Rightarrow> broadcast_globals \<Rightarrow> u32 \<Rightarrow> u32 \<Rightarrow> lt_io \<Rightarrow> lstate \<Rightarrow> loop_end option" where
  "listener_tick cpy has_mod g max_lag max_ticks io s =
     (if \<not> has_flag (m_mflags (ls_m s)) MFLAG_RUNNING \<or> \<not> lt_ready io \<or> b_destroyed (ls_b s) then Some (Break s)
      else
        (case listener_wait io max_ticks s of
           None \<Rightarrow> Some (Break (listener_waited io s))
         | Some s \<Rightarrow>
             (case dtmf_session cpy has_mod g (lt_dtmf io) (ls_b s) (ls_m s) of (b, m, calls) \<Rightarrow>
                let s = s\<lparr>ls_b := b, ls_m := m\<rparr> in
                if has_flag (m_mflags m) MFLAG_KICKED \<or> \<not> has_flag (m_mflags m) MFLAG_RUNNING \<or> b_destroyed b
                   \<or> \<not> lt_ready_again io then Some (Break s)
                else
                  (case listener_frame cpy io max_lag b m (ls_scratch s) of
                     None \<Rightarrow> None
                   | Some (b, m, scratch, datalen, samples) \<Rightarrow>
                       (case listener_gain io m samples scratch of
                          None \<Rightarrow> None
                        | Some scratch \<Rightarrow>
                            let m = m\<lparr>m_last_seen_seq_advance := lt_advance_now io\<rparr>;
                                s = s\<lparr>ls_b := b, ls_m := m, ls_scratch := scratch,
                                      ls_sent := ls_sent s @ [\<lparr>of_bytes = take (unat datalen) scratch, of_datalen = datalen,
                                                               of_samples = samples\<rparr>]\<rparr>
                            in Some (if lt_write_ok io then Continue s else Break s))))))"

fun listener_loop ::
  "copy_string \<Rightarrow> (string \<Rightarrow> bool) \<Rightarrow> broadcast_globals \<Rightarrow> u32 \<Rightarrow> u32 \<Rightarrow> lt_io list \<Rightarrow> lstate \<Rightarrow> loop_end option" where
  "listener_loop cpy has_mod g max_lag max_ticks [] s = Some (Continue s)"
| "listener_loop cpy has_mod g max_lag max_ticks (io # ios) s =
     (case listener_tick cpy has_mod g max_lag max_ticks io s of
        None \<Rightarrow> None
      | Some (Continue s) \<Rightarrow> listener_loop cpy has_mod g max_lag max_ticks ios s
      | Some (Break s) \<Rightarrow> Some (Break s))"

definition listener_leave :: "lstate \<Rightarrow> lstate" where
  "listener_leave s =
     s\<lparr>ls_m := (ls_m s)\<lparr>m_mflags := clr_flag (m_mflags (ls_m s)) MFLAG_RUNNING, m_in_listener_bridge := False\<rparr>\<rparr>"

text \<open>\<open>broadcast_listener_run\<close> over a list of ticks: still in the loop after them (\<open>Continue\<close>), or returned.\<close>

definition broadcast_listener_run ::
  "copy_string \<Rightarrow> (string \<Rightarrow> bool) \<Rightarrow> broadcast_globals \<Rightarrow> switch_status \<Rightarrow> switch_status \<Rightarrow> u8 list \<Rightarrow> lt_io list
    \<Rightarrow> broadcast_obj \<Rightarrow> member_obj \<Rightarrow> loop_end option" where
  "broadcast_listener_run cpy has_mod g timer soft scratch ios b m =
     (let m = m\<lparr>m_in_listener_bridge := True\<rparr>;
          s = \<lparr>ls_b = b, ls_m = m, ls_nat_window = True, ls_nat_ticks = 0, ls_scratch = scratch, ls_sent = []\<rparr>
      in if timer \<noteq> ST_SUCCESS \<and> soft \<noteq> ST_SUCCESS then Some (Break s)
         else
           (case listener_loop cpy has_mod g (listener_max_lag b) (nat_ticks_max b) ios s of
              None \<Rightarrow> None
            | Some (Continue s) \<Rightarrow> Some (Continue s)
            | Some (Break s) \<Rightarrow> Some (Break (listener_leave s))))"

section \<open>Lemmas\<close>

text \<open>Frames of the broadcast's own format: what the producer publishes (see the producer's theorems).\<close>

definition own_frames :: "broadcast_obj \<Rightarrow> ring_frame list \<Rightarrow> bool" where
  "own_frames b h = (\<forall>f \<in> set h. rf_datalen f = b_bytes_per_frame b \<and> rf_samples f = b_samples_per_frame b
     \<and> length (rf_data f) = BROADCAST_MAX_FRAME_BYTES)"

lemma resync_frame:
  "b_ring (fst (listener_resync cpy io lag b m)) = b_ring b" "b_ring_size (fst (listener_resync cpy io lag b m)) = b_ring_size b"
  "b_producer_seq (fst (listener_resync cpy io lag b m)) = b_producer_seq b"
  "b_bytes_per_frame (fst (listener_resync cpy io lag b m)) = b_bytes_per_frame b"
  "b_samples_per_frame (fst (listener_resync cpy io lag b m)) = b_samples_per_frame b"
  "m_resync_count (snd (listener_resync cpy io lag b m)) = m_resync_count m + 1"
  "m_write_gain (snd (listener_resync cpy io lag b m)) = m_write_gain m" "m_vol_idx (snd (listener_resync cpy io lag b m)) = m_vol_idx m"
  by (simp_all add: listener_resync_def Let_def)

lemma ring_slot_cong: "b_ring b' = b_ring b \<Longrightarrow> b_ring_size b' = b_ring_size b \<Longrightarrow> ring_slot b' s = ring_slot b s"
  by (simp add: ring_slot_def Let_def)

text \<open>The bytes of a tick, before the volume.\<close>

definition tick_bytes :: "broadcast_obj \<Rightarrow> ring_frame option \<Rightarrow> u8 list" where
  "tick_bytes b f = (case f of Some x \<Rightarrow> take (unat (b_bytes_per_frame b)) (rf_data x)
     | None \<Rightarrow> replicate (unat (b_bytes_per_frame b)) 0)"

lemma memcpy_at:
  "length scratch = BROADCAST_MAX_FRAME_BYTES \<Longrightarrow> length src = BROADCAST_MAX_FRAME_BYTES \<Longrightarrow> n \<le> BROADCAST_MAX_FRAME_BYTES \<Longrightarrow>
   \<exists>d. memcpy scratch src n = Some d \<and> length d = BROADCAST_MAX_FRAME_BYTES \<and> take n d = take n src"
  by (simp add: memcpy_def)

lemma listener_frame_cursor:
  assumes "ring_hist b h" "unat (m_consumer_seq m) \<le> length h" "own_frames b h"
    "length scratch = BROADCAST_MAX_FRAME_BYTES" "unat (b_bytes_per_frame b) \<le> BROADCAST_MAX_FRAME_BYTES"
    "listener_cursor b max_lag (m_consumer_seq m) = (f, cs', lag)"
  shows "\<exists>b' m' d. listener_frame cpy io max_lag b m scratch = Some (b', m', d, b_bytes_per_frame b, b_samples_per_frame b)
    \<and> length d = BROADCAST_MAX_FRAME_BYTES \<and> take (unat (b_bytes_per_frame b)) d = tick_bytes b f
    \<and> m_consumer_seq m' = cs' \<and> m_resync_count m' = (if lag = None then m_resync_count m else m_resync_count m + 1)
    \<and> m_write_gain m' = m_write_gain m \<and> m_vol_idx m' = m_vol_idx m
    \<and> b_ring b' = b_ring b \<and> b_ring_size b' = b_ring_size b \<and> b_producer_seq b' = b_producer_seq b"
proof -
  let ?n = "unat (b_bytes_per_frame b)" and ?cs = "m_consumer_seq m" and ?pseq = "b_producer_seq b"
  obtain z where z: "memcpy scratch silence_buf ?n = Some z" "length z = BROADCAST_MAX_FRAME_BYTES" "take ?n z = replicate ?n 0"
    using memcpy_at [OF assms(4) _ assms(5), of silence_buf] assms(5) by (auto simp: silence_buf_def)
  have cop: "\<exists>d. memcpy scratch (rf_data x) (unat (rf_datalen x)) = Some d \<and> length d = BROADCAST_MAX_FRAME_BYTES
      \<and> take ?n d = tick_bytes b (Some x) \<and> rf_datalen x = b_bytes_per_frame b \<and> rf_samples x = b_samples_per_frame b"
    if "x \<in> set h" for x
    using assms(3) that memcpy_at [OF assms(4) _ assms(5), of "rf_data x"] by (auto simp: own_frames_def tick_bytes_def)
  show ?thesis
  proof (cases "?cs < ?pseq")
    case False
    then have "f = None" "cs' = ?cs" "lag = None" using assms(6) by (simp_all add: listener_cursor_def cursor_step_def)
    then show ?thesis using False z by (simp add: listener_frame_def Let_def tick_bytes_def)
  next
    case True
    define r where "r = (if u64_of max_lag < ?pseq - ?cs then (listener_resync cpy io (?pseq - ?cs) b m, ?pseq - 1) else ((b, m), ?cs))"
    obtain b1 m1 c where r': "r = ((b1, m1), c)" by (cases r) auto
    have b1: "b_ring b1 = b_ring b" "b_ring_size b1 = b_ring_size b" "b_producer_seq b1 = ?pseq"
      "b_bytes_per_frame b1 = b_bytes_per_frame b" "b_samples_per_frame b1 = b_samples_per_frame b"
      "m_write_gain m1 = m_write_gain m" "m_vol_idx m1 = m_vol_idx m"
      "m_resync_count m1 = (if u64_of max_lag < ?pseq - ?cs then m_resync_count m + 1 else m_resync_count m)"
      "c = (if u64_of max_lag < ?pseq - ?cs then ?pseq - 1 else ?cs)"
      using r' resync_frame [of cpy io "?pseq - ?cs" b m] by (auto simp: r_def split: if_splits)
    have look: "ring_lookup b1 c = ring_lookup b c" "ring_slot b1 c = ring_slot b c"
      using ring_slot_cong [OF b1(1,2)] by (simp_all add: ring_lookup_def)
    have cur: "(f, cs', lag) = (case ring_lookup b c of
        Some x \<Rightarrow> (Some x, c + 1, if u64_of max_lag < ?pseq - ?cs then Some (?pseq - ?cs) else None)
      | None \<Rightarrow> (None, ?pseq - 1 + 1, if u64_of max_lag < ?pseq - ?cs then Some (?pseq - ?cs) else None))"
      using assms(6) True b1(9) by (auto simp: listener_cursor_def cursor_step_def Let_def)
    obtain slot where slot: "ring_slot b c = Some slot" using ring_slot_in(1) [OF assms(1)] by blast
    have lf: "listener_frame cpy io max_lag b m scratch =
        (if rf_seq slot = c then
           (case memcpy scratch (rf_data slot) (unat (rf_datalen slot)) of None \<Rightarrow> None
            | Some scratch \<Rightarrow> Some (b1, m1\<lparr>m_consumer_seq := c + 1\<rparr>, scratch, rf_datalen slot, rf_samples slot))
         else
           (case memcpy scratch silence_buf (unat (b_bytes_per_frame b1)) of None \<Rightarrow> None
            | Some scratch \<Rightarrow> Some (b1, m1\<lparr>m_consumer_seq := ?pseq - 1 + 1\<rparr>, scratch, b_bytes_per_frame b1, b_samples_per_frame b1)))"
      using True r' slot look(2) unfolding listener_frame_def Let_def r_def [symmetric] by simp
    show ?thesis
    proof (cases "rf_seq slot = c")
      case hit: True
      then have lk: "ring_lookup b c = Some slot" using slot by (simp add: ring_lookup_def)
      have cb: "cursor_step (ring_lookup b) ?pseq max_lag ?cs = (f, cs', lag)" using assms(6) by (simp add: listener_cursor_def)
      have "f = Some slot" using cur lk by simp
      then have "slot \<in> set h"
        using mring.cursor_props(3) [OF assms(1,2) cb, of slot] by auto
      from cop [OF this] obtain d where "memcpy scratch (rf_data slot) (unat (rf_datalen slot)) = Some d"
        "length d = BROADCAST_MAX_FRAME_BYTES" "take ?n d = tick_bytes b (Some slot)" "rf_datalen slot = b_bytes_per_frame b"
        "rf_samples slot = b_samples_per_frame b" by blast
      with lf hit cur lk b1 show ?thesis by (simp split: if_splits)
    next
      case miss: False
      then have "ring_lookup b c = None" using slot by (simp add: ring_lookup_def)
      with lf miss cur b1 z show ?thesis by (simp add: tick_bytes_def split: if_splits)
    qed
  qed
qed

text \<open>The opening phase: as long as it lasts, every tick is counted and the count is below the limit.\<close>

lemma tick_window:
  assumes "listener_tick cpy has_mod g ml mt io s = Some (Continue s')"
  shows "ls_nat_window s' \<Longrightarrow> ls_nat_window s \<and> ls_nat_ticks s' = ls_nat_ticks s + 1 \<and> ls_nat_ticks s' < mt"
proof -
  obtain s1 where w: "listener_wait io mt s = Some s1" and same: "ls_nat_window s' = ls_nat_window s1" "ls_nat_ticks s' = ls_nat_ticks s1"
    using assms by (auto simp: listener_tick_def Let_def split: if_splits option.splits prod.splits)
  assume "ls_nat_window s'"
  with same have "ls_nat_window s1" by simp
  with w same show "ls_nat_window s \<and> ls_nat_ticks s' = ls_nat_ticks s + 1 \<and> ls_nat_ticks s' < mt"
    by (auto simp: listener_wait_def listener_waited_def Let_def not_le split: if_splits prod.splits)
qed

lemma window_back: "listener_loop cpy has_mod g ml mt ios s = Some (Continue s') \<Longrightarrow> ls_nat_window s' \<Longrightarrow> ls_nat_window s"
  by (induction ios arbitrary: s) (auto split: option.splits loop_end.splits dest: tick_window)

lemma loop_window:
  "listener_loop cpy has_mod g ml mt ios s = Some (Continue s') \<Longrightarrow> ls_nat_window s' \<Longrightarrow>
   unat (ls_nat_ticks s) + length ios < 2 ^ 32 \<Longrightarrow>
   ls_nat_window s \<and> unat (ls_nat_ticks s') = unat (ls_nat_ticks s) + length ios \<and> (ios \<noteq> [] \<longrightarrow> ls_nat_ticks s' < mt)"
proof (induction ios arbitrary: s)
  case (Cons io ios)
  then obtain s1 where s1: "listener_tick cpy has_mod g ml mt io s = Some (Continue s1)"
    "listener_loop cpy has_mod g ml mt ios s1 = Some (Continue s')"
    by (auto split: option.splits loop_end.splits)
  have "ls_nat_window s1" by (rule window_back [OF s1(2) Cons.prems(2)])
  note tw = tick_window [OF s1(1) this]
  then have "unat (ls_nat_ticks s1) = Suc (unat (ls_nat_ticks s))"
    using Cons.prems(3) by (simp add: unat_inc32)
  with tw Cons.IH [OF s1(2) Cons.prems(2)] Cons.prems(3) s1(2) show ?case by (cases ios) auto
qed simp

section \<open>Examples\<close>

definition plain_io :: lt_io where
  "plain_io = \<lparr>lt_ready = True, lt_read_ok = True, lt_latched = False, lt_others = (\<lambda>s. s), lt_dtmf = [],
     lt_ready_again = True, lt_resync_now = 0, lt_evt_now = 0, lt_volume = (\<lambda>v bs. map (\<lambda>x. x + 1) bs),
     lt_advance_now = 0, lt_write_ok = True\<rparr>"

definition hall :: broadcast_obj where
  "hall = full_four\<lparr>b_bytes_per_frame := 0, b_samples_per_frame := 0, b_interval_ms := 20\<rparr>"

lemma hall_ring: "ring_hist hall full_four_hist"
  using full_four_ring by (simp add: ring_hist_def hall_def)

lemma hall_own: "own_frames hall full_four_hist"
  by (auto simp: own_frames_def hall_def full_four_hist_def zero_slot_def)

definition visitor :: member_obj where
  "visitor = (zero_member ''bb'')\<lparr>m_mflags := MFLAG_RUNNING, m_consumer_seq := 2\<rparr>"

definition hall_state :: lstate where
  "hall_state = \<lparr>ls_b = hall, ls_m = visitor, ls_nat_window = False, ls_nat_ticks = 0,
     ls_scratch = replicate BROADCAST_MAX_FRAME_BYTES 9, ls_sent = []\<rparr>"

section \<open>Theorems\<close>

text \<open>
  C15. One iteration of the listener's loop that reaches the write: it stays in its buffers, hands the
  session exactly one frame of \<open>bytes_per_frame\<close> bytes, which is the ring's frame or silence as
  \<open>listener_cursor\<close> decides (with the member's volume applied when its gain is not unity), and moves
  the member's position to where \<open>listener_cursor\<close> says; a resync is counted on the member.
\<close>

theorem listener_tick_sends:
  assumes "has_flag (m_mflags (ls_m s)) MFLAG_RUNNING" "lt_ready io" "\<not> b_destroyed (ls_b s)"
    "listener_wait io max_ticks s = Some s1"
    "dtmf_session cpy has_mod g (lt_dtmf io) (ls_b s1) (ls_m s1) = (b, m, calls)"
    "\<not> has_flag (m_mflags m) MFLAG_KICKED" "has_flag (m_mflags m) MFLAG_RUNNING" "\<not> b_destroyed b" "lt_ready_again io"
    "ring_hist b h" "unat (m_consumer_seq m) \<le> length h" "own_frames b h"
    "length (ls_scratch s1) = BROADCAST_MAX_FRAME_BYTES" "unat (b_bytes_per_frame b) \<le> BROADCAST_MAX_FRAME_BYTES"
    "2 * unat (b_samples_per_frame b) \<le> unat (b_bytes_per_frame b)"
    "\<forall>v bs. length (lt_volume io v bs) = length bs"
    "listener_cursor b max_lag (m_consumer_seq m) = (f, cs', lag)"
  shows "\<exists>s'. listener_tick cpy has_mod g max_lag max_ticks io s = Some (if lt_write_ok io then Continue s' else Break s')
    \<and> length (ls_scratch s') = BROADCAST_MAX_FRAME_BYTES
    \<and> ls_sent s' = ls_sent s1 @ [\<lparr>of_bytes =
          (let raw = tick_bytes b f; n = 2 * unat (b_samples_per_frame b)
           in if m_write_gain m = GAIN_1_0 then raw else lt_volume io (m_vol_idx m) (take n raw) @ drop n raw),
        of_datalen = b_bytes_per_frame b, of_samples = b_samples_per_frame b\<rparr>]
    \<and> m_consumer_seq (ls_m s') = cs'
    \<and> m_resync_count (ls_m s') = (if lag = None then m_resync_count m else m_resync_count m + 1)"
proof -
  let ?N = "unat (b_bytes_per_frame b)" and ?n = "2 * unat (b_samples_per_frame b)"
  obtain b' m' d where lf: "listener_frame cpy io max_lag b m (ls_scratch s1) =
      Some (b', m', d, b_bytes_per_frame b, b_samples_per_frame b)"
    "length d = BROADCAST_MAX_FRAME_BYTES" "take ?N d = tick_bytes b f" "m_consumer_seq m' = cs'"
    "m_resync_count m' = (if lag = None then m_resync_count m else m_resync_count m + 1)"
    "m_write_gain m' = m_write_gain m" "m_vol_idx m' = m_vol_idx m"
    using listener_frame_cursor [OF assms(10-14,17), of cpy io] by (elim exE conjE) (rule that)
  let ?out = "if m_write_gain m = GAIN_1_0 then d else lt_volume io (m_vol_idx m) (take ?n d) @ drop ?n d"
  have nN: "?n \<le> BROADCAST_MAX_FRAME_BYTES" using assms(14,15) by linarith
  then have vl: "length (lt_volume io (m_vol_idx m) (take ?n d)) = ?n" using assms(16) lf(2) by simp
  have lg: "listener_gain io m' (b_samples_per_frame b) d = Some ?out"
    using vl nN lf(2,6,7) by (simp add: listener_gain_def memcpy_def Let_def)
  have lo: "length ?out = BROADCAST_MAX_FRAME_BYTES" using vl nN lf(2) by simp
  have raw: "take ?N ?out = (let raw = tick_bytes b f
      in if m_write_gain m = GAIN_1_0 then raw else lt_volume io (m_vol_idx m) (take ?n raw) @ drop ?n raw)"
    using vl assms(15) lf(2) by (simp add: lf(3) [symmetric] Let_def drop_take min_def)
  show ?thesis
    using assms(1-9) lf lg lo raw
    by (intro exI [of _ "s1\<lparr>ls_b := b', ls_m := m'\<lparr>m_last_seen_seq_advance := lt_advance_now io\<rparr>, ls_scratch := ?out,
        ls_sent := ls_sent s1 @ [\<lparr>of_bytes = take ?N ?out, of_datalen = b_bytes_per_frame b, of_samples = b_samples_per_frame b\<rparr>]\<rparr>"])
      (simp add: listener_tick_def Let_def)
qed

theorem listener_tick_sends_witness:
  "\<exists>s'. listener_tick cut_copy (\<lambda>m. False) initial_globals 10 150 plain_io hall_state = Some (Continue s')
    \<and> m_consumer_seq (ls_m s') = 3"
proof -
  have c: "listener_cursor hall 10 (m_consumer_seq visitor) = (Some (full_four_hist ! 2), 3, None)"
    using listener_cursor_cases [OF hall_ring, of 2 10]
    by (simp add: visitor_def full_four_hist_def ring_len_def hall_def full_four_def four_slots_def)
  have w: "listener_wait plain_io 150 hall_state = Some hall_state"
    by (simp add: listener_wait_def listener_waited_def plain_io_def hall_state_def)
  have d: "dtmf_session cut_copy (\<lambda>m. False) initial_globals (lt_dtmf plain_io) (ls_b hall_state) (ls_m hall_state) = (hall, visitor, [])"
    by (simp add: plain_io_def hall_state_def)
  have "\<exists>s'. listener_tick cut_copy (\<lambda>m. False) initial_globals 10 150 plain_io hall_state
      = Some (if lt_write_ok plain_io then Continue s' else Break s')
    \<and> length (ls_scratch s') = BROADCAST_MAX_FRAME_BYTES
    \<and> ls_sent s' = ls_sent hall_state @ [\<lparr>of_bytes =
          (let raw = tick_bytes hall (Some (full_four_hist ! 2)); n = 2 * unat (b_samples_per_frame hall)
           in if m_write_gain visitor = GAIN_1_0 then raw else lt_volume plain_io (m_vol_idx visitor) (take n raw) @ drop n raw),
        of_datalen = b_bytes_per_frame hall, of_samples = b_samples_per_frame hall\<rparr>]
    \<and> m_consumer_seq (ls_m s') = 3
    \<and> m_resync_count (ls_m s') = (if (None :: u64 option) = None then m_resync_count visitor else m_resync_count visitor + 1)"
    by (rule listener_tick_sends [OF _ _ _ w d _ _ _ _ hall_ring _ hall_own _ _ _ _ c])
      (simp_all add: plain_io_def hall_state_def visitor_def hall_def full_four_def four_slots_def zero_broadcast_def
        full_four_hist_def flag_simps)
  then show ?thesis by (auto simp: plain_io_def)
qed

text \<open>
  The member's volume is applied to \<open>samples_per_frame\<close> 16-bit values only: of a stereo frame
  (twice as many values) the second half is sent as it came from the ring, at whatever volume.
\<close>

theorem stereo_volume_half:
  assumes "m_write_gain m \<noteq> GAIN_1_0" "\<forall>v bs. length (lt_volume io v bs) = length bs"
    "length scratch = BROADCAST_MAX_FRAME_BYTES" "unat (b_bytes_per_frame b) = unat (b_samples_per_frame b) * 2 * 2"
    "unat (b_bytes_per_frame b) \<le> BROADCAST_MAX_FRAME_BYTES"
  shows "\<exists>out. listener_gain io m (b_samples_per_frame b) scratch = Some out
    \<and> take (unat (b_bytes_per_frame b)) out =
        lt_volume io (m_vol_idx m) (take (unat (b_bytes_per_frame b) div 2) scratch)
        @ drop (unat (b_bytes_per_frame b) div 2) (take (unat (b_bytes_per_frame b)) scratch)"
proof -
  let ?n = "2 * unat (b_samples_per_frame b)"
  have h: "unat (b_bytes_per_frame b) div 2 = ?n" "unat (b_bytes_per_frame b) = ?n + ?n" using assms(4) by simp_all
  have n: "?n \<le> length scratch" using assms(3,5) h(2) by linarith
  then have "length (lt_volume io (m_vol_idx m) (take ?n scratch)) = ?n" using assms(2) by simp
  then show ?thesis
    using assms(1) n by (simp add: listener_gain_def memcpy_def Let_def h drop_take)
qed

theorem stereo_volume_half_witness:
  "\<exists>out. listener_gain plain_io (visitor\<lparr>m_vol_idx := 3, m_write_gain := GAIN_1_1\<rparr>) 160 (replicate BROADCAST_MAX_FRAME_BYTES 7) = Some out
    \<and> take 640 out = replicate 320 8 @ replicate 320 7"
proof -
  let ?b = "hall\<lparr>b_bytes_per_frame := 640, b_samples_per_frame := 160\<rparr>"
  have "\<forall>v bs. length (lt_volume plain_io v bs) = length bs" by (simp add: plain_io_def)
  then show ?thesis
    using stereo_volume_half [of "visitor\<lparr>m_vol_idx := 3, m_write_gain := GAIN_1_1\<rparr>" plain_io "replicate BROADCAST_MAX_FRAME_BYTES 7" ?b]
    by (simp add: BROADCAST_MAX_FRAME_BYTES_def plain_io_def)
qed

text \<open>
  When the loop ends for whatever reason, the member is no longer running and no longer marked as
  being in the loop; but when neither timer can be initialised the function returns with
  \<open>in_listener_bridge\<close> still set and the running flag as it was.
\<close>

theorem listener_run_exit:
  assumes "broadcast_listener_run cpy has_mod g timer soft scratch ios b m = Some (Break s)"
  shows "(if timer \<noteq> ST_SUCCESS \<and> soft \<noteq> ST_SUCCESS
     then m_in_listener_bridge (ls_m s) \<and> m_mflags (ls_m s) = m_mflags m \<and> ls_sent s = []
     else \<not> m_in_listener_bridge (ls_m s) \<and> \<not> has_flag (m_mflags (ls_m s)) MFLAG_RUNNING)"
proof (cases "timer \<noteq> ST_SUCCESS \<and> soft \<noteq> ST_SUCCESS")
  case True
  with assms show ?thesis by (auto simp: broadcast_listener_run_def)
next
  case False
  have "\<exists>s0. s = listener_leave s0"
    using assms unfolding broadcast_listener_run_def Let_def if_not_P [OF False]
    by (auto split: option.splits loop_end.splits)
  then show ?thesis unfolding if_not_P [OF False] by (auto simp: listener_leave_def flag_simps)
qed

theorem listener_run_exit_witness:
  "\<exists>s. broadcast_listener_run cut_copy (\<lambda>m. False) initial_globals ST_FALSE ST_FALSE [] [] hall visitor = Some (Break s)
    \<and> m_in_listener_bridge (ls_m s)"
proof -
  obtain s where s: "broadcast_listener_run cut_copy (\<lambda>m. False) initial_globals ST_FALSE ST_FALSE [] [] hall visitor = Some (Break s)"
    by (simp add: broadcast_listener_run_def)
  with listener_run_exit [OF s] show ?thesis by simp
qed

text \<open>
  The opening phase ends: a listener still in its loop after \<open>max(1, 3000 / interval_ms)\<close> ticks
  (150 for a zero interval) has left it for good, whatever the session reads gave.
\<close>

theorem nat_window_bounded:
  assumes "broadcast_listener_run cpy has_mod g timer soft scratch ios b m = Some (Continue s)"
    "max 1 (unat (nat_ticks_max b)) \<le> length ios" "length ios < 2 ^ 32"
  shows "\<not> ls_nat_window s"
proof
  assume w: "ls_nat_window s"
  let ?m = "m\<lparr>m_in_listener_bridge := True\<rparr>"
  let ?s = "\<lparr>ls_b = b, ls_m = ?m, ls_nat_window = True, ls_nat_ticks = 0, ls_scratch = scratch, ls_sent = []\<rparr>"
  have "\<not> (timer \<noteq> ST_SUCCESS \<and> soft \<noteq> ST_SUCCESS)"
    using assms(1) by (auto simp: broadcast_listener_run_def Let_def split: if_splits)
  then have "listener_loop cpy has_mod g (listener_max_lag b) (nat_ticks_max b) ios ?s = Some (Continue s)"
    using assms(1) by (auto simp: broadcast_listener_run_def Let_def split: option.splits loop_end.splits)
  from loop_window [OF this w] assms(2,3) have
    "unat (ls_nat_ticks s) = length ios" "ls_nat_ticks s < nat_ticks_max b" by auto
  with assms(2) show False by (simp add: word_less_nat_alt)
qed

theorem nat_window_bounded_witness:
  "\<exists>s. broadcast_listener_run cut_copy (\<lambda>m. False) initial_globals ST_SUCCESS ST_SUCCESS (replicate BROADCAST_MAX_FRAME_BYTES 0)
      [plain_io] (hall\<lparr>b_interval_ms := 3000\<rparr>) visitor = Some (Continue s) \<and> \<not> ls_nat_window s"
proof -
  let ?b = "hall\<lparr>b_interval_ms := 3000\<rparr>"
  obtain s where s: "broadcast_listener_run cut_copy (\<lambda>m. False) initial_globals ST_SUCCESS ST_SUCCESS
      (replicate BROADCAST_MAX_FRAME_BYTES 0) [plain_io] ?b visitor = Some (Continue s)"
    by (simp add: broadcast_listener_run_def Let_def listener_tick_def listener_wait_def listener_waited_def plain_io_def visitor_def hall_def
        full_four_def full_four_hist_def four_slots_def zero_broadcast_def zero_slot_def nat_ticks_max_def listener_max_lag_def
        listener_frame_def listener_gain_def ring_slot_def memcpy_def u64_of_def zero_member_def flag_simps BROADCAST_DEFAULT_MAX_LAG_FRAMES_def)
  moreover have "nat_ticks_max ?b = 1" by (simp add: nat_ticks_max_def)
  ultimately show ?thesis using nat_window_bounded [OF s] by simp
qed

end
