(* ===== verification/Speaker.thy ===== *)
theory Speaker
  imports Listener_List Controls
begin

text \<open>
  The speaker's side (broadcast_speaker.c) and the preparation of a member's codecs and buffer
  (broadcast_member.c): installing and clearing the speaker, promotion of a listener, the input thread
  with its talk detection, and the wait loop of the speaker's session thread. The lifetime protocol
  of the speaker pointer is a step relation at the end.
\<close>

section \<open>Codecs, buffer and input thread of a member\<close>

text \<open>Outcomes of the core's codec, mutex, buffer and thread creation.\<close>

record prep_io =
  pi_write_codec :: bool
  pi_read_codec :: bool
  pi_mutex :: bool
  pi_buffer :: switch_status
  pi_thread :: switch_status

definition broadcast_member_prepare :: "prep_io \<Rightarrow> bmember_role \<Rightarrow> member_obj \<Rightarrow> switch_status \<times> member_obj" where
  "broadcast_member_prepare io role m =
     (let m = m\<lparr>m_role := role, m_write_gain := GAIN_1_0, m_read_gain := GAIN_1_0, m_vol_idx := 0\<rparr> in
      if \<not> m_session m \<or> \<not> m_channel m then (ST_FALSE, m)
      else if \<not> pi_write_codec io then (ST_FALSE, m)
      else
        let m = m\<lparr>m_write_codec := True\<rparr> in
        if role = BMEMBER_ROLE_SPEAKER then
          if \<not> pi_read_codec io then (ST_FALSE, m\<lparr>m_write_codec := False\<rparr>)
          else
            let m = m\<lparr>m_read_codec := True, m_audio_in_mutex := True\<rparr> in
            if pi_buffer io \<noteq> ST_SUCCESS then (pi_buffer io, m\<lparr>m_read_codec := False, m_write_codec := False\<rparr>)
            else (ST_SUCCESS, m\<lparr>m_audio_buffer := Some [], m_energy_threshold := 500\<rparr>)
        else (ST_SUCCESS, m\<lparr>m_energy_threshold := 500\<rparr>))"

definition broadcast_member_ensure_speaker_audio :: "prep_io \<Rightarrow> member_obj \<Rightarrow> switch_status \<times> member_obj" where
  "broadcast_member_ensure_speaker_audio io m =
     (if \<not> m_pool m \<or> \<not> m_session m then (ST_FALSE, m)
      else if m_audio_buffer m \<noteq> None \<and> m_audio_in_mutex m then (ST_SUCCESS, m)
      else if \<not> m_read_codec m \<and> \<not> pi_read_codec io then (ST_FALSE, m)
      else
        let m = m\<lparr>m_read_codec := True\<rparr> in
        if \<not> m_audio_in_mutex m \<and> \<not> pi_mutex io then (ST_FALSE, m)
        else
          let m = m\<lparr>m_audio_in_mutex := True\<rparr> in
          if m_audio_buffer m = None then
            if pi_buffer io \<noteq> ST_SUCCESS then (pi_buffer io, m) else (ST_SUCCESS, m\<lparr>m_audio_buffer := Some []\<rparr>)
          else (ST_SUCCESS, m))"

definition broadcast_member_cleanup_codecs :: "member_obj \<Rightarrow> member_obj" where
  "broadcast_member_cleanup_codecs m = m\<lparr>m_read_codec := False, m_write_codec := False\<rparr>"

definition broadcast_speaker_start_input :: "prep_io \<Rightarrow> member_obj \<Rightarrow> switch_status \<times> member_obj" where
  "broadcast_speaker_start_input io m =
     (if m_input_thread m then (ST_SUCCESS, m)
      else if pi_thread io \<noteq> ST_SUCCESS then (pi_thread io, m\<lparr>m_input_running := False\<rparr>)
      else (ST_SUCCESS, m\<lparr>m_input_running := True, m_input_thread := True\<rparr>))"

text \<open>Telling the input thread to stop and joining it; without a thread nothing is joined.\<close>

definition broadcast_speaker_stop_input :: "member_obj \<Rightarrow> member_obj" where
  "broadcast_speaker_stop_input m = m\<lparr>m_input_running := False, m_input_thread := False\<rparr>"

section \<open>Installing and clearing the speaker\<close>

text \<open>
  \<open>broadcast_set_speaker\<close> in its two halves: \<open>speaker_publish\<close> up to the critical event, with the
  replaced speaker as a result, and \<open>speaker_retire\<close>, which stops the replaced speaker's input after
  the lock is released. A member that is no longer there is \<open>None\<close>.
\<close>

definition speaker_install :: "usec \<Rightarrow> maddr option \<Rightarrow> room \<Rightarrow> (switch_status \<times> room \<times> maddr option \<times> bevt_type list) option" where
  "speaker_install now new r =
     (let old = b_current_speaker (rm_b r) in
      if old = new then Some (ST_SUCCESS, r, None, [])
      else
        let r = r\<lparr>rm_b := (rm_b r)\<lparr>b_current_speaker := new, b_speaker_active_since := now\<rparr>\<rparr> in
        (case new of
           Some a \<Rightarrow> do {
             m \<leftarrow> rm_heap r a;
             Some (ST_SUCCESS, r\<lparr>rm_heap := (rm_heap r)(a \<mapsto> m\<lparr>m_speaker_since_us := now\<rparr>)\<rparr>, old, [BEVT_SPEAKER_SET]) }
         | None \<Rightarrow> Some (ST_SUCCESS, r, old, [BEVT_SPEAKER_CLEAR])))"

definition speaker_publish ::
  "prep_io \<Rightarrow> usec \<Rightarrow> maddr option \<Rightarrow> room \<Rightarrow> (switch_status \<times> room \<times> maddr option \<times> bevt_type list) option" where
  "speaker_publish io now new r =
     (case new of
        None \<Rightarrow> speaker_install now None r
      | Some a \<Rightarrow> do {
          m \<leftarrow> rm_heap r a;
          if m_in_listener_bridge m then Some (ST_FALSE, r, None, [])
          else
            (case broadcast_member_ensure_speaker_audio io m of (st, m) \<Rightarrow>
               if st \<noteq> ST_SUCCESS then Some (ST_FALSE, r\<lparr>rm_heap := (rm_heap r)(a \<mapsto> m)\<rparr>, None, [])
               else
                 (case broadcast_speaker_start_input io (m\<lparr>m_role := BMEMBER_ROLE_SPEAKER\<rparr>) of (st, m) \<Rightarrow>
                    let r = r\<lparr>rm_heap := (rm_heap r)(a \<mapsto> m)\<rparr> in
                    if st \<noteq> ST_SUCCESS then Some (ST_FALSE, r, None, [])
                    else speaker_install now (Some a) r)) })"

definition speaker_retire :: "maddr \<Rightarrow> room \<Rightarrow> room option" where
  "speaker_retire old r = do {
     m \<leftarrow> rm_heap r old;
     Some (r\<lparr>rm_heap := (rm_heap r)(old \<mapsto> (broadcast_speaker_stop_input m)\<lparr>m_speaker_since_us := 0\<rparr>)\<rparr>) }"

definition broadcast_set_speaker ::
  "prep_io \<Rightarrow> usec \<Rightarrow> maddr option \<Rightarrow> room \<Rightarrow> (switch_status \<times> room \<times> bevt_type list) option" where
  "broadcast_set_speaker io now new r = do {
     (st, r, old, evs) \<leftarrow> speaker_publish io now new r;
     (case old of
        None \<Rightarrow> Some (st, r, evs)
      | Some o' \<Rightarrow> do { r \<leftarrow> speaker_retire o' r; Some (st, r, evs) }) }"

definition broadcast_clear_speaker :: "prep_io \<Rightarrow> usec \<Rightarrow> room \<Rightarrow> (switch_status \<times> room \<times> bevt_type list) option" where
  "broadcast_clear_speaker io now r = broadcast_set_speaker io now None r"

definition broadcast_clear_speaker_if_current :: "maddr \<Rightarrow> room \<Rightarrow> room option" where
  "broadcast_clear_speaker_if_current a r =
     (if b_current_speaker (rm_b r) = Some a then do {
        m \<leftarrow> rm_heap r a;
        Some (r\<lparr>rm_b := (rm_b r)\<lparr>b_current_speaker := None\<rparr>,
               rm_heap := (rm_heap r)(a \<mapsto> broadcast_speaker_stop_input m)\<rparr>) }
      else Some r)"

section \<open>Promotion of a listener\<close>

text \<open>
  \<open>broadcast_request_promotion\<close> runs on an API thread. Up to the wait: \<open>promotion_begin\<close>; after it,
  with what the member still shows of \<open>in_listener_bridge\<close>: \<open>promotion_end\<close>. In between the
  member's own thread runs.
\<close>

definition promotion_begin :: "maddr \<Rightarrow> room \<Rightarrow> (switch_status \<times> room) option" where
  "promotion_begin a r = do {
     m \<leftarrow> rm_heap r a;
     if \<not> m_in_listener_bridge m then Some (ST_FALSE, r)
     else do {
       (st, r) \<leftarrow> broadcast_listener_unlink_for_promotion a r;
       if st \<noteq> ST_SUCCESS then Some (ST_FALSE, r)
       else do {
         m \<leftarrow> rm_heap r a;
         Some (ST_SUCCESS, r\<lparr>rm_heap := (rm_heap r)(a \<mapsto> m\<lparr>m_mflags :=
            clr_flag (set_flag (m_mflags m) MFLAG_ROLE_TRANSITION_TO_SPEAKER) MFLAG_RUNNING\<rparr>)\<rparr>) } } }"

definition promotion_end :: "copy_string \<Rightarrow> usec \<Rightarrow> usec \<Rightarrow> bool \<Rightarrow> maddr \<Rightarrow> room \<Rightarrow> (switch_status \<times> room) option" where
  "promotion_end cpy now now' still_bridged a r =
     (if \<not> still_bridged then Some (ST_SUCCESS, r)
      else do {
        m \<leftarrow> rm_heap r a;
        let r = r\<lparr>rm_heap := (rm_heap r)(a \<mapsto> m\<lparr>m_mflags := clr_flag (m_mflags m) MFLAG_ROLE_TRANSITION_TO_SPEAKER\<rparr>)\<rparr>;
        (st, r) \<leftarrow> broadcast_listener_add cpy now now' a r;
        Some (ST_FALSE, r) })"

text \<open>The whole call, the member's thread acting in the wait: polls until it left the bridge or 200 ms have passed.\<close>

fun promotion_wait :: "usec \<Rightarrow> maddr \<Rightarrow> (usec \<times> (room \<Rightarrow> room)) list \<Rightarrow> room \<Rightarrow> room option" where
  "promotion_wait deadline a [] r = None"
| "promotion_wait deadline a ((now, others) # polls) r =
     (case rm_heap r a of
        None \<Rightarrow> None
      | Some m \<Rightarrow> if m_in_listener_bridge m \<and> now < deadline then promotion_wait deadline a polls (others r) else Some r)"

definition broadcast_request_promotion ::
  "copy_string \<Rightarrow> usec \<Rightarrow> usec \<Rightarrow> usec \<Rightarrow> (usec \<times> (room \<Rightarrow> room)) list \<Rightarrow> maddr \<Rightarrow> room \<Rightarrow> (switch_status \<times> room) option" where
  "broadcast_request_promotion cpy start now now' polls a r = do {
     (st, r) \<leftarrow> promotion_begin a r;
     if st \<noteq> ST_SUCCESS then Some (ST_FALSE, r)
     else do {
       r \<leftarrow> promotion_wait (start + 200000) a polls r;
       m \<leftarrow> rm_heap r a;
       promotion_end cpy now now' (m_in_listener_bridge m) a r } }"

section \<open>The input thread\<close>

text \<open>A read frame: comfort-noise flag, byte count, the 16-bit samples the bytes hold.\<close>

record in_frame =
  if_cng :: bool
  if_datalen :: u32
  if_data :: "u8 list"
  if_samples :: "int list"

definition energy_sum :: "int list \<Rightarrow> u32" where
  "energy_sum xs = foldl (\<lambda>e x. e + word_of_int \<bar>x\<bar>) 0 xs"

definition energy_score :: "in_frame \<Rightarrow> u32" where
  "energy_score f = (let n = if_datalen f div 2 in if n \<noteq> 0 then energy_sum (take (unat n) (if_samples f)) div n else 0)"

text \<open>Talk detection on one frame; \<open>now\<close> is read only on the silent side.\<close>

definition energy_step :: "copy_string \<Rightarrow> usec \<Rightarrow> usec \<Rightarrow> broadcast_profile \<Rightarrow> u32 \<Rightarrow> broadcast_obj \<Rightarrow> member_obj \<Rightarrow> broadcast_obj \<times> member_obj" where
  "energy_step cpy now evt_now prof score b m =
     (let m = m\<lparr>m_energy_last_score := score\<rparr> in
      if m_energy_threshold m < score then
        let (b, m) =
          (if \<not> m_talking_state m then
             (broadcast_enqueue_event cpy evt_now b BEVT_SPEAKER_TALKING (m_id m) (Some (snprintf_u 32 (unat score))),
              m\<lparr>m_talking_state := True\<rparr>)
           else (b, m))
        in (b, m\<lparr>m_silent_since_us := 0\<rparr>)
      else
        let m = (if m_silent_since_us m = 0 then m\<lparr>m_silent_since_us := now\<rparr> else m) in
        if m_talking_state m \<and> uint (p_silence_window_ms prof) * 1000 < now - m_silent_since_us m then
          (broadcast_enqueue_event cpy evt_now b BEVT_SPEAKER_SILENT (m_id m) (Some (snprintf_u 32 (unat score))),
           m\<lparr>m_talking_state := False\<rparr>)
        else (b, m))"

text \<open>One round of the read loop; \<open>bw\<close> is the core's buffer write. A missing buffer is \<open>None\<close>.\<close>

definition input_frame :: "copy_string \<Rightarrow> (u8 list \<Rightarrow> u8 list \<Rightarrow> u8 list) \<Rightarrow> usec \<Rightarrow> usec \<Rightarrow> in_frame
    \<Rightarrow> broadcast_obj \<Rightarrow> member_obj \<Rightarrow> (broadcast_obj \<times> member_obj) option" where
  "input_frame cpy bw now evt_now f b m =
     (if if_cng f \<or> if_datalen f = 0 then Some (b, m)
      else
        let (b, m) =
          (case b_profile b of
             Some prof \<Rightarrow> if p_energy_detection prof then energy_step cpy now evt_now prof (energy_score f) b m else (b, m)
           | None \<Rightarrow> (b, m))
        in (case m_audio_buffer m of
              None \<Rightarrow> None
            | Some buf \<Rightarrow> Some (b, m\<lparr>m_audio_buffer := Some (bw buf (take (unat (if_datalen f)) (if_data f)))\<rparr>)))"

text \<open>
  The thread over a list of reads: whether the channel is ready, the acceptable frame that was read or
  nothing, what the other threads did meanwhile, and the clock.
\<close>

type_synonym in_read = "bool \<times> in_frame option \<times> (broadcast_obj \<times> member_obj \<Rightarrow> broadcast_obj \<times> member_obj) \<times> usec"

fun input_loop :: "copy_string \<Rightarrow> (u8 list \<Rightarrow> u8 list \<Rightarrow> u8 list) \<Rightarrow> in_read list \<Rightarrow> broadcast_obj \<Rightarrow> member_obj
    \<Rightarrow> (broadcast_obj \<times> member_obj \<times> bool) option" where
  "input_loop cpy bw [] b m = Some (b, m, True)"
| "input_loop cpy bw ((ready, frame, others, now) # reads) b m =
     (if m_input_running m \<and> has_flag (m_mflags m) MFLAG_RUNNING \<and> ready then
        (case others (b, m) of (b, m) \<Rightarrow>
          (case frame of
             None \<Rightarrow> Some (b, m, False)
           | Some f \<Rightarrow>
               (case input_frame cpy bw now now f b m of
                  None \<Rightarrow> None
                | Some (b, m) \<Rightarrow> input_loop cpy bw reads b m)))
      else Some (b, m, False))"

definition broadcast_speaker_input_run :: "copy_string \<Rightarrow> (u8 list \<Rightarrow> u8 list \<Rightarrow> u8 list) \<Rightarrow> bool \<Rightarrow> in_read list
    \<Rightarrow> broadcast_obj \<Rightarrow> member_obj \<Rightarrow> (broadcast_obj \<times> member_obj) option" where
  "broadcast_speaker_input_run cpy bw locked reads b m =
     (if \<not> locked then Some (b, m\<lparr>m_input_running := False\<rparr>)
      else
        (case input_loop cpy bw reads b (m\<lparr>m_mflags := set_flag (m_mflags m) MFLAG_ITHREAD\<rparr>) of
           None \<Rightarrow> None
         | Some (b, m, running) \<Rightarrow>
             Some (b, if running then m
                      else m\<lparr>m_mflags := clr_flag (m_mflags m) MFLAG_ITHREAD, m_input_running := False\<rparr>)))"

section \<open>The speaker's session thread\<close>

text \<open>
  A round of \<open>broadcast_speaker_main_wait\<close>: what the other threads did since the last one, whether
  the channel is ready, the digits received.
\<close>

type_synonym wait_round = "(room \<Rightarrow> room) \<times> bool \<times> (usec \<times> char) list"

fun main_wait_loop :: "copy_string \<Rightarrow> (string \<Rightarrow> bool) \<Rightarrow> broadcast_globals \<Rightarrow> maddr \<Rightarrow> wait_round list \<Rightarrow> room \<Rightarrow> (room \<times> bool) option" where
  "main_wait_loop cpy has_mod g a [] r = Some (r, True)"
| "main_wait_loop cpy has_mod g a ((others, ready, digits) # rounds) r0 =
     (let r = others r0 in
      case rm_heap r a of
        None \<Rightarrow> None
      | Some m \<Rightarrow>
          if has_flag (m_mflags m) MFLAG_RUNNING \<and> ready \<and> \<not> b_destroyed (rm_b r) then
            (case dtmf_session cpy has_mod g digits (rm_b r) m of (b, m, calls) \<Rightarrow>
               let r = r\<lparr>rm_b := b, rm_heap := (rm_heap r)(a \<mapsto> m)\<rparr> in
               if b_current_speaker b \<noteq> Some a then Some (r, False)
               else main_wait_loop cpy has_mod g a rounds r)
          else Some (r, False))"

text \<open>After the loop: look once more, then clear the slot, with other threads between the look and the clear.\<close>

definition main_wait_end :: "prep_io \<Rightarrow> usec \<Rightarrow> (room \<Rightarrow> room) \<Rightarrow> maddr \<Rightarrow> room \<Rightarrow> room option" where
  "main_wait_end io now others a r = do {
     r \<leftarrow> (if b_current_speaker (rm_b r) = Some a then
              do { (st, r, evs) \<leftarrow> broadcast_clear_speaker io now (others r); Some r }
            else Some r);
     m \<leftarrow> rm_heap r a;
     Some (r\<lparr>rm_heap := (rm_heap r)(a \<mapsto> m\<lparr>m_in_speaker_wait := False\<rparr>)\<rparr>) }"

definition broadcast_speaker_main_wait ::
  "copy_string \<Rightarrow> (string \<Rightarrow> bool) \<Rightarrow> broadcast_globals \<Rightarrow> prep_io \<Rightarrow> usec \<Rightarrow> wait_round list \<Rightarrow> (room \<Rightarrow> room) \<Rightarrow> maddr \<Rightarrow> room
    \<Rightarrow> (room \<times> bool) option" where
  "broadcast_speaker_main_wait cpy has_mod g io now rounds others a r = do {
     m \<leftarrow> rm_heap r a;
     (r, waiting) \<leftarrow> main_wait_loop cpy has_mod g a rounds (r\<lparr>rm_heap := (rm_heap r)(a \<mapsto> m\<lparr>m_in_speaker_wait := True\<rparr>)\<rparr>);
     if waiting then Some (r, True)
     else do { r \<leftarrow> main_wait_end io now others a r; Some (r, False) } }"

section \<open>Life of the speaker pointer\<close>

text \<open>
  The producer reads \<open>current_speaker\<close>'s buffer and mutex without a reference of its own, so the
  pointer must only ever name a member whose object exists and whose audio path is up. The step
  relation has one step per critical section: a session thread enters the application
  (\<open>sp_join\<close>) or installs itself (\<open>sp_publish\<close>), any thread clears the slot (\<open>sp_clear\<close>) or stops
  the input of a speaker it replaced (\<open>sp_retire\<close>), other calls leave pointer and audio paths alone
  (\<open>sp_other\<close>), a session thread makes its last call of \<open>broadcast_app_function\<close> (\<open>sp_leave\<close>) and
  its pool, which owns the member, is freed (\<open>sp_free\<close>).
\<close>

definition audio_ready :: "member_obj \<Rightarrow> bool" where
  "audio_ready m = (m_audio_buffer m \<noteq> None \<and> m_audio_in_mutex m)"

definition heap_keeps :: "mheap \<Rightarrow> mheap \<Rightarrow> bool" where
  "heap_keeps h h' \<longleftrightarrow> (\<forall>x. h x = None \<longrightarrow> h' x = None)
     \<and> (\<forall>x m. h x = Some m \<longrightarrow> (\<exists>m'. h' x = Some m' \<and> (audio_ready m \<longrightarrow> audio_ready m')))"

definition speaker_frame :: "room \<Rightarrow> room \<Rightarrow> bool" where
  "speaker_frame r r' \<longleftrightarrow> b_current_speaker (rm_b r') = b_current_speaker (rm_b r) \<and> heap_keeps (rm_heap r) (rm_heap r')"

datatype phase = Absent | InApp | Leaving

record sp_state =
  sp_room :: room
  sp_phase :: "maddr \<Rightarrow> phase"
  sp_pending :: "maddr list"

inductive sp_step :: "sp_state \<Rightarrow> sp_state \<Rightarrow> bool" where
  sp_join: "sp_phase s a = Absent \<Longrightarrow>
    sp_step s (s\<lparr>sp_room := (sp_room s)\<lparr>rm_heap := (rm_heap (sp_room s))(a \<mapsto> m)\<rparr>, sp_phase := (sp_phase s)(a := InApp)\<rparr>)"
| sp_publish: "sp_phase s a = InApp \<Longrightarrow> speaker_publish io now (Some a) (sp_room s) = Some (st, r', old, evs) \<Longrightarrow>
    sp_step s (s\<lparr>sp_room := r', sp_pending := (case old of None \<Rightarrow> [] | Some x \<Rightarrow> [x]) @ sp_pending s\<rparr>)"
| sp_clear: "speaker_publish io now None (sp_room s) = Some (st, r', old, evs) \<Longrightarrow>
    sp_step s (s\<lparr>sp_room := r', sp_pending := (case old of None \<Rightarrow> [] | Some x \<Rightarrow> [x]) @ sp_pending s\<rparr>)"
| sp_retire: "x \<in> set (sp_pending s) \<Longrightarrow> speaker_retire x (sp_room s) = Some r' \<Longrightarrow>
    sp_step s (s\<lparr>sp_room := r', sp_pending := remove1 x (sp_pending s)\<rparr>)"
| sp_other: "speaker_frame (sp_room s) r' \<Longrightarrow> sp_step s (s\<lparr>sp_room := r'\<rparr>)"
| sp_leave: "sp_phase s a = InApp \<Longrightarrow> broadcast_clear_speaker_if_current a (sp_room s) = Some r' \<Longrightarrow>
    sp_step s (s\<lparr>sp_room := r', sp_phase := (sp_phase s)(a := Leaving)\<rparr>)"
| sp_free: "sp_phase s a = Leaving \<Longrightarrow>
    sp_step s (s\<lparr>sp_room := (sp_room s)\<lparr>rm_heap := (rm_heap (sp_room s))(a := None)\<rparr>, sp_phase := (sp_phase s)(a := Absent)\<rparr>)"

inductive_cases sp_stepE: "sp_step s s'"

definition sp_inv :: "sp_state \<Rightarrow> bool" where
  "sp_inv s \<longleftrightarrow> (\<forall>a. sp_phase s a \<noteq> Absent \<longrightarrow> rm_heap (sp_room s) a \<noteq> None)
     \<and> (\<forall>a. b_current_speaker (rm_b (sp_room s)) = Some a \<longrightarrow>
           sp_phase s a = InApp \<and> (\<exists>m. rm_heap (sp_room s) a = Some m \<and> audio_ready m))"

lemma sp_invI:
  "(\<And>a. sp_phase s a \<noteq> Absent \<Longrightarrow> rm_heap (sp_room s) a \<noteq> None) \<Longrightarrow>
   (\<And>a. b_current_speaker (rm_b (sp_room s)) = Some a \<Longrightarrow>
      sp_phase s a = InApp \<and> (\<exists>m. rm_heap (sp_room s) a = Some m \<and> audio_ready m)) \<Longrightarrow> sp_inv s"
  by (simp add: sp_inv_def)

lemma sp_inv_live: "sp_inv s \<Longrightarrow> sp_phase s a \<noteq> Absent \<Longrightarrow> rm_heap (sp_room s) a \<noteq> None"
  by (simp add: sp_inv_def)

lemma sp_inv_speaker:
  "sp_inv s \<Longrightarrow> b_current_speaker (rm_b (sp_room s)) = Some a \<Longrightarrow>
   sp_phase s a = InApp \<and> (\<exists>m. rm_heap (sp_room s) a = Some m \<and> audio_ready m)"
  by (simp add: sp_inv_def)

text \<open>What the calls do to the audio path of the member they work on.\<close>

lemma ensure_audio_ready:
  "broadcast_member_ensure_speaker_audio io m = (ST_SUCCESS, m') \<Longrightarrow> audio_ready m'"
  by (auto simp: broadcast_member_ensure_speaker_audio_def audio_ready_def Let_def split: if_splits)

lemma ensure_audio_keeps:
  "broadcast_member_ensure_speaker_audio io m = (st, m') \<Longrightarrow> audio_ready m \<Longrightarrow> audio_ready m'"
  by (auto simp: broadcast_member_ensure_speaker_audio_def audio_ready_def Let_def split: if_splits)

lemma start_input_audio:
  "broadcast_speaker_start_input io m = (st, m') \<Longrightarrow> audio_ready m' = audio_ready m"
  by (auto simp: broadcast_speaker_start_input_def audio_ready_def split: if_splits)

lemma audio_ready_upd [simp]:
  "audio_ready (broadcast_speaker_stop_input m) = audio_ready m"
  "audio_ready (m\<lparr>m_role := ro\<rparr>) = audio_ready m"
  "audio_ready (m\<lparr>m_speaker_since_us := t\<rparr>) = audio_ready m"
  by (simp_all add: audio_ready_def broadcast_speaker_stop_input_def)

text \<open>
  One locked section at a time: the heap keeps its members and their audio paths, and the pointer
  stays, is cleared, or becomes the published member, whose audio path is then up.
\<close>

lemma heap_keeps_upd:
  "h a = Some m \<Longrightarrow> (audio_ready m \<Longrightarrow> audio_ready m') \<Longrightarrow> heap_keeps h (h(a \<mapsto> m'))"
  by (auto simp: heap_keeps_def)

lemma heap_keeps_live: "heap_keeps h h' \<Longrightarrow> h x \<noteq> None \<Longrightarrow> h' x \<noteq> None"
  unfolding heap_keeps_def by (metis not_None_eq)

lemma heap_keepsD: "heap_keeps h h' \<Longrightarrow> h x = Some m \<Longrightarrow> \<exists>m'. h' x = Some m' \<and> (audio_ready m \<longrightarrow> audio_ready m')"
  by (simp add: heap_keeps_def)

lemma heap_keeps_refl: "heap_keeps h h"
  by (simp add: heap_keeps_def)

lemma heap_keeps_trans: "heap_keeps h h1 \<Longrightarrow> heap_keeps h1 h2 \<Longrightarrow> heap_keeps h h2"
  unfolding heap_keeps_def by meson

lemma heap_keeps_step:
  assumes "heap_keeps (rm_heap (sp_room s)) (rm_heap r')" "sp_inv s"
    "\<And>x. b_current_speaker (rm_b r') = Some x \<Longrightarrow> b_current_speaker (rm_b (sp_room s)) = Some x
        \<or> sp_phase s x = InApp \<and> (\<exists>m. rm_heap r' x = Some m \<and> audio_ready m)"
  shows "sp_inv (s\<lparr>sp_room := r', sp_pending := p\<rparr>)"
proof (rule sp_invI)
  fix a assume "sp_phase (s\<lparr>sp_room := r', sp_pending := p\<rparr>) a \<noteq> Absent"
  then have "rm_heap (sp_room s) a \<noteq> None" using sp_inv_live [OF assms(2)] by simp
  then show "rm_heap (sp_room (s\<lparr>sp_room := r', sp_pending := p\<rparr>)) a \<noteq> None"
    using heap_keeps_live [OF assms(1)] by simp
next
  fix a assume c: "b_current_speaker (rm_b (sp_room (s\<lparr>sp_room := r', sp_pending := p\<rparr>))) = Some a"
  then have "b_current_speaker (rm_b r') = Some a" by simp
  from assms(3) [OF this] show "sp_phase (s\<lparr>sp_room := r', sp_pending := p\<rparr>) a = InApp \<and>
      (\<exists>m. rm_heap (sp_room (s\<lparr>sp_room := r', sp_pending := p\<rparr>)) a = Some m \<and> audio_ready m)"
  proof
    assume "b_current_speaker (rm_b (sp_room s)) = Some a"
    from sp_inv_speaker [OF assms(2) this] assms(1) show ?thesis unfolding heap_keeps_def by fastforce
  qed simp
qed

lemma install_effect:
  assumes "speaker_install now new r = Some (st, r', old, evs)"
    "\<And>a. new = Some a \<Longrightarrow> \<exists>m. rm_heap r a = Some m \<and> audio_ready m"
  shows "heap_keeps (rm_heap r) (rm_heap r')" "b_current_speaker (rm_b r') = new"
    "old = (if b_current_speaker (rm_b r) = new then None else b_current_speaker (rm_b r))" "st = ST_SUCCESS"
proof -
  have "heap_keeps (rm_heap r) (rm_heap r') \<and> b_current_speaker (rm_b r') = new
     \<and> old = (if b_current_speaker (rm_b r) = new then None else b_current_speaker (rm_b r)) \<and> st = ST_SUCCESS"
  proof (cases "b_current_speaker (rm_b r) = new \<or> new = None")
    case True
    then show ?thesis using assms(1) by (auto simp: speaker_install_def heap_keeps_refl split: if_splits)
  next
    case False
    then obtain a where a: "new = Some a" by auto
    with assms(2) obtain m where m: "rm_heap r a = Some m" by auto
    have "heap_keeps (rm_heap r) ((rm_heap r)(a \<mapsto> m\<lparr>m_speaker_since_us := now\<rparr>))"
      by (rule heap_keeps_upd [where h = "rm_heap r" and a = a, OF m]) simp
    with False a m assms(1) show ?thesis by (auto simp: speaker_install_def)
  qed
  then show "heap_keeps (rm_heap r) (rm_heap r')" "b_current_speaker (rm_b r') = new"
    "old = (if b_current_speaker (rm_b r) = new then None else b_current_speaker (rm_b r))" "st = ST_SUCCESS" by auto
qed

lemma publish_cases:
  assumes "speaker_publish io now (Some a) r = Some (st, r', old, evs)"
  obtains (refused) "st = ST_FALSE" "old = None" "evs = []" "rm_b r' = rm_b r" "heap_keeps (rm_heap r) (rm_heap r')"
  | (published) m' where "st = ST_SUCCESS" "heap_keeps (rm_heap r) (rm_heap r')" "b_current_speaker (rm_b r') = Some a"
      "rm_heap r' a = Some m'" "audio_ready m'"
      "old = (if b_current_speaker (rm_b r) = Some a then None else b_current_speaker (rm_b r))"
proof -
  from assms obtain m where m: "rm_heap r a = Some m" by (auto simp: speaker_publish_def bind_eq_Some_conv)
  obtain st1 m1 where e: "broadcast_member_ensure_speaker_audio io m = (st1, m1)" by (rule prod.exhaust)
  obtain st2 m2 where s: "broadcast_speaker_start_input io (m1\<lparr>m_role := BMEMBER_ROLE_SPEAKER\<rparr>) = (st2, m2)" by (rule prod.exhaust)
  have k1: "audio_ready m \<Longrightarrow> audio_ready m1" by (rule ensure_audio_keeps [OF e])
  have k2: "audio_ready m2 = audio_ready m1" using start_input_audio [OF s] by simp
  have h1: "heap_keeps (rm_heap r) ((rm_heap r)(a \<mapsto> m1))" by (rule heap_keeps_upd [where h = "rm_heap r" and a = a, OF m k1])
  have h2: "heap_keeps (rm_heap r) ((rm_heap r)(a \<mapsto> m2))" by (rule heap_keeps_upd [where h = "rm_heap r" and a = a, OF m]) (simp add: k1 k2)
  let ?r2 = "r\<lparr>rm_heap := (rm_heap r)(a \<mapsto> m2)\<rparr>"
  consider (br) "m_in_listener_bridge m" | (au) "\<not> m_in_listener_bridge m" "st1 \<noteq> ST_SUCCESS"
    | (th) "\<not> m_in_listener_bridge m" "st1 = ST_SUCCESS" "st2 \<noteq> ST_SUCCESS"
    | (ok) "\<not> m_in_listener_bridge m" "st1 = ST_SUCCESS" "st2 = ST_SUCCESS" by blast
  then show ?thesis
  proof cases
    case br
    then show ?thesis using assms m by (intro refused) (auto simp: speaker_publish_def heap_keeps_refl)
  next
    case au
    then show ?thesis using assms m e h1 by (intro refused) (auto simp: speaker_publish_def)
  next
    case th
    then show ?thesis using assms m e s h2 by (intro refused) (auto simp: speaker_publish_def)
  next
    case ok
    then have i: "speaker_install now (Some a) ?r2 = Some (st, r', old, evs)"
      using assms m e s by (simp add: speaker_publish_def)
    have ar: "audio_ready m2" using ensure_audio_ready e ok k2 by simp
    then have rd: "\<And>x. Some a = Some x \<Longrightarrow> \<exists>m. rm_heap ?r2 x = Some m \<and> audio_ready m" by simp
    note eff = install_effect [OF i rd]
    from heap_keepsD [OF eff(1), of a m2] ar obtain m' where "rm_heap r' a = Some m'" "audio_ready m'" by auto
    moreover have "heap_keeps (rm_heap r) (rm_heap r')" using heap_keeps_trans [OF h2] eff(1) by simp
    ultimately show ?thesis using eff(2-4) by (intro published) simp_all
  qed
qed

lemma sp_step_inv: "sp_step s s' \<Longrightarrow> sp_inv s \<Longrightarrow> sp_inv s'"
proof (induction rule: sp_step.induct)
  case (sp_join s a m)
  have "b_current_speaker (rm_b (sp_room s)) \<noteq> Some a" using sp_inv_speaker [OF sp_join(2)] sp_join(1) by force
  with sp_join show ?case by (intro sp_invI) (auto dest: sp_inv_live sp_inv_speaker split: if_splits)
next
  case (sp_publish s a io now st r' old evs)
  from sp_publish(2) show ?case
  proof (cases rule: publish_cases)
    case (refused)
    then show ?thesis by (intro heap_keeps_step [OF _ sp_publish(3)]) simp_all
  next
    case (published m')
    then show ?thesis using sp_publish(1) by (intro heap_keeps_step [OF _ sp_publish(3)]) simp_all
  qed
next
  case (sp_clear io now s st r' old evs)
  then have "speaker_install now None (sp_room s) = Some (st, r', old, evs)" by (simp add: speaker_publish_def)
  note eff = install_effect [OF this]
  have "heap_keeps (rm_heap (sp_room s)) (rm_heap r')" "b_current_speaker (rm_b r') = None" using eff(1,2) by simp_all
  with sp_clear(2) show ?case by (intro heap_keeps_step) simp_all
next
  case (sp_retire x s r')
  then obtain m where m: "rm_heap (sp_room s) x = Some m" and r': "r' = (sp_room s)\<lparr>rm_heap := (rm_heap (sp_room s))(x \<mapsto>
      (broadcast_speaker_stop_input m)\<lparr>m_speaker_since_us := 0\<rparr>)\<rparr>" by (auto simp: speaker_retire_def bind_eq_Some_conv)
  have "heap_keeps (rm_heap (sp_room s)) (rm_heap r')"
    unfolding r' by (simp, rule heap_keeps_upd [where h = "rm_heap (sp_room s)" and a = x, OF m]) simp
  with sp_retire(3) r' show ?case by (intro heap_keeps_step) simp_all
next
  case (sp_other s r')
  then have "sp_inv (s\<lparr>sp_room := r', sp_pending := sp_pending s\<rparr>)"
    by (intro heap_keeps_step) (simp_all add: speaker_frame_def)
  then show ?case by simp
next
  case (sp_leave s a r')
  show ?case
  proof (cases "b_current_speaker (rm_b (sp_room s)) = Some a")
    case True
    with sp_leave(2) obtain m where m: "rm_heap (sp_room s) a = Some m"
      "r' = (sp_room s)\<lparr>rm_b := (rm_b (sp_room s))\<lparr>b_current_speaker := None\<rparr>,
         rm_heap := (rm_heap (sp_room s))(a \<mapsto> broadcast_speaker_stop_input m)\<rparr>"
      by (auto simp: broadcast_clear_speaker_if_current_def bind_eq_Some_conv)
    then show ?thesis using sp_leave(3) by (intro sp_invI) (auto dest: sp_inv_live split: if_splits)
  next
    case False
    then have "r' = sp_room s" using sp_leave(2) by (simp add: broadcast_clear_speaker_if_current_def)
    moreover have "rm_heap (sp_room s) a \<noteq> None" using sp_inv_live [OF sp_leave(3), of a] sp_leave(1) by simp
    ultimately show ?thesis using False sp_leave(1,3)
      by (intro sp_invI) (auto dest: sp_inv_live sp_inv_speaker split: if_splits)
  qed
next
  case (sp_free s a)
  have "b_current_speaker (rm_b (sp_room s)) \<noteq> Some a" using sp_inv_speaker [OF sp_free(2)] sp_free(1) by force
  with sp_free show ?case by (intro sp_invI) (auto dest: sp_inv_live sp_inv_speaker split: if_splits)
qed

lemma sp_reach_inv: "sp_step\<^sup>*\<^sup>* s s' \<Longrightarrow> sp_inv s \<Longrightarrow> sp_inv s'"
  by (induction rule: rtranclp_induct) (auto intro: sp_step_inv)

text \<open>The list operations are steps of the other calls: they touch neither the pointer nor an audio path.\<close>

lemma same_data_audio: "same_data h h' \<Longrightarrow> heap_keeps h h'"
proof -
  assume sd: "same_data h h'"
  have "\<exists>m'. h' x = Some m' \<and> (audio_ready m \<longrightarrow> audio_ready m')" if x: "h x = Some m" for x m
  proof -
    from same_data_known [OF sd, of x] x obtain m' where m': "h' x = Some m'" by auto
    have "strip_links m = strip_links m'" using sd x m' unfolding same_data_def by (metis option.map(2) option.inject)
    moreover have "audio_ready (strip_links k) = audio_ready k" for k by (simp add: strip_links_def audio_ready_def)
    ultimately have "audio_ready m = audio_ready m'" by metis
    with m' show ?thesis by simp
  qed
  then show ?thesis using same_data_known [OF sd] by (simp add: heap_keeps_def)
qed

lemma unlink_is_other:
  assumes "listener_rep r xs" "broadcast_listener_unlink_for_promotion a r = Some (st, r')"
  shows "speaker_frame r r'"
proof (cases "a \<in> set xs")
  case True
  with assms(1) obtain r1 where r1: "unlink_node a r = Some r1" "same_data (rm_heap r) (rm_heap r1)"
    "\<exists>hd. rm_b r1 = (rm_b r)\<lparr>b_listener_head := hd, b_listener_count := b_listener_count (rm_b r) - 1\<rparr>"
    by (rule unlink_keeps_rep)
  then have "r' = r1" using assms find_in_rep [OF assms(1), of a] True
    by (simp add: broadcast_listener_unlink_for_promotion_def)
  with r1 show ?thesis by (auto simp: speaker_frame_def intro: same_data_audio)
next
  case False
  then have "r' = r" using assms find_in_rep [OF assms(1), of a] by (simp add: broadcast_listener_unlink_for_promotion_def)
  then show ?thesis by (simp add: speaker_frame_def heap_keeps_refl)
qed

section \<open>Talk detection\<close>

text \<open>The member after a series of frames, each with its clock and energy score.\<close>

definition talk_after :: "copy_string \<Rightarrow> broadcast_profile \<Rightarrow> (usec \<times> u32) list \<Rightarrow> broadcast_obj \<times> member_obj \<Rightarrow> broadcast_obj \<times> member_obj" where
  "talk_after cpy prof fs s = foldl (\<lambda>(b, m) (now, score). energy_step cpy now now prof score b m) s fs"

definition quiet :: "u32 \<Rightarrow> (usec \<times> u32) list \<Rightarrow> bool" where
  "quiet thr fs = list_all (\<lambda>(t, score). score \<le> thr) fs"

text \<open>The silence stamp is the clock of the first frame of the current run of quiet frames.\<close>

definition stamp_ok :: "u32 \<Rightarrow> (usec \<times> u32) list \<Rightarrow> usec \<Rightarrow> bool" where
  "stamp_ok thr fs t \<longleftrightarrow> t = 0 \<or> (\<exists>ys sc zs. fs = ys @ (t, sc) # zs \<and> quiet thr ((t, sc) # zs))"

lemma energy_step_fields:
  assumes "energy_step cpy now now' prof score b m = (b', m')"
  shows "m_energy_threshold m' = m_energy_threshold m"
    "m_silent_since_us m' = (if m_energy_threshold m < score then 0
       else if m_silent_since_us m = 0 then now else m_silent_since_us m)"
    "m_talking_state m' = (if m_energy_threshold m < score then True
       else m_talking_state m \<and> now - m_silent_since_us m' \<le> uint (p_silence_window_ms prof) * 1000)"
  using assms by (auto simp: energy_step_def Let_def split: if_splits)

lemma stamp_step:
  assumes "stamp_ok thr fs t"
  shows "stamp_ok thr (fs @ [(now, score)]) (if thr < score then 0 else if t = 0 then now else t)"
proof (cases "thr < score")
  case False
  show ?thesis
  proof (cases "t = 0")
    case True
    have "fs @ [(now, score)] = fs @ (now, score) # []" "quiet thr [(now, score)]" using False by (simp_all add: quiet_def)
    with True False show ?thesis by (auto simp: stamp_ok_def)
  next
    case F: False
    with assms obtain ys sc zs where "fs = ys @ (t, sc) # zs" "quiet thr ((t, sc) # zs)" by (auto simp: stamp_ok_def)
    then have "fs @ [(now, score)] = ys @ (t, sc) # (zs @ [(now, score)])" "quiet thr ((t, sc) # zs @ [(now, score)])"
      using False by (simp_all add: quiet_def)
    with F False show ?thesis unfolding stamp_ok_def by auto
  qed
qed (simp add: stamp_ok_def)

lemma talk_after_stamp:
  assumes "m_silent_since_us m = 0"
  shows "talk_after cpy prof fs (b, m) = (b', m') \<Longrightarrow>
     m_energy_threshold m' = m_energy_threshold m \<and> stamp_ok (m_energy_threshold m) fs (m_silent_since_us m')"
proof (induction fs arbitrary: b' m' rule: rev_induct)
  case Nil
  with assms show ?case by (simp add: talk_after_def stamp_ok_def)
next
  case (snoc f fs)
  obtain now score where f: "f = (now, score)" by (rule prod.exhaust)
  obtain b1 m1 where s: "talk_after cpy prof fs (b, m) = (b1, m1)" by (rule prod.exhaust)
  then have e: "energy_step cpy now now prof score b1 m1 = (b', m')" using snoc.prems f by (simp add: talk_after_def)
  from snoc.IH [OF s] have i: "m_energy_threshold m1 = m_energy_threshold m" "stamp_ok (m_energy_threshold m) fs (m_silent_since_us m1)"
    by simp_all
  from stamp_step [OF i(2), of now score] i(1) energy_step_fields(1,2) [OF e] f show ?case by simp
qed

lemma energy_sum_mean:
  assumes "length xs \<le> 131071" "list_all (\<lambda>x. \<bar>x\<bar> \<le> 32768) xs"
  shows "uint (energy_sum xs) = sum_list (map abs xs) \<and> sum_list (map abs xs) \<le> 32768 * int (length xs)"
  using assms
proof (induction xs rule: rev_induct)
  case Nil
  then show ?case by (simp add: energy_sum_def)
next
  case (snoc x xs)
  have i: "uint (energy_sum xs) = sum_list (map abs xs)" "sum_list (map abs xs) \<le> 32768 * int (length xs)" "\<bar>x\<bar> \<le> 32768"
    using snoc by simp_all
  have nn: "0 \<le> sum_list (map abs xs)" using i(1) by (metis uint_ge_0)
  have "sum_list (map abs xs) + \<bar>x\<bar> \<le> 32768 * int (length (xs @ [x]))" using i by simp
  moreover have "32768 * int (length (xs @ [x])) < 2 ^ 32" using snoc.prems by simp
  ultimately have lt: "sum_list (map abs xs) + \<bar>x\<bar> < 2 ^ 32" by linarith
  have "uint (energy_sum (xs @ [x])) = (uint (energy_sum xs) + \<bar>x\<bar>) mod 2 ^ 32"
    by (simp add: energy_sum_def uint_word_ariths uint_word_of_int mod_simps take_bit_eq_mod)
  also have "\<dots> = sum_list (map abs xs) + \<bar>x\<bar>" using lt nn i(1) by (simp add: mod_pos_pos_trivial)
  finally show ?case using i by simp
qed

section \<open>Promotion and the listener list\<close>

lemma rep_mflags:
  assumes "listener_rep r xs" "rm_heap r a = Some m"
  shows "listener_rep (r\<lparr>rm_heap := (rm_heap r)(a \<mapsto> m\<lparr>m_mflags := w\<rparr>)\<rparr>) xs"
proof -
  have "lk ((rm_heap r)(a \<mapsto> m\<lparr>m_mflags := w\<rparr>)) x = lk (rm_heap r) x" for x
    using assms(2) by (simp add: lk_upd) (simp add: lk_def)
  then have "dll ((rm_heap r)(a \<mapsto> m\<lparr>m_mflags := w\<rparr>)) pr p xs l q = dll (rm_heap r) pr p xs l q" for pr p l q
    by (intro dll_cong) simp
  with assms show ?thesis by (auto simp: listener_rep_def)
qed

lemma promotion_begin_ok:
  assumes "listener_rep r xs" "a \<in> set xs" "rm_heap r a = Some m" "m_in_listener_bridge m"
  obtains r1 m1 where "promotion_begin a r = Some (ST_SUCCESS, r1)" "listener_rep r1 (remove1 a xs)" "rm_heap r1 a = Some m1"
    "has_flag (m_mflags m1) MFLAG_ROLE_TRANSITION_TO_SPEAKER" "\<not> has_flag (m_mflags m1) MFLAG_RUNNING"
    "b_destroyed (rm_b r1) = b_destroyed (rm_b r)" "b_cflags (rm_b r1) = b_cflags (rm_b r)"
    "b_current_speaker (rm_b r1) = b_current_speaker (rm_b r)"
    "b_profile (rm_b r1) = b_profile (rm_b r)" "unat (b_listener_count (rm_b r1)) = length xs - 1"
proof -
  from assms(1,2) obtain r0 where r0: "unlink_node a r = Some r0" "listener_rep r0 (remove1 a xs)"
    "same_data (rm_heap r) (rm_heap r0)"
    "\<exists>hd. rm_b r0 = (rm_b r)\<lparr>b_listener_head := hd, b_listener_count := b_listener_count (rm_b r) - 1\<rparr>"
    by (rule unlink_keeps_rep)
  from same_data_known [OF r0(3), of a] assms(3) obtain m0 where m0: "rm_heap r0 a = Some m0" by auto
  let ?w = "clr_flag (set_flag (m_mflags m0) MFLAG_ROLE_TRANSITION_TO_SPEAKER) MFLAG_RUNNING"
  let ?r1 = "r0\<lparr>rm_heap := (rm_heap r0)(a \<mapsto> m0\<lparr>m_mflags := ?w\<rparr>)\<rparr>"
  have b: "promotion_begin a r = Some (ST_SUCCESS, ?r1)"
    using assms(3,4) r0(1) m0 assms(2) find_in_rep [OF assms(1), of a]
    by (simp add: promotion_begin_def broadcast_listener_unlink_for_promotion_def)
  have rep: "listener_rep ?r1 (remove1 a xs)" by (rule rep_mflags [OF r0(2) m0])
  from r0(2) have "unat (b_listener_count (rm_b r0)) = length (remove1 a xs)" by (simp add: listener_rep_def)
  then have "unat (b_listener_count (rm_b r0)) = length xs - 1" using assms(2) by (simp add: length_remove1)
  then show ?thesis using r0(4) by (intro that [OF b rep]) (auto simp: flag_simps)
qed

text \<open>
  C6. The speaker pointer never dangles. In every reachable state of the lifetime protocol the
  member that \<open>current_speaker\<close> names is still inside the application, its object exists, and its
  audio mutex and buffer are there: the invariant under which the producer may read them.
\<close>

theorem speaker_never_dangles:
  assumes "sp_inv s0" "sp_step\<^sup>*\<^sup>* s0 s" "b_current_speaker (rm_b (sp_room s)) = Some a"
  shows "sp_phase s a = InApp \<and> (\<exists>m. rm_heap (sp_room s) a = Some m \<and> m_audio_buffer m \<noteq> None \<and> m_audio_in_mutex m)"
  using sp_inv_speaker [OF sp_reach_inv [OF assms(2,1)] assms(3)] by (simp add: audio_ready_def)

definition empty_room :: room where
  "empty_room = \<lparr>rm_b = (zero_broadcast 4)\<lparr>b_profile := Some zero_profile\<rparr>, rm_heap = Map.empty, rm_served = 0\<rparr>"

definition no_members :: sp_state where
  "no_members = \<lparr>sp_room = empty_room, sp_phase = (\<lambda>a. Absent), sp_pending = []\<rparr>"

definition all_ok :: prep_io where
  "all_ok = \<lparr>pi_write_codec = True, pi_read_codec = True, pi_mutex = True, pi_buffer = ST_SUCCESS, pi_thread = ST_SUCCESS\<rparr>"

lemma no_members_inv: "sp_inv no_members"
  by (simp add: sp_inv_def no_members_def empty_room_def zero_broadcast_def)

text \<open>One member joins and installs itself; a second one replaces it.\<close>

definition joined_speaker :: member_obj where
  "joined_speaker = (zero_member ''aa'')\<lparr>m_read_codec := True, m_audio_in_mutex := True, m_audio_buffer := Some [],
     m_role := BMEMBER_ROLE_SPEAKER, m_input_running := True, m_input_thread := True, m_speaker_since_us := 9\<rparr>"

definition one_speaker :: sp_state where
  "one_speaker = \<lparr>sp_room = empty_room\<lparr>rm_b := (rm_b empty_room)\<lparr>b_current_speaker := Some 1, b_speaker_active_since := 9\<rparr>,
      rm_heap := [1 \<mapsto> joined_speaker]\<rparr>, sp_phase = (\<lambda>a. Absent)(1 := InApp), sp_pending = []\<rparr>"

definition replaced_speaker :: sp_state where
  "replaced_speaker = \<lparr>sp_room = empty_room\<lparr>rm_b := (rm_b empty_room)\<lparr>b_current_speaker := Some 2, b_speaker_active_since := 9\<rparr>,
      rm_heap := [1 \<mapsto> joined_speaker, 2 \<mapsto> joined_speaker]\<rparr>,
      sp_phase = (\<lambda>a. Absent)(1 := InApp, 2 := InApp), sp_pending = [1]\<rparr>"

lemma publish_zero_member:
  "rm_heap r a = Some (zero_member ''aa'') \<Longrightarrow> b_current_speaker (rm_b r) \<noteq> Some a \<Longrightarrow>
   speaker_publish all_ok 9 (Some a) r = Some (ST_SUCCESS,
     r\<lparr>rm_b := (rm_b r)\<lparr>b_current_speaker := Some a, b_speaker_active_since := 9\<rparr>, rm_heap := (rm_heap r)(a \<mapsto> joined_speaker)\<rparr>,
     b_current_speaker (rm_b r), [BEVT_SPEAKER_SET])"
  by (simp add: speaker_publish_def speaker_install_def broadcast_member_ensure_speaker_audio_def
      broadcast_speaker_start_input_def all_ok_def joined_speaker_def zero_member_def)

lemma join_publish:
  assumes "sp_phase s a = Absent" "b_current_speaker (rm_b (sp_room s)) \<noteq> Some a"
  shows "sp_step\<^sup>*\<^sup>* s (s\<lparr>sp_room := (sp_room s)\<lparr>rm_b := (rm_b (sp_room s))\<lparr>b_current_speaker := Some a, b_speaker_active_since := 9\<rparr>,
        rm_heap := (rm_heap (sp_room s))(a \<mapsto> joined_speaker)\<rparr>, sp_phase := (sp_phase s)(a := InApp),
      sp_pending := (case b_current_speaker (rm_b (sp_room s)) of None \<Rightarrow> [] | Some x \<Rightarrow> [x]) @ sp_pending s\<rparr>)"
proof -
  let ?s1 = "s\<lparr>sp_room := (sp_room s)\<lparr>rm_heap := (rm_heap (sp_room s))(a \<mapsto> zero_member ''aa'')\<rparr>, sp_phase := (sp_phase s)(a := InApp)\<rparr>"
  have 1: "sp_step s ?s1" by (rule sp_step.sp_join [OF assms(1)])
  have p: "rm_heap (sp_room ?s1) a = Some (zero_member ''aa'')" "b_current_speaker (rm_b (sp_room ?s1)) \<noteq> Some a"
    using assms(2) by simp_all
  have ph: "sp_phase ?s1 a = InApp" by simp
  note 2 = sp_step.sp_publish [OF ph publish_zero_member [OF p]]
  have a: "sp_step\<^sup>*\<^sup>* s (?s1\<lparr>sp_room := (sp_room ?s1)\<lparr>rm_b := (rm_b (sp_room ?s1))\<lparr>b_current_speaker := Some a,
        b_speaker_active_since := 9\<rparr>, rm_heap := (rm_heap (sp_room ?s1))(a \<mapsto> joined_speaker)\<rparr>,
      sp_pending := (case b_current_speaker (rm_b (sp_room ?s1)) of None \<Rightarrow> [] | Some x \<Rightarrow> [x]) @ sp_pending ?s1\<rparr>)" (is "rtranclp _ _ ?s2")
    using 1 2 by (meson converse_rtranclp_into_rtranclp r_into_rtranclp)
  have e: "?s2 = s\<lparr>sp_room := (sp_room s)\<lparr>rm_b := (rm_b (sp_room s))\<lparr>b_current_speaker := Some a, b_speaker_active_since := 9\<rparr>,
        rm_heap := (rm_heap (sp_room s))(a \<mapsto> joined_speaker)\<rparr>, sp_phase := (sp_phase s)(a := InApp),
      sp_pending := (case b_current_speaker (rm_b (sp_room s)) of None \<Rightarrow> [] | Some x \<Rightarrow> [x]) @ sp_pending s\<rparr>"
    by (cases s) simp
  from a show ?thesis by (simp only: e)
qed

lemma reach_one: "sp_step\<^sup>*\<^sup>* no_members one_speaker"
  using join_publish [of no_members 1] by (simp add: no_members_def one_speaker_def empty_room_def zero_broadcast_def)

lemma reach_replaced: "sp_step\<^sup>*\<^sup>* no_members replaced_speaker"
proof -
  have "sp_step\<^sup>*\<^sup>* one_speaker replaced_speaker"
    using join_publish [of one_speaker 2]
    by (simp add: one_speaker_def replaced_speaker_def empty_room_def zero_broadcast_def)
  with reach_one show ?thesis by (rule rtranclp_trans)
qed

theorem speaker_never_dangles_witness:
  "sp_phase replaced_speaker 2 = InApp \<and> (\<exists>m. rm_heap (sp_room replaced_speaker) 2 = Some m \<and> m_audio_buffer m \<noteq> None \<and> m_audio_in_mutex m)"
  by (rule speaker_never_dangles [OF no_members_inv reach_replaced]) (simp add: replaced_speaker_def)

text \<open>
  The replaced speaker has no such protection. \<open>broadcast_set_speaker\<close> goes on to use the pointer to
  the speaker it replaced after it has released the lock; in a reachable state that member has
  left the application and its pool has been freed, and the access is a use after free.
\<close>

theorem replaced_speaker_use_after_free:
  "\<exists>s. sp_step\<^sup>*\<^sup>* no_members s \<and> 1 \<in> set (sp_pending s) \<and> speaker_retire 1 (sp_room s) = None"
proof -
  let ?s = replaced_speaker
  let ?s1 = "?s\<lparr>sp_room := sp_room ?s, sp_phase := (sp_phase ?s)(1 := Leaving)\<rparr>"
  let ?s2 = "?s1\<lparr>sp_room := (sp_room ?s1)\<lparr>rm_heap := (rm_heap (sp_room ?s1))(1 := None)\<rparr>, sp_phase := (sp_phase ?s1)(1 := Absent)\<rparr>"
  have "sp_step ?s ?s1"
    by (rule sp_step.sp_leave) (simp_all add: replaced_speaker_def broadcast_clear_speaker_if_current_def)
  moreover have "sp_step ?s1 ?s2" by (rule sp_step.sp_free) simp
  ultimately have "sp_step\<^sup>*\<^sup>* no_members ?s2" using reach_replaced by (meson rtranclp.rtrancl_into_rtrancl)
  moreover have "1 \<in> set (sp_pending ?s2)" "speaker_retire 1 (sp_room ?s2) = None"
    by (simp_all add: replaced_speaker_def speaker_retire_def)
  ultimately show ?thesis by blast
qed

text \<open>
  C29. Talk detection. With \<open>m\<close> not yet in a silence, after any series of frames the next frame
  turns the talking state on only if its score exceeds the threshold, and turns it off only after
  a run of frames, all of them at most at the threshold and the frame itself the last, that is
  longer than \<open>silence_window_ms\<close>.
\<close>

theorem talk_detection_hysteresis:
  assumes "m_silent_since_us m0 = 0" "talk_after cpy prof fs (b0, m0) = (b, m)"
    and "energy_step cpy now now prof score b m = (b', m')"
  shows "(\<not> m_talking_state m \<and> m_talking_state m' \<longrightarrow> m_energy_threshold m0 < score)
    \<and> (m_talking_state m \<and> \<not> m_talking_state m' \<longrightarrow>
        (\<exists>ys t sc zs. fs @ [(now, score)] = ys @ (t, sc) # zs
          \<and> quiet (m_energy_threshold m0) ((t, sc) # zs) \<and> uint (p_silence_window_ms prof) * 1000 < now - t))"
proof -
  have thr: "m_energy_threshold m = m_energy_threshold m0" and st: "stamp_ok (m_energy_threshold m0) fs (m_silent_since_us m)"
    using talk_after_stamp [OF assms(1,2)] by simp_all
  note f = energy_step_fields [OF assms(3), unfolded thr]
  have st': "stamp_ok (m_energy_threshold m0) (fs @ [(now, score)]) (m_silent_since_us m')"
    unfolding f(2) by (rule stamp_step [OF st])
  have "m_silent_since_us m' \<noteq> 0 \<and> uint (p_silence_window_ms prof) * 1000 < now - m_silent_since_us m'"
    if off: "m_talking_state m" "\<not> m_talking_state m'"
  proof -
    have low: "\<not> m_energy_threshold m0 < score" and gap: "uint (p_silence_window_ms prof) * 1000 < now - m_silent_since_us m'"
      using off f(3) by (auto split: if_splits)
    have "0 \<le> uint (p_silence_window_ms prof) * 1000" by simp
    with gap have "m_silent_since_us m' \<noteq> now" by linarith
    then have "m_silent_since_us m' \<noteq> 0" using low f(2) by (auto split: if_splits)
    with gap show ?thesis by blast
  qed
  with st' have "m_talking_state m \<and> \<not> m_talking_state m' \<Longrightarrow> \<exists>ys t sc zs. fs @ [(now, score)] = ys @ (t, sc) # zs
          \<and> quiet (m_energy_threshold m0) ((t, sc) # zs) \<and> uint (p_silence_window_ms prof) * 1000 < now - t"
    unfolding stamp_ok_def by metis
  moreover have "\<not> m_talking_state m \<and> m_talking_state m' \<Longrightarrow> m_energy_threshold m0 < score"
    using f(3) by (auto split: if_splits)
  ultimately show ?thesis by blast
qed

definition loud_quiet :: "(usec \<times> u32) list" where
  "loud_quiet = [(1000, 900), (2000, 10), (500000, 20)]"

theorem talk_detection_hysteresis_witness:
  "m_talking_state (snd (energy_step cut_copy 900000 900000 zero_profile 30 (fst (talk_after cut_copy zero_profile loud_quiet
        (zero_broadcast 4, zero_member ''aa''))) (snd (talk_after cut_copy zero_profile loud_quiet (zero_broadcast 4, zero_member ''aa''))))) = False
   \<and> (\<exists>ys t sc zs. loud_quiet @ [(900000, 30)] = ys @ (t, sc) # zs \<and> quiet 500 ((t, sc) # zs) \<and> 800 * 1000 < 900000 - t)"
proof -
  obtain b m where s: "talk_after cut_copy zero_profile loud_quiet (zero_broadcast 4, zero_member ''aa'') = (b, m)" by (rule prod.exhaust)
  obtain b' m' where e: "energy_step cut_copy 900000 900000 zero_profile 30 b m = (b', m')" by (rule prod.exhaust)
  have m: "m_talking_state m" "m_silent_since_us m = 2000" "m_energy_threshold m = 500"
    using s by (auto simp: talk_after_def loud_quiet_def energy_step_def zero_member_def zero_profile_def)
  have m': "\<not> m_talking_state m'" using energy_step_fields [OF e] m by (simp add: zero_profile_def)
  have z: "m_silent_since_us (zero_member ''aa'') = 0" "m_energy_threshold (zero_member ''aa'') = 500"
    "uint (p_silence_window_ms zero_profile) = 800" by (simp_all add: zero_member_def zero_profile_def)
  from talk_detection_hysteresis [OF z(1) s e] m(1) m' s e show ?thesis by (simp add: z)
qed

text \<open>
  The energy score is the mean magnitude of the frame's samples: the 32-bit sum does not wrap
  for any frame of at most 131071 16-bit samples.
\<close>

theorem energy_score_mean:
  assumes "n = unat (if_datalen f div 2)" "length (if_samples f) = n" "0 < n" "n \<le> 131071"
    and "list_all (\<lambda>x. \<bar>x\<bar> \<le> 32768) (if_samples f)"
  shows "uint (energy_score f) = sum_list (map abs (if_samples f)) div int n"
proof -
  have n: "if_datalen f div 2 \<noteq> 0" using assms(1,3) by auto
  have "uint (energy_sum (if_samples f)) = sum_list (map abs (if_samples f))"
    using energy_sum_mean [of "if_samples f"] assms by simp
  moreover have "int n = uint (if_datalen f div 2)" using assms(1) by simp
  ultimately show ?thesis using n assms(1,2) by (simp add: energy_score_def Let_def uint_div_distrib)
qed

theorem energy_score_mean_witness:
  "uint (energy_score \<lparr>if_cng = False, if_datalen = 6, if_data = [], if_samples = [-32768, 100, 32767]\<rparr>) = 21878"
  by (subst energy_score_mean [of 3]) simp_all

text \<open>
  C38. A promotion that times out puts a departed member back. While the caller waits, the
  member's own thread may leave: its \<open>broadcast_listener_del\<close> finds the member already unlinked and
  does nothing. If the bridge flag is still up at the caller's last look, the caller links the member again:
  the list then names a member whose thread is past its only removal, and once the session is freed
  every walk of the list from its head runs into freed memory.
\<close>

theorem promotion_rollback_relinks:
  assumes "listener_rep r xs" "a \<in> set xs" "rm_heap r a = Some m" "m_in_listener_bridge m"
    and "\<not> b_destroyed (rm_b r)" "\<not> has_flag (b_cflags (rm_b r)) BFLAG_LOCKED"
  shows "\<exists>r1 r2. promotion_begin a r = Some (ST_SUCCESS, r1)
    \<and> broadcast_listener_del cpy t a r1 = Some (ST_SUCCESS, r1)
    \<and> promotion_end cpy now now' True a r1 = Some (ST_FALSE, r2)
    \<and> listener_rep r2 (a # remove1 a xs)
    \<and> list_find P ((rm_heap r2)(a := None)) (b_listener_head (rm_b r2)) = None"
proof -
  from promotion_begin_ok [OF assms(1-4)] obtain r1 m1 where r1: "promotion_begin a r = Some (ST_SUCCESS, r1)"
    "listener_rep r1 (remove1 a xs)" "rm_heap r1 a = Some m1" "b_destroyed (rm_b r1) = b_destroyed (rm_b r)"
    "b_cflags (rm_b r1) = b_cflags (rm_b r)" "b_profile (rm_b r1) = b_profile (rm_b r)"
    "unat (b_listener_count (rm_b r1)) = length xs - 1" by metis
  have out: "a \<notin> set (remove1 a xs)" using assms(1) by (simp add: listener_rep_def)
  then have del: "broadcast_listener_del cpy t a r1 = Some (ST_SUCCESS, r1)"
    using find_in_rep [OF r1(2), of a] by (simp add: broadcast_listener_del_def)
  let ?r1 = "r1\<lparr>rm_heap := (rm_heap r1)(a \<mapsto> m1\<lparr>m_mflags := clr_flag (m_mflags m1) MFLAG_ROLE_TRANSITION_TO_SPEAKER\<rparr>)\<rparr>"
  have rep: "listener_rep ?r1 (remove1 a xs)" by (rule rep_mflags [OF r1(2,3)])
  from assms(1) obtain prof where prof: "b_profile (rm_b r) = Some prof" "b_listener_count (rm_b r) \<le> p_max_listeners prof"
    "unat (b_listener_count (rm_b r)) = length xs" by (auto simp: listener_rep_def)
  have "0 < length xs" using assms(2) by (cases xs) auto
  then have "length xs - 1 < unat (p_max_listeners prof)" using prof(2,3) unfolding word_le_nat_alt by linarith
  then have "b_listener_count (rm_b r1) < p_max_listeners prof" using r1(7) unfolding word_less_nat_alt by simp
  with prof(1) r1 assms(5,6) have adm: "listener_admits ?r1" by (simp add: listener_admits_def)
  have m1: "rm_heap ?r1 a = Some (m1\<lparr>m_mflags := clr_flag (m_mflags m1) MFLAG_ROLE_TRANSITION_TO_SPEAKER\<rparr>)" by simp
  from listener_add_ok [OF rep m1 out adm, of cpy now now'] obtain r2 where
    r2: "broadcast_listener_add cpy now now' a ?r1 = Some (ST_SUCCESS, r2)" "listener_rep r2 (a # remove1 a xs)" by metis
  then have hd: "b_listener_head (rm_b r2) = Some a" by (auto simp: listener_rep_def)
  have "promotion_end cpy now now' True a r1 = Some (ST_FALSE, r2)"
    using r1(3) r2(1) by (simp add: promotion_end_def)
  moreover have "list_find P ((rm_heap r2)(a := None)) (b_listener_head (rm_b r2)) = None"
    unfolding hd by (subst list_find.simps) simp
  ultimately show ?thesis using r1(1) del r2(2) by blast
qed

definition bridged_room :: room where
  "bridged_room = \<lparr>rm_b = (zero_broadcast 4)\<lparr>b_profile := Some zero_profile, b_listener_head := Some 1,
     b_listener_count := 1, b_stat_peak_listeners := 1\<rparr>,
     rm_heap = [1 \<mapsto> (zero_member ''aa'')\<lparr>m_in_listener_bridge := True\<rparr>], rm_served = 1\<rparr>"

lemma bridged_room_rep: "listener_rep bridged_room [1]"
  by (simp add: listener_rep_def bridged_room_def zero_broadcast_def zero_profile_def zero_member_def lk_def)

theorem promotion_rollback_relinks_witness:
  "\<exists>r1 r2. promotion_begin 1 bridged_room = Some (ST_SUCCESS, r1)
    \<and> broadcast_listener_del cut_copy 5 1 r1 = Some (ST_SUCCESS, r1)
    \<and> promotion_end cut_copy 6 7 True 1 r1 = Some (ST_FALSE, r2)
    \<and> listener_rep r2 (1 # remove1 1 [1])
    \<and> list_find (\<lambda>x m. False) ((rm_heap r2)(1 := None)) (b_listener_head (rm_b r2)) = None"
  by (rule promotion_rollback_relinks [OF bridged_room_rep, of _ "(zero_member ''aa'')\<lparr>m_in_listener_bridge := True\<rparr>"])
     (simp_all add: bridged_room_def zero_broadcast_def flag_simps)

text \<open>
  The last look of the wait loop and the clear that follows are two critical sections: a speaker
  published in between is cleared in its stead.
\<close>

lemma main_wait_end_clears_successor:
  assumes "b_current_speaker (rm_b r) = Some a" "others r = r1" "b_current_speaker (rm_b r1) = Some c" "c \<noteq> a"
    "main_wait_end io now others a r = Some r'"
  shows "b_current_speaker (rm_b r') = None"
proof -
  have "speaker_install now None r1 = Some (ST_SUCCESS,
      r1\<lparr>rm_b := (rm_b r1)\<lparr>b_current_speaker := None, b_speaker_active_since := now\<rparr>\<rparr>, Some c, [BEVT_SPEAKER_CLEAR])"
    using assms(3) by (simp add: speaker_install_def)
  with assms show ?thesis
    by (auto simp: main_wait_end_def broadcast_clear_speaker_def broadcast_set_speaker_def speaker_publish_def
        speaker_retire_def bind_eq_Some_conv)
qed

end
