(* ===== verification/Registry.thy ===== *)
theory Registry
  imports Frame_Ring Producer Recorder Speaker
begin

text \<open>
  broadcast_core.c: the table of broadcasts. Lookup with and without a reference, creation with its
  resource checks, kicking of listeners, and the teardown of one broadcast or all of them.
  Broadcasts live at addresses (\<open>baddr\<close>); a pool that has been freed is an address without an object,
  and an access to it is undefined behaviour.
\<close>

section \<open>The table\<close>

text \<open>
  \<open>switch_core_hash\<close> as the code uses it: insert of a key that is not there, lookup, delete by key, and
  enumeration, in an order on which no theorem depends.
\<close>

record registry =
  rg_g :: broadcast_globals
  rg_store :: "baddr \<Rightarrow> room option"

definition hash_lookup :: "registry \<Rightarrow> string \<Rightarrow> baddr option" where
  "hash_lookup reg name = map_of (g_broadcast_hash (rg_g reg)) name"

definition hash_insert :: "string \<Rightarrow> baddr \<Rightarrow> broadcast_globals \<Rightarrow> broadcast_globals" where
  "hash_insert name a g = g\<lparr>g_broadcast_hash := (name, a) # g_broadcast_hash g\<rparr>"

definition hash_delete :: "string \<Rightarrow> broadcast_globals \<Rightarrow> broadcast_globals" where
  "hash_delete name g = g\<lparr>g_broadcast_hash := filter (\<lambda>(k, a). k \<noteq> name) (g_broadcast_hash g)\<rparr>"

definition upd_b :: "(broadcast_obj \<Rightarrow> broadcast_obj) \<Rightarrow> room \<Rightarrow> room" where
  "upd_b f r = r\<lparr>rm_b := f (rm_b r)\<rparr>"

section \<open>Lookup and references\<close>

definition broadcast_find :: "string option \<Rightarrow> registry \<Rightarrow> baddr option" where
  "broadcast_find name reg = (if zstr name then None else hash_lookup reg (the name))"

definition broadcast_find_and_ref :: "string option \<Rightarrow> registry \<Rightarrow> (baddr option \<times> registry) option" where
  "broadcast_find_and_ref name reg =
     (if zstr name then Some (None, reg)
      else
        (case hash_lookup reg (the name) of
           None \<Rightarrow> Some (None, reg)
         | Some a \<Rightarrow> do {
             r \<leftarrow> rg_store reg a;
             if b_destroyed (rm_b r) \<or> has_flag (b_cflags (rm_b r)) BFLAG_DESTRUCT then Some (None, reg)
             else Some (Some a, reg\<lparr>rg_store := (rg_store reg)(a \<mapsto> upd_b (\<lambda>b. b\<lparr>b_live_refs := b_live_refs b + 1\<rparr>) r)\<rparr>) }))"

definition broadcast_release :: "baddr option \<Rightarrow> registry \<Rightarrow> registry option" where
  "broadcast_release p reg =
     (case p of
        None \<Rightarrow> Some reg
      | Some a \<Rightarrow> do {
          r \<leftarrow> rg_store reg a;
          Some (reg\<lparr>rg_store := (rg_store reg)(a \<mapsto> upd_b (\<lambda>b. b\<lparr>b_live_refs := b_live_refs b - 1\<rparr>) r)\<rparr>) })"

section \<open>Creation\<close>

text \<open>
  What a call of \<open>broadcast_create\<close> gets from outside: the outcomes of the core's pool, thread and event
  creation, the new object's address, the uuid and the clock, what other threads do between the
  release of the table lock and the store of the first reference, and the expansion and recording services
  that automatic recording uses.
\<close>

record create_io =
  ci_pool :: bool
  ci_addr :: baddr
  ci_uuid :: string
  ci_now :: usec
  ci_thread :: switch_status
  ci_others :: "registry \<Rightarrow> registry"
  ci_session :: "(string \<Rightarrow> string option) option"
  ci_event_ok :: bool
  ci_expand :: "(string \<times> string) list \<Rightarrow> string \<Rightarrow> string option"
  ci_rec_pool :: bool
  ci_fopen :: "string \<Rightarrow> u8 \<Rightarrow> u32 \<Rightarrow> switch_status"
  ci_rec_thread :: bool

definition b_expand_auto_record_template :: "create_io \<Rightarrow> broadcast_obj \<Rightarrow> string option" where
  "b_expand_auto_record_template io b =
     (case b_profile b of
        None \<Rightarrow> None
      | Some p \<Rightarrow>
          if zstr (p_record_template p) then None
          else if \<not> ci_event_ok io then None
          else ci_expand io [(''broadcast_name'', b_name b), (''name'', b_name b), (''uuid'', b_uuid_str b)]
                 (the (p_record_template p)))"

definition zero_slot :: ring_frame where
  "zero_slot = \<lparr>rf_seq = 0, rf_datalen = 0, rf_samples = 0, rf_data = replicate BROADCAST_MAX_FRAME_BYTES 0, rf_silence = 0\<rparr>"

definition ring_slots :: "broadcast_profile \<Rightarrow> u32" where
  "ring_slots prof = (if p_ring_size prof \<noteq> 0 then p_ring_size prof else BROADCAST_DEFAULT_RING_SIZE)"

definition event_slots :: "broadcast_globals \<Rightarrow> u32" where
  "event_slots g = (if g_event_ring_size g \<noteq> 0 then g_event_ring_size g else BROADCAST_EVENT_RING_SIZE)"

text \<open>The new object: zeroed memory, then the fields the function stores.\<close>

definition new_broadcast ::
  "create_io \<Rightarrow> broadcast_globals \<Rightarrow> string \<Rightarrow> broadcast_profile \<Rightarrow> u32 \<Rightarrow> u32 \<Rightarrow> broadcast_obj" where
  "new_broadcast io g name prof spf bpf =
     (zero_broadcast (event_slots g))\<lparr>
        b_name := name, b_profile := Some prof, b_rate := p_rate prof, b_interval_ms := p_interval_ms prof,
        b_channels := ucast (p_channels prof), b_samples_per_frame := spf, b_bytes_per_frame := bpf,
        b_ring_size := ring_slots prof, b_silence_policy := p_silence_policy prof, b_uuid_str := ci_uuid io,
        b_ring := replicate (unat (ring_slots prof)) zero_slot,
        b_silence_zero_buf := Some (replicate BROADCAST_MAX_FRAME_BYTES 0), b_created_at := ci_now io,
        b_cflags := set_flag 0 BFLAG_RUNNING, b_producer_seq := 0\<rparr>"

definition auto_record :: "copy_string \<Rightarrow> create_io \<Rightarrow> broadcast_profile \<Rightarrow> broadcast_obj \<Rightarrow> broadcast_obj" where
  "auto_record cpy io prof b =
     (if \<not> p_auto_record prof then b
      else
        (case (case ci_session io of
                 Some f \<Rightarrow> (case p_record_template prof of None \<Rightarrow> None | Some t \<Rightarrow> f t)
               | None \<Rightarrow> b_expand_auto_record_template io b) of
           None \<Rightarrow> broadcast_enqueue_event cpy (ci_now io) b BEVT_RECORDING_FAILED 0 (Some ''expand-failed'')
         | Some path \<Rightarrow>
             (case broadcast_record_start cpy (ci_now io) (ci_session io) (ci_rec_pool io) (ci_fopen io) (ci_rec_thread io) b (Some path) of
                (st, b) \<Rightarrow> if st \<noteq> ST_SUCCESS then broadcast_enqueue_event cpy (ci_now io) b BEVT_RECORDING_FAILED 0 (Some path) else b)))"

definition frame_geometry :: "broadcast_profile \<Rightarrow> u32 \<times> u32" where
  "frame_geometry prof =
     (let spf = (p_rate prof * p_interval_ms prof) div 1000 in (spf, spf * p_channels prof * 2))"

text \<open>
  The section under the table lock: a taken name, the limit, and a producer thread that does not start
  refuse; otherwise the object is entered and counted.
\<close>

definition create_insert :: "create_io \<Rightarrow> broadcast_obj \<Rightarrow> registry \<Rightarrow> registry option" where
  "create_insert io b reg =
     (let g = rg_g reg in
      if hash_lookup reg (b_name b) \<noteq> None then None
      else if g_max_broadcasts g \<le> g_active_broadcasts g then None
      else if ci_thread io \<noteq> ST_SUCCESS then None
      else Some (reg\<lparr>rg_g := (hash_insert (b_name b) (ci_addr io) g)\<lparr>g_active_broadcasts := g_active_broadcasts g + 1\<rparr>,
             rg_store := (rg_store reg)(ci_addr io \<mapsto>
               \<lparr>rm_b = b\<lparr>b_producer_running := True, b_producer_thread := True\<rparr>, rm_heap = Map.empty, rm_served = 0\<rparr>)\<rparr>))"

definition create_finish :: "copy_string \<Rightarrow> create_io \<Rightarrow> broadcast_profile \<Rightarrow> registry \<Rightarrow> registry option" where
  "create_finish cpy io prof reg = do {
     r \<leftarrow> rg_store reg (ci_addr io);
     let g = rg_g reg;
     Some (reg\<lparr>rg_g := g\<lparr>g_total_broadcasts_created := g_total_broadcasts_created g + 1\<rparr>,
       rg_store := (rg_store reg)(ci_addr io \<mapsto> upd_b (\<lambda>b. auto_record cpy io prof (b\<lparr>b_live_refs := 1\<rparr>)) r)\<rparr>) }"

definition broadcast_create ::
  "copy_string \<Rightarrow> create_io \<Rightarrow> string option \<Rightarrow> string option \<Rightarrow> registry \<Rightarrow> (baddr option \<times> registry) option" where
  "broadcast_create cpy io name profile_name reg =
     (if zstr name then Some (None, reg)
      else if \<not> ci_pool io then Some (None, reg)
      else do {
        found \<leftarrow> broadcast_config_find_profile (rg_g reg) profile_name;
        (case map_option broadcast_profile_clone found of
           None \<Rightarrow> Some (None, reg)
         | Some prof \<Rightarrow>
             (case frame_geometry prof of (spf, bpf) \<Rightarrow>
                if BROADCAST_MAX_FRAME_BYTES < unat bpf then Some (None, reg)
                else
                  (case create_insert io (new_broadcast io (rg_g reg) (the name) prof spf bpf) reg of
                     None \<Rightarrow> Some (None, reg)
                   | Some reg \<Rightarrow> do {
                       reg \<leftarrow> create_finish cpy io prof (ci_others io reg);
                       Some (Some (ci_addr io), reg) }))) })"

section \<open>Kicking listeners\<close>

datatype call_cause = CAUSE_NORMAL_CLEARING | CAUSE_SERVICE_UNAVAILABLE | CAUSE_MEDIA_TIMEOUT

text \<open>The hangup of a located session: its uuid, the reason put in \<open>broadcast_left_reason\<close>, the cause.\<close>

type_synonym hangup = "string \<times> string \<times> call_cause"

definition b_hangup_listener_session_by_uuid :: "(string \<Rightarrow> bool) \<Rightarrow> string \<Rightarrow> call_cause \<Rightarrow> string option \<Rightarrow> hangup list" where
  "b_hangup_listener_session_by_uuid locate reason cause uuid =
     (if zstr uuid then [] else if \<not> locate (the uuid) then [] else [(the uuid, reason, cause)])"

definition broadcast_kick_listener ::
  "copy_string \<Rightarrow> usec \<Rightarrow> (string \<Rightarrow> bool) \<Rightarrow> string \<Rightarrow> maddr \<Rightarrow> room \<Rightarrow> (room \<times> hangup list \<times> bool) option" where
  "broadcast_kick_listener cpy now locate reason a r = do {
     m \<leftarrow> rm_heap r a;
     if m_role m \<noteq> BMEMBER_ROLE_LISTENER then Some (r, [], False)
     else
       let r = r\<lparr>rm_heap := (rm_heap r)(a \<mapsto> m\<lparr>m_mflags := set_flag (m_mflags m) MFLAG_KICKED\<rparr>),
                 rm_b := broadcast_enqueue_event cpy now (rm_b r) BEVT_LISTENER_KICKED (m_id m) None\<rparr>
       in if \<not> zstr (m_uuid m) then Some (r, b_hangup_listener_session_by_uuid locate reason CAUSE_NORMAL_CLEARING (m_uuid m), False)
          else Some (r, [], m_channel m) }"

text \<open>
  The two loops over the list that \<open>broadcast_kick_all_listeners\<close> and \<open>broadcast_destroy_ex\<close> share:
  count the nodes, then visit at most \<open>n\<close> of them, raising MFLAG_KICKED and copying the uuid; \<open>ev\<close> is
  the event of each kick.
\<close>

partial_function (option) list_count :: "mheap \<Rightarrow> maddr option \<Rightarrow> nat option" where
  "list_count h p =
     (case p of
        None \<Rightarrow> Some 0
      | Some x \<Rightarrow> Option.bind (h x) (\<lambda>m. Option.bind (list_count h (m_next m)) (\<lambda>n. Some (Suc n))))"

declare list_count.simps [code]

definition kick_limit :: "bool \<Rightarrow> nat \<Rightarrow> nat" where
  "kick_limit malloc_ok n = (if n \<le> BROADCAST_DESTROY_KICK_STACK \<or> malloc_ok then n else BROADCAST_DESTROY_KICK_STACK)"

fun kick_walk :: "(u32 \<Rightarrow> broadcast_obj \<Rightarrow> broadcast_obj) \<Rightarrow> nat \<Rightarrow> maddr option \<Rightarrow> mheap \<Rightarrow> broadcast_obj
    \<Rightarrow> (string list \<times> mheap \<times> broadcast_obj) option" where
  "kick_walk ev 0 p h b = Some ([], h, b)"
| "kick_walk ev (Suc n) None h b = Some ([], h, b)"
| "kick_walk ev (Suc n) (Some x) h b =
     (case h x of
        None \<Rightarrow> None
      | Some m \<Rightarrow>
          (case kick_walk ev n (m_next m) (h(x \<mapsto> m\<lparr>m_mflags := set_flag (m_mflags m) MFLAG_KICKED\<rparr>)) (ev (m_id m) b) of
             None \<Rightarrow> None
           | Some (us, h, b) \<Rightarrow> Some ((case m_uuid m of None \<Rightarrow> [] | Some u \<Rightarrow> u) # us, h, b)))"

definition kick_snapshot :: "bool \<Rightarrow> (u32 \<Rightarrow> broadcast_obj \<Rightarrow> broadcast_obj) \<Rightarrow> room \<Rightarrow> (string list \<times> room) option" where
  "kick_snapshot malloc_ok ev r = do {
     n \<leftarrow> list_count (rm_heap r) (b_listener_head (rm_b r));
     (us, h, b) \<leftarrow> kick_walk ev (kick_limit malloc_ok n) (b_listener_head (rm_b r)) (rm_heap r) (rm_b r);
     Some (us, r\<lparr>rm_heap := h, rm_b := b\<rparr>) }"

definition hangup_all :: "(string \<Rightarrow> bool) \<Rightarrow> string \<Rightarrow> call_cause \<Rightarrow> string list \<Rightarrow> hangup list" where
  "hangup_all locate reason cause us = concat (map (\<lambda>u. b_hangup_listener_session_by_uuid locate reason cause (Some u)) us)"

definition broadcast_kick_all_listeners ::
  "copy_string \<Rightarrow> usec \<Rightarrow> (string \<Rightarrow> bool) \<Rightarrow> bool \<Rightarrow> room \<Rightarrow> (room \<times> hangup list) option" where
  "broadcast_kick_all_listeners cpy now locate malloc_ok r = do {
     (us, r) \<leftarrow> kick_snapshot malloc_ok (\<lambda>mid b. broadcast_enqueue_event cpy now b BEVT_LISTENER_KICKED mid None) r;
     Some (r, hangup_all locate ''kicked'' CAUSE_NORMAL_CLEARING us) }"

section \<open>Teardown\<close>

text \<open>
  \<open>broadcast_destroy_ex\<close> in its phases. What other threads do during the grace period and between
  two polls of the waits is a function on the room, and the clock of each poll is given with it.
\<close>

type_synonym poll = "usec \<times> (room \<Rightarrow> room)"

record destroy_io =
  di_now :: usec
  di_fopen :: "string \<Rightarrow> u8 \<Rightarrow> u32 \<Rightarrow> nat option"
  di_grace :: "room \<Rightarrow> room"
  di_locate :: "string \<Rightarrow> bool"
  di_malloc :: bool
  di_drain_from :: usec
  di_drain :: "poll list"
  di_refs_from :: usec
  di_refs :: "poll list"

definition clamp_grace :: "u32 \<Rightarrow> u32" where
  "clamp_grace grace_ms = (if 60000 < grace_ms then 60000 else grace_ms)"

definition grace_data :: "u32 \<Rightarrow> string option \<Rightarrow> string" where
  "grace_data grace_ms announce =
     take 511 (dec_string (unat grace_ms) @ ''|'' @ (case announce of None \<Rightarrow> [] | Some f \<Rightarrow> f))"

text \<open>Closing the playing file and clearing its flag, done after the grace period and again at the teardown.\<close>

definition stop_play :: "broadcast_obj \<Rightarrow> broadcast_obj" where
  "stop_play b = b\<lparr>b_play_fh := None, b_cflags := clr_flag (b_cflags b) BFLAG_PLAY_FILE\<rparr>"

definition destroy_mark :: "broadcast_obj \<Rightarrow> broadcast_obj" where
  "destroy_mark b = b\<lparr>b_cflags := set_flag (b_cflags b) BFLAG_DESTRUCT\<rparr>"

definition grace_announce :: "copy_string \<Rightarrow> destroy_io \<Rightarrow> u32 \<Rightarrow> string option \<Rightarrow> broadcast_obj \<Rightarrow> broadcast_obj" where
  "grace_announce cpy io grace_ms announce b =
     (let b = broadcast_enqueue_event cpy (di_now io) b BEVT_DESTROY_GRACE 0 (Some (grace_data grace_ms announce)) in
      if zstr announce then b
      else
        (case di_fopen io (the announce) (b_channels b) (b_rate b) of
           Some fh \<Rightarrow> b\<lparr>b_play_fh := Some fh, b_cflags := set_flag (b_cflags b) BFLAG_PLAY_FILE\<rparr>
         | None \<Rightarrow> b\<lparr>b_play_fh := None\<rparr>))"

text \<open>The grace period: the room after it and the time slept, in microseconds.\<close>

definition destroy_grace :: "copy_string \<Rightarrow> destroy_io \<Rightarrow> u32 \<Rightarrow> string option \<Rightarrow> room \<Rightarrow> room \<times> usec" where
  "destroy_grace cpy io grace_ms announce r =
     (if 0 < grace_ms then
        (upd_b stop_play (di_grace io (upd_b (grace_announce cpy io grace_ms announce) r)), uint grace_ms * 1000000)
      else (r, 0))"

definition destroy_stop :: "copy_string \<Rightarrow> destroy_io \<Rightarrow> room \<Rightarrow> (maddr option \<times> room) option" where
  "destroy_stop cpy io r =
     (let r = upd_b (\<lambda>b. broadcast_record_stop_all cpy (di_now io) ((stop_play (b\<lparr>b_destroyed := True\<rparr>))\<lparr>b_moh_open := False\<rparr>)) r;
          old = b_current_speaker (rm_b r)
      in case old of
           None \<Rightarrow> Some (None, r)
         | Some o' \<Rightarrow> do {
             m \<leftarrow> rm_heap r o';
             Some (old, r\<lparr>rm_b := (rm_b r)\<lparr>b_current_speaker := None\<rparr>, rm_heap := (rm_heap r)(o' \<mapsto> broadcast_speaker_stop_input m)\<rparr>) })"

text \<open>How a wait ends: its condition was seen, its time ran out, a freed member was read, or it still polls.\<close>

datatype wait_result = Reached room | TimedOut room | BadAccess | StillPolling

fun drain_wait :: "maddr option \<Rightarrow> usec \<Rightarrow> poll list \<Rightarrow> room \<Rightarrow> wait_result" where
  "drain_wait old deadline [] r = StillPolling"
| "drain_wait old deadline ((now, others) # polls) r0 =
     (let r = others r0 in
      if deadline < now then TimedOut r
      else
        (case (case old of None \<Rightarrow> Some False | Some o' \<Rightarrow> map_option m_in_speaker_wait (rm_heap r o')) of
           None \<Rightarrow> BadAccess
         | Some speaker_wait \<Rightarrow>
             if b_listener_count (rm_b r) = 0 \<and> b_current_speaker (rm_b r) = None \<and> \<not> speaker_wait then Reached r
             else drain_wait old deadline polls r))"

fun refs_wait :: "usec \<Rightarrow> poll list \<Rightarrow> room \<Rightarrow> wait_result" where
  "refs_wait deadline [] r = StillPolling"
| "refs_wait deadline ((now, others) # polls) r0 =
     (let r = others r0 in
      if b_live_refs (rm_b r) \<le> 1 then Reached r
      else if deadline < now then TimedOut r
      else refs_wait deadline polls r)"

text \<open>
  The whole call. Its result has the table without the broadcast, the room as it was when its pool was freed,
  whether each wait saw its condition, the time slept and the sessions hung up.
\<close>

record destroyed =
  ds_status :: switch_status
  ds_reg :: registry
  ds_room :: room
  ds_drained :: bool
  ds_unpinned :: bool
  ds_slept :: usec
  ds_hangups :: "hangup list"

datatype destroy_result = Destroyed destroyed | UseAfterFree | Waiting

definition destroy_free :: "baddr \<Rightarrow> room \<Rightarrow> registry \<Rightarrow> registry" where
  "destroy_free a r reg =
     (let g = hash_delete (b_name (rm_b r)) (rg_g reg) in
      reg\<lparr>rg_g := g\<lparr>g_active_broadcasts := g_active_broadcasts g - 1\<rparr>, rg_store := (rg_store reg)(a := None)\<rparr>)"

definition destroy_waits :: "destroy_io \<Rightarrow> maddr option \<Rightarrow> room \<Rightarrow> (room \<times> bool \<times> bool) option option" where
  "destroy_waits io old r =
     (case drain_wait old (di_drain_from io + 10000000) (di_drain io) r of
        BadAccess \<Rightarrow> None
      | StillPolling \<Rightarrow> Some None
      | Reached r \<Rightarrow>
          (case refs_wait (di_refs_from io + 10000000) (di_refs io) r of
             Reached r \<Rightarrow> Some (Some (r, True, True)) | TimedOut r \<Rightarrow> Some (Some (r, True, False))
           | BadAccess \<Rightarrow> None | StillPolling \<Rightarrow> Some None)
      | TimedOut r \<Rightarrow>
          (case refs_wait (di_refs_from io + 10000000) (di_refs io) r of
             Reached r \<Rightarrow> Some (Some (r, False, True)) | TimedOut r \<Rightarrow> Some (Some (r, False, False))
           | BadAccess \<Rightarrow> None | StillPolling \<Rightarrow> Some None))"

definition broadcast_destroy_ex ::
  "copy_string \<Rightarrow> destroy_io \<Rightarrow> baddr \<Rightarrow> u32 \<Rightarrow> string option \<Rightarrow> registry \<Rightarrow> destroy_result" where
  "broadcast_destroy_ex cpy io a grace_ms announce reg =
     (case rg_store reg a of
        None \<Rightarrow> UseAfterFree
      | Some r \<Rightarrow>
          (case destroy_grace cpy io (clamp_grace grace_ms) announce (upd_b destroy_mark r) of (r, slept) \<Rightarrow>
             (case destroy_stop cpy io r of
                None \<Rightarrow> UseAfterFree
              | Some (old, r) \<Rightarrow>
                  (case kick_snapshot (di_malloc io) (\<lambda>mid b. b) r of
                     None \<Rightarrow> UseAfterFree
                   | Some (us, r) \<Rightarrow>
                       (case destroy_waits io old r of
                          None \<Rightarrow> UseAfterFree
                        | Some None \<Rightarrow> Waiting
                        | Some (Some (r, emptied, unpinned)) \<Rightarrow>
                            let r = upd_b (\<lambda>b. b\<lparr>b_producer_running := False, b_producer_thread := False\<rparr>) r in
                            Destroyed \<lparr>ds_status = ST_SUCCESS, ds_reg = destroy_free a r reg, ds_room = r, ds_drained = emptied,
                              ds_unpinned = unpinned, ds_slept = slept,
                              ds_hangups = hangup_all (di_locate io) ''destroyed'' CAUSE_SERVICE_UNAVAILABLE us\<rparr>)))))"

text \<open>\<open>broadcast_destroy_all\<close>: take a reference on the first entry and destroy it, until none is left; one \<open>io\<close> per round.\<close>

fun broadcast_destroy_all :: "copy_string \<Rightarrow> destroy_io list \<Rightarrow> registry \<Rightarrow> registry option" where
  "broadcast_destroy_all cpy ios reg =
     (case g_broadcast_hash (rg_g reg) of
        [] \<Rightarrow> Some reg
      | (k, a) # rest \<Rightarrow>
          (case (ios, rg_store reg a) of
             (io # ios, Some r) \<Rightarrow>
               (case broadcast_destroy_ex cpy io a 0 None
                       (reg\<lparr>rg_store := (rg_store reg)(a \<mapsto> upd_b (\<lambda>b. b\<lparr>b_live_refs := b_live_refs b + 1\<rparr>) r)\<rparr>) of
                  Destroyed d \<Rightarrow> broadcast_destroy_all cpy ios (ds_reg d)
                | _ \<Rightarrow> None)
           | _ \<Rightarrow> None))"

section \<open>Lemmas on the kick loops\<close>

definition kicked :: "member_obj \<Rightarrow> member_obj" where
  "kicked m = m\<lparr>m_mflags := set_flag (m_mflags m) MFLAG_KICKED\<rparr>"

definition uuid_text :: "member_obj \<Rightarrow> string" where
  "uuid_text m = (case m_uuid m of None \<Rightarrow> [] | Some u \<Rightarrow> u)"

lemma list_count_dll: "dll h pr p xs lst None \<Longrightarrow> list_count h p = Some (length xs)"
proof (induction xs arbitrary: pr p)
  case Nil
  then show ?case by (subst list_count.simps) simp
next
  case (Cons x xs)
  then obtain m where m: "p = Some x" "h x = Some m" "dll h (Some x) (m_next m) xs lst None" by (auto simp: lk_Some)
  from Cons.IH [OF m(3)] m(1,2) show ?case by (subst list_count.simps) simp
qed

lemma kick_walk_dll:
  "dll h pr p xs lst None \<Longrightarrow> distinct xs \<Longrightarrow>
   \<exists>h'. kick_walk ev n p h b = Some (map (\<lambda>x. uuid_text (the (h x))) (take n xs), h',
          fold (\<lambda>x. ev (m_id (the (h x)))) (take n xs) b)
     \<and> (\<forall>y. h' y = (if y \<in> set (take n xs) then map_option kicked (h y) else h y))"
proof (induction xs arbitrary: pr p h b n)
  case Nil
  then show ?case by (cases n) simp_all
next
  case (Cons x xs)
  show ?case
  proof (cases n)
    case (Suc k)
    from Cons.prems obtain m where m: "p = Some x" "h x = Some m" "dll h (Some x) (m_next m) xs lst None" "x \<notin> set xs" "distinct xs"
      by (auto simp: lk_Some)
    let ?h = "h(x \<mapsto> kicked m)"
    have "dll ?h (Some x) (m_next m) xs lst None = dll h (Some x) (m_next m) xs lst None"
      using m(4) by (intro dll_cong) (auto simp: lk_upd)
    with Cons.IH [of ?h "Some x" "m_next m" k "ev (m_id m) b"] m(3,5) obtain h' where
      h': "kick_walk ev k (m_next m) ?h (ev (m_id m) b) = Some (map (\<lambda>x. uuid_text (the (?h x))) (take k xs), h',
          fold (\<lambda>x. ev (m_id (the (?h x)))) (take k xs) (ev (m_id m) b))"
      "\<And>y. h' y = (if y \<in> set (take k xs) then map_option kicked (?h y) else ?h y)" by blast
    have same: "?h y = h y" if "y \<in> set (take k xs)" for y using that m(4) in_set_takeD by force
    have us: "map (\<lambda>x. uuid_text (the (?h x))) (take k xs) = map (\<lambda>x. uuid_text (the (h x))) (take k xs)"
      using same by (intro map_cong) simp_all
    have fo: "fold (\<lambda>x. ev (m_id (the (?h x)))) (take k xs) c = fold (\<lambda>x. ev (m_id (the (h x)))) (take k xs) c" for c
      using same by (intro fold_cong) simp_all
    have nx: "x \<notin> set (take k xs)" using m(4) in_set_takeD by force
    have w: "kick_walk ev n p h b = Some (uuid_text m # map (\<lambda>x. uuid_text (the (h x))) (take k xs), h',
        fold (\<lambda>x. ev (m_id (the (h x)))) (take k xs) (ev (m_id m) b))"
      using m h'(1) Suc unfolding us fo by (simp add: kicked_def uuid_text_def)
    have "kick_walk ev n p h b = Some (map (\<lambda>x. uuid_text (the (h x))) (take n (x # xs)), h',
        fold (\<lambda>x. ev (m_id (the (h x)))) (take n (x # xs)) b)"
      using w m(2) Suc by simp
    moreover have "\<forall>y. h' y = (if y \<in> set (take n (x # xs)) then map_option kicked (h y) else h y)"
    proof
      fix y
      show "h' y = (if y \<in> set (take n (x # xs)) then map_option kicked (h y) else h y)"
        using h'(2) [of y] m(2) nx Suc same [of y] by auto
    qed
    ultimately show ?thesis by blast
  qed simp
qed

lemma kicked_links: "lk h' y = lk h y" if "\<And>y. h' y = (if y \<in> A then map_option kicked (h y) else h y)" for h' h :: mheap
  using that [of y] by (cases "h y") (auto simp: lk_def kicked_def)

lemma kick_fold_frame:
  assumes "\<And>mid b. b_listener_head (ev mid b) = b_listener_head b \<and> b_listener_count (ev mid b) = b_listener_count b
      \<and> b_stat_peak_listeners (ev mid b) = b_stat_peak_listeners b \<and> b_profile (ev mid b) = b_profile b"
  shows "b_listener_head (fold (\<lambda>x. ev (f x)) xs b) = b_listener_head b \<and> b_listener_count (fold (\<lambda>x. ev (f x)) xs b) = b_listener_count b
      \<and> b_stat_peak_listeners (fold (\<lambda>x. ev (f x)) xs b) = b_stat_peak_listeners b \<and> b_profile (fold (\<lambda>x. ev (f x)) xs b) = b_profile b"
  by (induction xs arbitrary: b) (simp_all add: assms)

text \<open>The snapshot visits the list, or its first 512 members when no memory was to be had.\<close>

lemma kick_snapshot_ok:
  assumes "listener_rep r xs"
    and "\<And>mid b. b_listener_head (ev mid b) = b_listener_head b \<and> b_listener_count (ev mid b) = b_listener_count b
      \<and> b_stat_peak_listeners (ev mid b) = b_stat_peak_listeners b \<and> b_profile (ev mid b) = b_profile b"
  obtains r' where "kick_snapshot malloc_ok ev r = Some (map (\<lambda>x. uuid_text (the (rm_heap r x))) (take (kick_limit malloc_ok (length xs)) xs), r')"
    "listener_rep r' xs"
    "\<And>y. rm_heap r' y = (if y \<in> set (take (kick_limit malloc_ok (length xs)) xs) then map_option kicked (rm_heap r y) else rm_heap r y)"
    "rm_b r' = fold (\<lambda>x. ev (m_id (the (rm_heap r x)))) (take (kick_limit malloc_ok (length xs)) xs) (rm_b r)"
proof -
  from assms(1) obtain lst where d: "dll (rm_heap r) None (b_listener_head (rm_b r)) xs lst None" "distinct xs"
    by (auto simp: listener_rep_def)
  let ?n = "kick_limit malloc_ok (length xs)"
  from kick_walk_dll [OF d, of ev ?n "rm_b r"] obtain h' where h':
    "kick_walk ev ?n (b_listener_head (rm_b r)) (rm_heap r) (rm_b r) = Some (map (\<lambda>x. uuid_text (the (rm_heap r x))) (take ?n xs), h',
          fold (\<lambda>x. ev (m_id (the (rm_heap r x)))) (take ?n xs) (rm_b r))"
    "\<And>y. h' y = (if y \<in> set (take ?n xs) then map_option kicked (rm_heap r y) else rm_heap r y)" by blast
  let ?b = "fold (\<lambda>x. ev (m_id (the (rm_heap r x)))) (take ?n xs) (rm_b r)"
  let ?r = "r\<lparr>rm_heap := h', rm_b := ?b\<rparr>"
  have "kick_snapshot malloc_ok ev r = Some (map (\<lambda>x. uuid_text (the (rm_heap r x))) (take ?n xs), ?r)"
    using list_count_dll [OF d(1)] h'(1) by (simp add: kick_snapshot_def)
  moreover have "listener_rep ?r xs"
  proof -
    have "dll h' None (b_listener_head (rm_b r)) xs lst None"
      using d(1) dll_cong [of xs "rm_heap r" h'] kicked_links [OF h'(2)] by simp
    moreover have "b_listener_head ?b = b_listener_head (rm_b r) \<and> b_listener_count ?b = b_listener_count (rm_b r)
        \<and> b_stat_peak_listeners ?b = b_stat_peak_listeners (rm_b r) \<and> b_profile ?b = b_profile (rm_b r)"
      by (rule kick_fold_frame [OF assms(2)])
    ultimately show ?thesis using assms(1) d(2) by (simp add: listener_rep_def) blast
  qed
  ultimately show ?thesis using h'(2) by (intro that [of ?r]) simp_all
qed

lemma hangup_all_uuids: "hangup_all locate reason cause (map uuid_text ms) =
   concat (map (\<lambda>m. b_hangup_listener_session_by_uuid locate reason cause (m_uuid m)) ms)"
proof -
  have "b_hangup_listener_session_by_uuid locate reason cause (Some (uuid_text m)) =
      b_hangup_listener_session_by_uuid locate reason cause (m_uuid m)" for m
    by (cases "m_uuid m") (simp_all add: uuid_text_def b_hangup_listener_session_by_uuid_def)
  then show ?thesis by (simp add: hangup_all_def comp_def)
qed

section \<open>Lemmas on the table\<close>

text \<open>
  The table's invariant: names are unique, an entry leads to the object of that name and every object
  has an entry, and the counter of active broadcasts is the number of entries, within the limit.
\<close>

definition rg_inv :: "registry \<Rightarrow> bool" where
  "rg_inv reg \<longleftrightarrow> distinct (map fst (g_broadcast_hash (rg_g reg)))
     \<and> (\<forall>k a. (k, a) \<in> set (g_broadcast_hash (rg_g reg)) \<longleftrightarrow> (\<exists>r. rg_store reg a = Some r \<and> b_name (rm_b r) = k))
     \<and> unat (g_active_broadcasts (rg_g reg)) = length (g_broadcast_hash (rg_g reg))
     \<and> g_active_broadcasts (rg_g reg) \<le> g_max_broadcasts (rg_g reg)"

lemma rg_lookup:
  assumes "rg_inv reg" "hash_lookup reg name = Some a"
  obtains r where "rg_store reg a = Some r" "b_name (rm_b r) = name"
proof -
  from assms(2) have "(name, a) \<in> set (g_broadcast_hash (rg_g reg))" by (simp add: hash_lookup_def map_of_SomeD)
  with assms(1) that show thesis by (auto simp: rg_inv_def)
qed

lemma rg_lookup_store:
  assumes "rg_inv reg" "rg_store reg a = Some r"
  shows "hash_lookup reg (b_name (rm_b r)) = Some a"
  using assms by (auto simp: rg_inv_def hash_lookup_def)

text \<open>An object may change in place as long as it keeps its name.\<close>

lemma rg_inv_upd:
  assumes "rg_inv reg" "rg_store reg a = Some r" "b_name (rm_b r') = b_name (rm_b r)"
  shows "rg_inv (reg\<lparr>rg_store := (rg_store reg)(a \<mapsto> r')\<rparr>)"
proof -
  have "(\<exists>r1. ((rg_store reg)(a \<mapsto> r')) x = Some r1 \<and> b_name (rm_b r1) = k) =
      (\<exists>r1. rg_store reg x = Some r1 \<and> b_name (rm_b r1) = k)" for x k
    using assms(2,3) by auto
  with assms(1) show ?thesis by (simp add: rg_inv_def)
qed

lemma upd_b_sel [simp]: "rm_b (upd_b f r) = f (rm_b r)" "rm_heap (upd_b f r) = rm_heap r"
  by (simp_all add: upd_b_def)

lemma rg_inv_refs:
  assumes "rg_inv reg" "rg_store reg a = Some r"
  shows "rg_inv (reg\<lparr>rg_store := (rg_store reg)(a \<mapsto> upd_b (\<lambda>b. b\<lparr>b_live_refs := n b\<rparr>) r)\<rparr>)"
  by (rule rg_inv_upd [OF assms]) simp

lemma find_and_ref_inv:
  assumes "rg_inv reg"
  shows "\<exists>p reg'. broadcast_find_and_ref name reg = Some (p, reg') \<and> rg_inv reg'"
proof (cases "zstr name \<or> hash_lookup reg (the name) = None")
  case True
  with assms show ?thesis by (auto simp: broadcast_find_and_ref_def)
next
  case False
  then obtain a where a: "\<not> zstr name" "hash_lookup reg (the name) = Some a" by auto
  from rg_lookup [OF assms a(2)] obtain r where "rg_store reg a = Some r" by blast
  with a assms rg_inv_refs [OF assms this, of "\<lambda>b. b_live_refs b + 1"] show ?thesis
    by (simp add: broadcast_find_and_ref_def)
qed

lemma release_inv: "rg_inv reg \<Longrightarrow> broadcast_release p reg = Some reg' \<Longrightarrow> rg_inv reg'"
  by (cases p) (auto simp: broadcast_release_def bind_eq_Some_conv intro: rg_inv_refs)

lemma auto_record_name [simp]: "b_name (auto_record cpy io prof b) = b_name b"
proof -
  have "b_name (snd (broadcast_record_start cpy now e pk fo th b p)) = b_name b" for now e pk fo th p
    by (cases rule: record_start_cases [of cpy now e pk fo th b p]) simp_all
  then show ?thesis by (auto simp: auto_record_def split: option.splits prod.splits) (metis snd_conv)+
qed

lemma create_insert_inv:
  assumes "rg_inv reg" "create_insert io b reg = Some reg'" "rg_store reg (ci_addr io) = None"
  shows "rg_inv reg'" "rg_store reg' (ci_addr io) = Some \<lparr>rm_b = b\<lparr>b_producer_running := True, b_producer_thread := True\<rparr>, rm_heap = Map.empty, rm_served = 0\<rparr>"
proof -
  let ?g = "rg_g reg"
  from assms(2) have c: "hash_lookup reg (b_name b) = None" "g_active_broadcasts ?g < g_max_broadcasts ?g"
    and reg': "reg' = reg\<lparr>rg_g := (hash_insert (b_name b) (ci_addr io) ?g)\<lparr>g_active_broadcasts := g_active_broadcasts ?g + 1\<rparr>,
             rg_store := (rg_store reg)(ci_addr io \<mapsto>
               \<lparr>rm_b = b\<lparr>b_producer_running := True, b_producer_thread := True\<rparr>, rm_heap = Map.empty, rm_served = 0\<rparr>)\<rparr>"
    by (auto simp: create_insert_def Let_def split: if_splits)
  show "rg_store reg' (ci_addr io) = Some \<lparr>rm_b = b\<lparr>b_producer_running := True, b_producer_thread := True\<rparr>, rm_heap = Map.empty, rm_served = 0\<rparr>"
    by (simp add: reg')
  have n: "unat (g_active_broadcasts ?g) < unat (g_max_broadcasts ?g)" using c(2) by (simp add: word_less_nat_alt)
  have inc: "unat (g_active_broadcasts ?g + 1) = Suc (unat (g_active_broadcasts ?g))" by (rule unat_Suc_nowrap [OF n])
  have new: "b_name b \<notin> fst ` set (g_broadcast_hash ?g)" using c(1) by (simp add: hash_lookup_def map_of_eq_None_iff)
  have "(k, a) \<in> set ((b_name b, ci_addr io) # g_broadcast_hash ?g) \<longleftrightarrow> (\<exists>r. rg_store reg' a = Some r \<and> b_name (rm_b r) = k)" for k a
  proof (cases "a = ci_addr io")
    case True
    have "(k, ci_addr io) \<notin> set (g_broadcast_hash ?g)" using assms(1,3) by (auto simp: rg_inv_def)
    with True show ?thesis by (auto simp: reg')
  next
    case False
    with assms(1) show ?thesis by (simp add: reg' rg_inv_def)
  qed
  with assms(1) new inc n show "rg_inv reg'"
    by (simp add: rg_inv_def reg' hash_insert_def word_le_nat_alt)
qed

lemma destroy_free_inv:
  assumes "rg_inv reg" "rg_store reg a = Some r0" "b_name (rm_b r) = b_name (rm_b r0)"
  shows "rg_inv (destroy_free a r reg)" "hash_lookup (destroy_free a r reg) (b_name (rm_b r0)) = None"
proof -
  let ?g = "rg_g reg" and ?n = "b_name (rm_b r0)"
  let ?h = "g_broadcast_hash ?g" and ?h' = "filter (\<lambda>(k, a). k \<noteq> ?n) (g_broadcast_hash ?g)"
  have mem: "(?n, a) \<in> set ?h" using assms(1,2) by (auto simp: rg_inv_def)
  have dist: "distinct (map fst ?h)" and act: "unat (g_active_broadcasts ?g) = length ?h" using assms(1) by (simp_all add: rg_inv_def)
  from mem obtain ys zs where h: "?h = ys @ (?n, a) # zs" by (metis split_list)
  with dist have out: "?n \<notin> fst ` set ys" "?n \<notin> fst ` set zs" by auto
  have ids: "filter (\<lambda>(k, a). k \<noteq> ?n) ys = ys" "filter (\<lambda>(k, a). k \<noteq> ?n) zs = zs"
    using out by (auto simp: filter_id_conv image_iff)
  then have h': "?h' = ys @ zs" using h by simp
  have dec: "unat (g_active_broadcasts ?g - 1) = length ys + length zs"
    using act h unat_dec_nowrap [of "g_active_broadcasts ?g"] by simp
  have le: "unat (g_active_broadcasts ?g - 1) \<le> unat (g_max_broadcasts ?g)"
    using assms(1) act h dec by (simp add: rg_inv_def word_le_nat_alt)
  have dom: "(k, x) \<in> set (ys @ zs) \<longleftrightarrow> (\<exists>r. ((rg_store reg)(a := None)) x = Some r \<and> b_name (rm_b r) = k)" for k x
  proof -
    have o: "(k, x) \<in> set ?h \<longleftrightarrow> (\<exists>r. rg_store reg x = Some r \<and> b_name (rm_b r) = k)" using assms(1) by (simp add: rg_inv_def)
    show ?thesis
    proof (cases "x = a")
      case True
      with o h assms(2) have "(k, a) \<in> set ?h \<Longrightarrow> k = ?n" by auto
      with True h out show ?thesis by (force simp: image_iff)
    next
      case False
      with o h show ?thesis by auto
    qed
  qed
  have d': "distinct (map fst (ys @ zs))" using dist h by simp
  show "rg_inv (destroy_free a r reg)"
    using dec le dom d' unfolding rg_inv_def destroy_free_def Let_def hash_delete_def
    by (simp add: h' assms(3) word_le_nat_alt)
  show "hash_lookup (destroy_free a r reg) ?n = None"
    using out by (auto simp: hash_lookup_def destroy_free_def Let_def hash_delete_def h' assms(3) map_of_eq_None_iff)
qed

section \<open>Lemmas on creation\<close>


lemma auto_record_cases:
  obtains (same) "auto_record cpy io prof b = b"
  | (failed) data where "auto_record cpy io prof b = broadcast_enqueue_event cpy (ci_now io) b BEVT_RECORDING_FAILED 0 data"
  | (started) path rec where "auto_record cpy io prof b = broadcast_enqueue_event cpy (ci_now io)
       (b\<lparr>b_recordings := rec # b_recordings b, b_cflags := set_flag (b_cflags b) BFLAG_RECORDING\<rparr>) BEVT_RECORDING_START 0 (Some path)"
proof (cases "p_auto_record prof")
  case True
  let ?p = "case ci_session io of Some f \<Rightarrow> (case p_record_template prof of None \<Rightarrow> None | Some t \<Rightarrow> f t)
               | None \<Rightarrow> b_expand_auto_record_template io b"
  show ?thesis
  proof (cases ?p)
    case None
    then show ?thesis using True by (intro failed) (simp add: auto_record_def)
  next
    case (Some path)
    show ?thesis
    proof (cases rule: record_start_cases [of cpy "ci_now io" "ci_session io" "ci_rec_pool io" "ci_fopen io" "ci_rec_thread io" b "Some path"])
      case refused
      then show ?thesis using True Some by (intro failed) (simp add: auto_record_def)
    next
      case (started path')
      then show ?thesis using True Some by (intro that(3)) (simp add: auto_record_def)
    qed
  qed
qed (use same in \<open>simp add: auto_record_def\<close>)

lemma auto_record_frame:
  "b_ring (auto_record cpy io prof b) = b_ring b" "b_ring_size (auto_record cpy io prof b) = b_ring_size b"
  "b_producer_seq (auto_record cpy io prof b) = b_producer_seq b" "b_listener_head (auto_record cpy io prof b) = b_listener_head b"
  "b_listener_count (auto_record cpy io prof b) = b_listener_count b" "b_profile (auto_record cpy io prof b) = b_profile b"
  "b_stat_peak_listeners (auto_record cpy io prof b) = b_stat_peak_listeners b" "b_live_refs (auto_record cpy io prof b) = b_live_refs b"
  "b_current_speaker (auto_record cpy io prof b) = b_current_speaker b" "b_destroyed (auto_record cpy io prof b) = b_destroyed b"
  "b_bytes_per_frame (auto_record cpy io prof b) = b_bytes_per_frame b" "b_channels (auto_record cpy io prof b) = b_channels b"
  "b_samples_per_frame (auto_record cpy io prof b) = b_samples_per_frame b"
  "b_silence_zero_buf (auto_record cpy io prof b) = b_silence_zero_buf b"
  "b_event_ring_size (auto_record cpy io prof b) = b_event_ring_size b"
  by (cases rule: auto_record_cases [of cpy io prof b]; simp)+





section \<open>Examples\<close>

definition empty_registry :: registry where
  "empty_registry = \<lparr>rg_g = initial_globals\<lparr>g_max_broadcasts := 2, g_active_broadcasts := 0, g_broadcast_hash := [],
      g_event_ring_size := 4, g_profiles := [zero_profile], g_default_profile_name := Some ''default''\<rparr>, rg_store = Map.empty\<rparr>"

definition plain_create :: "baddr \<Rightarrow> create_io" where
  "plain_create a = \<lparr>ci_pool = True, ci_addr = a, ci_uuid = ''u'', ci_now = 1, ci_thread = ST_SUCCESS, ci_others = id,
     ci_session = None, ci_event_ok = True, ci_expand = (\<lambda>hs t. Some t), ci_rec_pool = True,
     ci_fopen = (\<lambda>p c r. ST_SUCCESS), ci_rec_thread = True\<rparr>"

lemma empty_registry_inv: "rg_inv empty_registry"
  by (simp add: rg_inv_def empty_registry_def)

lemma empty_registry_profile: "broadcast_config_find_profile (rg_g empty_registry) None = Some (Some zero_profile)"
  by (simp add: broadcast_config_find_profile_def b_config_find_profile_unlocked_def empty_registry_def find_named_def zero_profile_def)

lemma zero_profile_geometry: "frame_geometry zero_profile = (160, 320)"
  by (simp add: frame_geometry_def zero_profile_def)


text \<open>
  C21. Kicking all listeners. On a well-formed list, of at most 512 members or when the snapshot's
  memory was to be had, every listed member gets MFLAG_KICKED, the list itself is left alone, and the
  sessions hung up are those of the members with a uuid that the core locates, in list order.
\<close>

theorem kick_all_kicks_everyone:
  assumes "listener_rep r xs" "length xs \<le> BROADCAST_DESTROY_KICK_STACK \<or> malloc_ok"
  shows "\<exists>r'. broadcast_kick_all_listeners cpy now locate malloc_ok r =
      Some (r', concat (map (\<lambda>a. b_hangup_listener_session_by_uuid locate ''kicked'' CAUSE_NORMAL_CLEARING (m_uuid (the (rm_heap r a)))) xs))
    \<and> listener_rep r' xs \<and> list_all (\<lambda>a. \<exists>m. rm_heap r a = Some m \<and> rm_heap r' a = Some (kicked m)) xs"
proof -
  let ?ev = "\<lambda>mid b. broadcast_enqueue_event cpy now b BEVT_LISTENER_KICKED mid None"
  have lim: "kick_limit malloc_ok (length xs) = length xs" using assms(2) by (auto simp: kick_limit_def)
  obtain r' where r': "kick_snapshot malloc_ok ?ev r = Some (map (\<lambda>x. uuid_text (the (rm_heap r x))) (take (kick_limit malloc_ok (length xs)) xs), r')"
    "listener_rep r' xs" "\<And>y. rm_heap r' y = (if y \<in> set (take (kick_limit malloc_ok (length xs)) xs) then map_option kicked (rm_heap r y) else rm_heap r y)"
    by (rule kick_snapshot_ok [OF assms(1), of ?ev malloc_ok]) simp_all
  have "\<exists>m. rm_heap r a = Some m \<and> rm_heap r' a = Some (kicked m)" if "a \<in> set xs" for a
  proof -
    from assms(1) that have "rm_heap r a \<noteq> None" using dll_known by (fastforce simp: listener_rep_def)
    with r'(3) [of a] that lim show ?thesis by auto
  qed
  moreover have "broadcast_kick_all_listeners cpy now locate malloc_ok r = Some (r',
      concat (map (\<lambda>a. b_hangup_listener_session_by_uuid locate ''kicked'' CAUSE_NORMAL_CLEARING (m_uuid (the (rm_heap r a)))) xs))"
    using r'(1) lim hangup_all_uuids [of locate "''kicked''" CAUSE_NORMAL_CLEARING "map (\<lambda>x. the (rm_heap r x)) xs"]
    by (simp add: broadcast_kick_all_listeners_def comp_def)
  ultimately show ?thesis using r'(2) by (auto simp: list_all_iff)
qed

theorem kick_all_kicks_everyone_witness:
  "\<exists>r'. broadcast_kick_all_listeners cut_copy 5 (\<lambda>u. True) False bridged_room =
      Some (r', [(''aa'', ''kicked'', CAUSE_NORMAL_CLEARING)]) \<and> listener_rep r' [1]"
proof -
  have u: "m_uuid (the (rm_heap bridged_room 1)) = Some ''aa''" by (simp add: bridged_room_def zero_member_def)
  then have h: "b_hangup_listener_session_by_uuid (\<lambda>u. True) ''kicked'' CAUSE_NORMAL_CLEARING (m_uuid (the (rm_heap bridged_room 1))) =
      [(''aa'', ''kicked'', CAUSE_NORMAL_CLEARING)]" by (simp add: b_hangup_listener_session_by_uuid_def)
  from kick_all_kicks_everyone [OF bridged_room_rep, of False cut_copy 5 "\<lambda>u. True"] show ?thesis
    unfolding list.map concat.simps h by (auto simp: BROADCAST_DESTROY_KICK_STACK_def)
qed

text \<open>
  C39. A reference can be lost. The creator stores 1 into \<open>live_refs\<close> after it has released the table
  lock; a session that finds the new broadcast and takes its reference in between has it overwritten. Both then
  hold the broadcast with a count of one, and once the creator has released it, a teardown's wait for the last reference is over
  at its first poll while the other session still uses the object.
\<close>

theorem create_loses_a_reference:
  assumes "rg_inv reg" "rg_store reg (ci_addr io) = None" "create_insert io b reg = Some reg1"
    and "\<not> b_destroyed b" "\<not> has_flag (b_cflags b) BFLAG_DESTRUCT" "b_name b \<noteq> []"
  shows "\<exists>reg2 reg3 reg4 r. broadcast_find_and_ref (Some (b_name b)) reg1 = Some (Some (ci_addr io), reg2)
    \<and> create_finish cpy io prof reg2 = Some reg3
    \<and> broadcast_release (Some (ci_addr io)) reg3 = Some reg4
    \<and> rg_store reg4 (ci_addr io) = Some r \<and> b_live_refs (rm_b r) = 0
    \<and> refs_wait deadline ((now, id) # polls) r = Reached r"
proof -
  note i = create_insert_inv [OF assms(1,3,2)]
  have l: "hash_lookup reg1 (b_name b) = Some (ci_addr io)" using rg_lookup_store [OF i] by simp
  let ?r = "\<lparr>rm_b = b\<lparr>b_producer_running := True, b_producer_thread := True\<rparr>, rm_heap = Map.empty, rm_served = 0\<rparr>"
  let ?reg2 = "reg1\<lparr>rg_store := (rg_store reg1)(ci_addr io \<mapsto> upd_b (\<lambda>b. b\<lparr>b_live_refs := b_live_refs b + 1\<rparr>) ?r)\<rparr>"
  have f: "broadcast_find_and_ref (Some (b_name b)) reg1 = Some (Some (ci_addr io), ?reg2)"
    using assms(4-6) l i(2) by (simp add: broadcast_find_and_ref_def)
  obtain reg3 where c: "create_finish cpy io prof ?reg2 = Some reg3"
    and s: "\<exists>r3. rg_store reg3 (ci_addr io) = Some r3 \<and> b_live_refs (rm_b r3) = 1"
    by (simp add: create_finish_def Let_def auto_record_frame)
  then obtain r3 where r3: "rg_store reg3 (ci_addr io) = Some r3" "b_live_refs (rm_b r3) = 1" by blast
  let ?r4 = "upd_b (\<lambda>b. b\<lparr>b_live_refs := b_live_refs b - 1\<rparr>) r3"
  have "broadcast_release (Some (ci_addr io)) reg3 = Some (reg3\<lparr>rg_store := (rg_store reg3)(ci_addr io \<mapsto> ?r4)\<rparr>)"
    using r3(1) by (simp add: broadcast_release_def)
  moreover have "b_live_refs (rm_b ?r4) = 0" using r3(2) by simp
  ultimately show ?thesis using f c by (intro exI [of _ ?reg2] exI [of _ reg3] exI conjI) (auto simp: fun_upd_same)
qed

definition live_broadcast :: broadcast_obj where
  "live_broadcast = new_broadcast (plain_create 7) (rg_g empty_registry) ''live'' zero_profile 160 320"

lemma live_broadcast_fields [simp]:
  "b_name live_broadcast = ''live''" "b_cflags live_broadcast = set_flag 0 BFLAG_RUNNING" "\<not> b_destroyed live_broadcast"
  "b_listener_head live_broadcast = None" "b_listener_count live_broadcast = 0" "b_profile live_broadcast = Some zero_profile"
  "b_live_refs live_broadcast = 0" "b_current_speaker live_broadcast = None"
  by (simp_all add: live_broadcast_def new_broadcast_def zero_broadcast_def)

definition live_registry :: registry where
  "live_registry = the (create_insert (plain_create 7) live_broadcast empty_registry)"

lemma live_registry_created: "create_insert (plain_create 7) live_broadcast empty_registry = Some live_registry"
  by (simp add: live_registry_def create_insert_def hash_lookup_def empty_registry_def plain_create_def Let_def)

theorem create_loses_a_reference_witness:
  "\<exists>reg2 reg3 reg4 r. broadcast_find_and_ref (Some (b_name live_broadcast)) live_registry = Some (Some (ci_addr (plain_create 7)), reg2)
    \<and> create_finish cut_copy (plain_create 7) zero_profile reg2 = Some reg3
    \<and> broadcast_release (Some (ci_addr (plain_create 7))) reg3 = Some reg4
    \<and> rg_store reg4 (ci_addr (plain_create 7)) = Some r \<and> b_live_refs (rm_b r) = 0
    \<and> refs_wait 100 [(5, id)] r = Reached r"
  by (rule create_loses_a_reference [OF empty_registry_inv _ live_registry_created])
     (simp_all add: empty_registry_def flag_simps)

section \<open>Lemmas on teardown\<close>

definition keeps_name :: "(room \<Rightarrow> room) \<Rightarrow> bool" where
  "keeps_name f \<longleftrightarrow> (\<forall>r. b_name (rm_b (f r)) = b_name (rm_b r))"

definition destroy_calm :: "destroy_io \<Rightarrow> bool" where
  "destroy_calm io \<longleftrightarrow> keeps_name (di_grace io) \<and> list_all (\<lambda>(t, f). keeps_name f) (di_drain io) \<and> list_all (\<lambda>(t, f). keeps_name f) (di_refs io)"

lemma keeps_nameD: "keeps_name f \<Longrightarrow> b_name (rm_b (f r)) = b_name (rm_b r)"
  by (simp add: keeps_name_def)

lemma record_stop_all_fields:
  "b_name (broadcast_record_stop_all cpy now b) = b_name b"
  "b_listener_head (broadcast_record_stop_all cpy now b) = b_listener_head b"
  "b_listener_count (broadcast_record_stop_all cpy now b) = b_listener_count b"
  "b_stat_peak_listeners (broadcast_record_stop_all cpy now b) = b_stat_peak_listeners b"
  "b_profile (broadcast_record_stop_all cpy now b) = b_profile b"
  "b_current_speaker (broadcast_record_stop_all cpy now b) = b_current_speaker b"
  "b_live_refs (broadcast_record_stop_all cpy now b) = b_live_refs b"
proof -
  have "b_name (fold (\<lambda>r b. broadcast_enqueue_event cpy now b BEVT_RECORDING_STOP 0 None) rs c) = b_name c
     \<and> b_listener_head (fold (\<lambda>r b. broadcast_enqueue_event cpy now b BEVT_RECORDING_STOP 0 None) rs c) = b_listener_head c
     \<and> b_listener_count (fold (\<lambda>r b. broadcast_enqueue_event cpy now b BEVT_RECORDING_STOP 0 None) rs c) = b_listener_count c
     \<and> b_stat_peak_listeners (fold (\<lambda>r b. broadcast_enqueue_event cpy now b BEVT_RECORDING_STOP 0 None) rs c) = b_stat_peak_listeners c
     \<and> b_profile (fold (\<lambda>r b. broadcast_enqueue_event cpy now b BEVT_RECORDING_STOP 0 None) rs c) = b_profile c
     \<and> b_current_speaker (fold (\<lambda>r b. broadcast_enqueue_event cpy now b BEVT_RECORDING_STOP 0 None) rs c) = b_current_speaker c
     \<and> b_live_refs (fold (\<lambda>r b. broadcast_enqueue_event cpy now b BEVT_RECORDING_STOP 0 None) rs c) = b_live_refs c" for rs :: "rec_consumer list" and c
    by (induction rs arbitrary: c) simp_all
  then show "b_name (broadcast_record_stop_all cpy now b) = b_name b"
    "b_listener_head (broadcast_record_stop_all cpy now b) = b_listener_head b"
    "b_listener_count (broadcast_record_stop_all cpy now b) = b_listener_count b"
    "b_stat_peak_listeners (broadcast_record_stop_all cpy now b) = b_stat_peak_listeners b"
    "b_profile (broadcast_record_stop_all cpy now b) = b_profile b"
    "b_current_speaker (broadcast_record_stop_all cpy now b) = b_current_speaker b"
    "b_live_refs (broadcast_record_stop_all cpy now b) = b_live_refs b"
    by (simp_all add: broadcast_record_stop_all_def broadcast_record_stop_def Let_def split: prod.split)
qed

lemma kick_walk_silent: "kick_walk (\<lambda>mid b. b) n p h b = Some (us, h', b') \<Longrightarrow> b' = b"
proof (induction n arbitrary: p h us h')
  case (Suc n)
  show ?case
  proof (cases p)
    case (Some x)
    with Suc.prems obtain m us1 where "h x = Some m" "kick_walk (\<lambda>mid b. b) n (m_next m)
        (h(x \<mapsto> m\<lparr>m_mflags := set_flag (m_mflags m) MFLAG_KICKED\<rparr>)) b = Some (us1, h', b')"
      by (auto split: option.splits)
    from Suc.IH [OF this(2)] show ?thesis .
  qed (use Suc.prems in simp)
qed simp

lemma kick_snapshot_silent: "kick_snapshot malloc_ok (\<lambda>mid b. b) r = Some (us, r') \<Longrightarrow> rm_b r' = rm_b r"
  by (auto simp: kick_snapshot_def bind_eq_Some_conv dest: kick_walk_silent)

text \<open>What each wait has seen when its condition ended it.\<close>

lemma drain_wait_reached:
  "drain_wait old deadline polls r = Reached r' \<Longrightarrow> b_listener_count (rm_b r') = 0 \<and> b_current_speaker (rm_b r') = None"
proof (induction polls arbitrary: r)
  case (Cons p polls)
  obtain t f where p: "p = (t, f)" by (rule prod.exhaust)
  with Cons show ?case by (auto simp: Let_def split: if_splits option.splits)
qed simp

lemma refs_wait_reached: "refs_wait deadline polls r = Reached r' \<Longrightarrow> b_live_refs (rm_b r') \<le> 1"
  by (induction deadline polls r rule: refs_wait.induct) (auto simp: Let_def split: if_splits)

lemma refs_wait_keeps:
  "P r \<Longrightarrow> list_all (\<lambda>(t, f). \<forall>r. P r \<longrightarrow> P (f r)) polls \<Longrightarrow>
   (case refs_wait deadline polls r of Reached r' \<Rightarrow> P r' | TimedOut r' \<Rightarrow> P r' | _ \<Rightarrow> True)"
proof (induction polls arbitrary: r)
  case (Cons p polls)
  obtain t f where p: "p = (t, f)" by (rule prod.exhaust)
  with Cons.prems have k: "P (f r)" "list_all (\<lambda>(t, f). \<forall>r. P r \<longrightarrow> P (f r)) polls" by simp_all
  from k(1) Cons.IH [OF k] show ?case unfolding p refs_wait.simps Let_def by simp
qed simp

lemma drain_wait_keeps:
  "P r \<Longrightarrow> list_all (\<lambda>(t, f). \<forall>r. P r \<longrightarrow> P (f r)) polls \<Longrightarrow>
   (case drain_wait old deadline polls r of Reached r' \<Rightarrow> P r' | TimedOut r' \<Rightarrow> P r' | _ \<Rightarrow> True)"
proof (induction polls arbitrary: r)
  case (Cons p polls)
  obtain t f where p: "p = (t, f)" by (rule prod.exhaust)
  with Cons.prems have k: "P (f r)" "list_all (\<lambda>(t, f). \<forall>r. P r \<longrightarrow> P (f r)) polls" by simp_all
  note ih = Cons.IH [OF k]
  show ?case
  proof (cases "case old of None \<Rightarrow> Some False | Some o' \<Rightarrow> map_option m_in_speaker_wait (rm_heap (f r) o')")
    case (Some w)
    show ?thesis unfolding p drain_wait.simps Let_def Some option.case by (simp add: k(1) ih)
  qed (simp add: p Let_def k(1))
qed simp

lemma refs_wait_safe: "refs_wait deadline polls r \<noteq> BadAccess"
  by (induction deadline polls r rule: refs_wait.induct) (auto simp: Let_def)

text \<open>A wait ends once a poll comes after its deadline.\<close>

definition expires :: "usec \<Rightarrow> poll list \<Rightarrow> bool" where
  "expires deadline polls = list_ex (\<lambda>(t, f). deadline < t) polls"

lemma drain_wait_ends: "expires deadline polls \<Longrightarrow> drain_wait old deadline polls r \<noteq> StillPolling"
proof (induction polls arbitrary: r)
  case (Cons p polls)
  obtain t f where p: "p = (t, f)" by (rule prod.exhaust)
  with Cons show ?case by (auto simp: expires_def Let_def split: option.split)
qed (simp add: expires_def)

lemma refs_wait_ends: "expires deadline polls \<Longrightarrow> refs_wait deadline polls r \<noteq> StillPolling"
proof (induction polls arbitrary: r)
  case (Cons p polls)
  obtain t f where p: "p = (t, f)" by (rule prod.exhaust)
  with Cons show ?case by (auto simp: expires_def Let_def)
qed (simp add: expires_def)

text \<open>
  The drain loop reads the removed speaker through its old pointer: the memory of that member has to stay
  for as long as the loop runs, whatever the other threads do between its polls.
\<close>

definition keeps_member :: "maddr \<Rightarrow> poll list \<Rightarrow> bool" where
  "keeps_member s polls \<longleftrightarrow> list_all (\<lambda>(t, f). \<forall>r. rm_heap r s \<noteq> None \<longrightarrow> rm_heap (f r) s \<noteq> None) polls"

definition old_stays :: "maddr option \<Rightarrow> poll list \<Rightarrow> room \<Rightarrow> bool" where
  "old_stays old polls r \<longleftrightarrow> (\<forall>s. old = Some s \<longrightarrow> rm_heap r s \<noteq> None \<and> keeps_member s polls)"

lemma drain_wait_safe: "old_stays old polls r \<Longrightarrow> drain_wait old deadline polls r \<noteq> BadAccess"
proof (induction polls arbitrary: r)
  case (Cons p polls)
  obtain t f where p: "p = (t, f)" by (rule prod.exhaust)
  have "old_stays old polls (f r)" using Cons.prems by (auto simp: p old_stays_def keeps_member_def)
  from Cons.IH [OF this] this show ?case by (auto simp: p Let_def old_stays_def split: option.split)
qed simp

lemma destroy_waits_end:
  assumes "old_stays old (di_drain io) r"
    "expires (di_drain_from io + 10000000) (di_drain io)" "expires (di_refs_from io + 10000000) (di_refs io)"
  shows "\<exists>r' d u. destroy_waits io old r = Some (Some (r', d, u))"
proof -
  have refs: "\<exists>r2. refs_wait (di_refs_from io + 10000000) (di_refs io) r1 = Reached r2 \<or>
      refs_wait (di_refs_from io + 10000000) (di_refs io) r1 = TimedOut r2" for r1
    using refs_wait_ends [OF assms(3), of r1] refs_wait_safe by (metis wait_result.exhaust)
  have "\<exists>r1. drain_wait old (di_drain_from io + 10000000) (di_drain io) r = Reached r1 \<or>
      drain_wait old (di_drain_from io + 10000000) (di_drain io) r = TimedOut r1"
    using drain_wait_ends [OF assms(2), of old r] drain_wait_safe [OF assms(1)] by (metis wait_result.exhaust)
  then obtain r1 where r1: "drain_wait old (di_drain_from io + 10000000) (di_drain io) r = Reached r1 \<or>
      drain_wait old (di_drain_from io + 10000000) (di_drain io) r = TimedOut r1" by blast
  from refs [of r1] obtain r2 where "refs_wait (di_refs_from io + 10000000) (di_refs io) r1 = Reached r2 \<or>
      refs_wait (di_refs_from io + 10000000) (di_refs io) r1 = TimedOut r2" by blast
  with r1 show ?thesis unfolding destroy_waits_def by auto
qed

lemma destroy_waits_parts:
  assumes "destroy_waits io old r = Some (Some (r', d, u))"
  obtains r1 where "drain_wait old (di_drain_from io + 10000000) (di_drain io) r = (if d then Reached r1 else TimedOut r1)"
    "refs_wait (di_refs_from io + 10000000) (di_refs io) r1 = (if u then Reached r' else TimedOut r')"
proof (cases "drain_wait old (di_drain_from io + 10000000) (di_drain io) r")
  case (Reached r1)
  with assms show ?thesis
    by (cases "refs_wait (di_refs_from io + 10000000) (di_refs io) r1") (auto simp: destroy_waits_def intro: that [of r1])
next
  case (TimedOut r1)
  with assms show ?thesis
    by (cases "refs_wait (di_refs_from io + 10000000) (di_refs io) r1") (auto simp: destroy_waits_def intro: that [of r1])
qed (use assms in \<open>simp_all add: destroy_waits_def\<close>)

lemma destroy_waits_keeps:
  assumes "destroy_waits io old r = Some (Some (r', d, u))" "P r"
    and "list_all (\<lambda>(t, f). \<forall>r. P r \<longrightarrow> P (f r)) (di_drain io)" "list_all (\<lambda>(t, f). \<forall>r. P r \<longrightarrow> P (f r)) (di_refs io)"
  shows "P r'"
proof -
  from assms(1) obtain r1 where w: "drain_wait old (di_drain_from io + 10000000) (di_drain io) r = (if d then Reached r1 else TimedOut r1)"
    "refs_wait (di_refs_from io + 10000000) (di_refs io) r1 = (if u then Reached r' else TimedOut r')" by (rule destroy_waits_parts)
  have "P r1" using drain_wait_keeps [of P r "di_drain io" old "di_drain_from io + 10000000", OF assms(2,3)] w(1) by (cases d) simp_all
  from refs_wait_keeps [of P r1 "di_refs io" "di_refs_from io + 10000000", OF this assms(4)] w(2) show ?thesis by (cases u) simp_all
qed

lemma destroyed_parts:
  assumes "broadcast_destroy_ex cpy io a grace_ms announce reg = Destroyed d"
  obtains r r1 old r2 us r3 r4 where "rg_store reg a = Some r"
    "destroy_grace cpy io (clamp_grace grace_ms) announce (upd_b destroy_mark r) = (r1, ds_slept d)"
    "destroy_stop cpy io r1 = Some (old, r2)" "kick_snapshot (di_malloc io) (\<lambda>mid b. b) r2 = Some (us, r3)"
    "destroy_waits io old r3 = Some (Some (r4, ds_drained d, ds_unpinned d))"
    "ds_room d = upd_b (\<lambda>b. b\<lparr>b_producer_running := False, b_producer_thread := False\<rparr>) r4"
    "ds_reg d = destroy_free a (ds_room d) reg" "ds_status d = ST_SUCCESS"
    "ds_hangups d = hangup_all (di_locate io) ''destroyed'' CAUSE_SERVICE_UNAVAILABLE us"
  using assms unfolding broadcast_destroy_ex_def Let_def
  by (auto split: option.splits prod.splits)

lemma destroy_grace_name:
  assumes "destroy_grace cpy io g announce r = (r1, s)" "keeps_name (di_grace io)"
  shows "b_name (rm_b r1) = b_name (rm_b r)"
proof -
  have "b_name (grace_announce cpy io g announce b) = b_name b" for b
    by (simp add: grace_announce_def Let_def split: option.split)
  then show ?thesis using assms keeps_nameD [OF assms(2)]
    by (auto simp: destroy_grace_def stop_play_def split: if_splits)
qed

lemma destroy_stop_fields:
  assumes "destroy_stop cpy io r = Some (old, r')"
  shows "b_name (rm_b r') = b_name (rm_b r)" "b_current_speaker (rm_b r') = None" "old = b_current_speaker (rm_b r)"
    "b_live_refs (rm_b r') = b_live_refs (rm_b r)" "b_listener_count (rm_b r') = b_listener_count (rm_b r)"
  using assms by (auto simp: destroy_stop_def Let_def stop_play_def record_stop_all_fields bind_eq_Some_conv split: option.splits)

lemma destroyed_name:
  assumes "broadcast_destroy_ex cpy io a grace_ms announce reg = Destroyed d" "destroy_calm io" "rg_store reg a = Some r"
  shows "b_name (rm_b (ds_room d)) = b_name (rm_b r)"
proof -
  from assms(1) obtain r0 r1 old r2 us r3 r4 where p: "rg_store reg a = Some r0"
    "destroy_grace cpy io (clamp_grace grace_ms) announce (upd_b destroy_mark r0) = (r1, ds_slept d)"
    "destroy_stop cpy io r1 = Some (old, r2)" "kick_snapshot (di_malloc io) (\<lambda>mid b. b) r2 = Some (us, r3)"
    "destroy_waits io old r3 = Some (Some (r4, ds_drained d, ds_unpinned d))"
    "ds_room d = upd_b (\<lambda>b. b\<lparr>b_producer_running := False, b_producer_thread := False\<rparr>) r4"
    by (rule destroyed_parts)
  have c: "keeps_name (di_grace io)" "list_all (\<lambda>(t, f). keeps_name f) (di_drain io)" "list_all (\<lambda>(t, f). keeps_name f) (di_refs io)"
    using assms(2) by (simp_all add: destroy_calm_def)
  let ?P = "\<lambda>q. b_name (rm_b q) = b_name (rm_b r3)"
  have k: "list_all (\<lambda>(t, f). \<forall>r. ?P r \<longrightarrow> ?P (f r)) ps" if "list_all (\<lambda>(t, f). keeps_name f) ps" for ps :: "poll list"
    using that by (auto simp: list_all_iff keeps_name_def)
  have "b_name (rm_b r4) = b_name (rm_b r3)"
    by (rule destroy_waits_keeps [where P = ?P, OF p(5) refl k [OF c(2)] k [OF c(3)]])
  also have "\<dots> = b_name (rm_b r2)" by (simp add: kick_snapshot_silent [OF p(4)])
  also have "\<dots> = b_name (rm_b r0)" using destroy_stop_fields(1) [OF p(3)] destroy_grace_name [OF p(2) c(1)]
    by (simp add: destroy_mark_def)
  finally show ?thesis using p(1,6) assms(3) by simp
qed

lemma create_finish_inv: "rg_inv reg \<Longrightarrow> create_finish cpy io prof reg = Some reg' \<Longrightarrow> rg_inv reg'"
proof -
  assume a: "rg_inv reg" "create_finish cpy io prof reg = Some reg'"
  then obtain r where r: "rg_store reg (ci_addr io) = Some r"
    "reg' = reg\<lparr>rg_g := (rg_g reg)\<lparr>g_total_broadcasts_created := g_total_broadcasts_created (rg_g reg) + 1\<rparr>,
       rg_store := (rg_store reg)(ci_addr io \<mapsto> upd_b (\<lambda>b. auto_record cpy io prof (b\<lparr>b_live_refs := 1\<rparr>)) r)\<rparr>"
    by (auto simp: create_finish_def bind_eq_Some_conv Let_def)
  let ?r = "upd_b (\<lambda>b. auto_record cpy io prof (b\<lparr>b_live_refs := 1\<rparr>)) r"
  have "rg_inv (reg\<lparr>rg_store := (rg_store reg)(ci_addr io \<mapsto> ?r)\<rparr>)" by (rule rg_inv_upd [OF a(1) r(1)]) simp
  then show ?thesis unfolding r(2) by (simp add: rg_inv_def)
qed

section \<open>Operations on the table\<close>

text \<open>
  A call on the table. The allocator never hands out the address of a live object; a destroy that is
  still waiting, and any access to a freed object, give nothing.
\<close>

datatype rg_op =
    RgCreate create_io "string option" "string option"
  | RgRef "string option"
  | RgRelease "baddr option"
  | RgDestroy destroy_io baddr u32 "string option"

fun rg_apply :: "copy_string \<Rightarrow> registry \<Rightarrow> rg_op \<Rightarrow> registry option" where
  "rg_apply cpy reg (RgCreate io name prof) =
     (if rg_store reg (ci_addr io) \<noteq> None then None else map_option snd (broadcast_create cpy io name prof reg))"
| "rg_apply cpy reg (RgRef name) = map_option snd (broadcast_find_and_ref name reg)"
| "rg_apply cpy reg (RgRelease p) = broadcast_release p reg"
| "rg_apply cpy reg (RgDestroy io a grace announce) =
     (case broadcast_destroy_ex cpy io a grace announce reg of Destroyed d \<Rightarrow> Some (ds_reg d) | _ \<Rightarrow> None)"

fun rg_run :: "copy_string \<Rightarrow> rg_op list \<Rightarrow> registry \<Rightarrow> registry option" where
  "rg_run cpy [] reg = Some reg"
| "rg_run cpy (op # ops) reg = Option.bind (rg_apply cpy reg op) (rg_run cpy ops)"

fun rg_calm :: "rg_op \<Rightarrow> bool" where
  "rg_calm (RgCreate io name prof) = (ci_others io = id)"
| "rg_calm (RgDestroy io a grace announce) = destroy_calm io"
| "rg_calm op = True"

lemma create_inv:
  assumes "rg_inv reg" "rg_store reg (ci_addr io) = None" "ci_others io = id" "broadcast_create cpy io name pname reg = Some (p, reg')"
  shows "rg_inv reg'"
proof (cases "reg' = reg")
  case False
  with assms(4) have nz: "\<not> zstr name" "ci_pool io" by (auto simp: broadcast_create_def split: if_splits)
  with assms(4) obtain found where f: "broadcast_config_find_profile (rg_g reg) pname = Some found"
    by (cases "broadcast_config_find_profile (rg_g reg) pname") (auto simp: broadcast_create_def)
  obtain prof where prof: "found = Some prof" using False assms(4) nz f by (cases found) (auto simp: broadcast_create_def)
  obtain spf bpf where g: "frame_geometry prof = (spf, bpf)" by (rule prod.exhaust)
  let ?b = "new_broadcast io (rg_g reg) (the name) prof spf bpf"
  have "create_insert io ?b reg \<noteq> None"
    using False assms(4) nz f prof g by (auto simp: broadcast_create_def split: if_splits option.splits)
  then obtain reg1 where i: "create_insert io ?b reg = Some reg1" by blast
  then have "create_finish cpy io prof reg1 = Some reg'"
    using False assms(3,4) nz f prof g by (auto simp: broadcast_create_def bind_eq_Some_conv split: if_splits)
  with create_insert_inv(1) [OF assms(1) i assms(2)] create_finish_inv show ?thesis by blast
qed (use assms in simp)

lemma rg_apply_inv:
  assumes "rg_inv reg" "rg_calm op" "rg_apply cpy reg op = Some reg'"
  shows "rg_inv reg'"
proof (cases op)
  case (RgCreate io name prof)
  with assms show ?thesis by (auto split: if_splits intro: create_inv)
next
  case (RgRef name)
  with assms find_and_ref_inv [OF assms(1), of name] show ?thesis by auto
next
  case (RgRelease p)
  with assms show ?thesis by (auto intro: release_inv)
next
  case (RgDestroy io a grace announce)
  with assms(3) obtain d where d: "broadcast_destroy_ex cpy io a grace announce reg = Destroyed d" "reg' = ds_reg d"
    by (auto split: destroy_result.splits)
  obtain r where r: "rg_store reg a = Some r" "ds_reg d = destroy_free a (ds_room d) reg" using d(1) by (rule destroyed_parts)
  have "b_name (rm_b (ds_room d)) = b_name (rm_b r)" using assms(2) RgDestroy by (intro destroyed_name [OF d(1) _ r(1)]) simp
  with destroy_free_inv(1) [OF assms(1) r(1)] r(2) d(2) show ?thesis by simp
qed

lemma rg_run_inv: "rg_inv reg \<Longrightarrow> list_all rg_calm ops \<Longrightarrow> rg_run cpy ops reg = Some reg' \<Longrightarrow> rg_inv reg'"
proof (induction ops arbitrary: reg)
  case (Cons op ops)
  then obtain reg1 where s: "rg_apply cpy reg op = Some reg1" "rg_run cpy ops reg1 = Some reg'" by (auto simp: bind_eq_Some_conv)
  have "rg_inv reg1" using rg_apply_inv [OF Cons.prems(1) _ s(1)] Cons.prems(2) by simp
  then show ?case using Cons.IH Cons.prems(2) s(2) by simp
qed simp

text \<open>
  C8. The table stays consistent. After any sequence of creations, lookups with a reference, releases
  and completed teardowns, names are unique, every entry leads to the live object of that name, every
  live object is entered, and \<open>active_broadcasts\<close> is the number of entries, at most \<open>max_broadcasts\<close>.
\<close>

theorem registry_invariant:
  assumes "rg_inv reg" "list_all rg_calm ops" "rg_run cpy ops reg = Some reg'"
  shows "distinct (map fst (g_broadcast_hash (rg_g reg')))
    \<and> (hash_lookup reg' name = Some a \<longleftrightarrow> (\<exists>r. rg_store reg' a = Some r \<and> b_name (rm_b r) = name))
    \<and> unat (g_active_broadcasts (rg_g reg')) = length (g_broadcast_hash (rg_g reg'))
    \<and> g_active_broadcasts (rg_g reg') \<le> g_max_broadcasts (rg_g reg')"
proof -
  have inv: "rg_inv reg'" by (rule rg_run_inv [OF assms])
  then show ?thesis using rg_lookup [OF inv, of name a] rg_lookup_store [OF inv, of a] by (auto simp: rg_inv_def)
qed

definition quiet_destroy :: destroy_io where
  "quiet_destroy = \<lparr>di_now = 3, di_fopen = (\<lambda>f c r. None), di_grace = id, di_locate = (\<lambda>u. True), di_malloc = True,
     di_drain_from = 10, di_drain = [(11, id), (10000011, id)], di_refs_from = 20, di_refs = [(21, id), (10000021, id)]\<rparr>"

lemma quiet_destroy_calm: "destroy_calm quiet_destroy"
  by (simp add: destroy_calm_def quiet_destroy_def keeps_name_def)

text \<open>The room when the grace period is over, if there was one; what follows stops it.\<close>

definition grace_over :: "copy_string \<Rightarrow> destroy_io \<Rightarrow> u32 \<Rightarrow> string option \<Rightarrow> room \<Rightarrow> room" where
  "grace_over cpy io grace_ms announce r = fst (destroy_grace cpy io (clamp_grace grace_ms) announce (upd_b destroy_mark r))"

lemma listener_rep_heap:
  assumes "listener_rep r xs" "x \<in> set xs"
  shows "rm_heap r x \<noteq> None"
  using assms dll_known unfolding listener_rep_def by blast

lemma destroy_stop_ok:
  assumes "listener_rep q xs" "old_stays (b_current_speaker (rm_b q)) polls q"
  obtains q' where "destroy_stop cpy io q = Some (b_current_speaker (rm_b q), q')" "listener_rep q' xs"
    "\<And>y. map_option m_uuid (rm_heap q' y) = map_option m_uuid (rm_heap q y)" "old_stays (b_current_speaker (rm_b q)) polls q'"
proof -
  let ?b = "broadcast_record_stop_all cpy (di_now io) ((stop_play ((rm_b q)\<lparr>b_destroyed := True\<rparr>))\<lparr>b_moh_open := False\<rparr>)"
  show thesis
  proof (cases "b_current_speaker (rm_b q)")
    case None
    then show ?thesis using assms
      by (intro that [of "upd_b (\<lambda>b. broadcast_record_stop_all cpy (di_now io) ((stop_play (b\<lparr>b_destroyed := True\<rparr>))\<lparr>b_moh_open := False\<rparr>)) q"])
        (simp_all add: destroy_stop_def record_stop_all_fields stop_play_def listener_rep_def old_stays_def)
  next
    case (Some s)
    with assms(2) obtain m where m: "rm_heap q s = Some m" by (auto simp: old_stays_def)
    let ?h = "(rm_heap q)(s \<mapsto> broadcast_speaker_stop_input m)"
    let ?q = "q\<lparr>rm_b := ?b\<lparr>b_current_speaker := None\<rparr>, rm_heap := ?h\<rparr>"
    have lk: "lk ?h y = lk (rm_heap q) y" for y using m by (simp add: lk_def broadcast_speaker_stop_input_def)
    have st: "destroy_stop cpy io q = Some (Some s, ?q)"
      using Some m by (simp add: destroy_stop_def record_stop_all_fields stop_play_def upd_b_def)
    from assms(1) obtain lst where d: "dll (rm_heap q) None (b_listener_head (rm_b q)) xs lst None" by (auto simp: listener_rep_def)
    then have "dll ?h None (b_listener_head (rm_b q)) xs lst None" using dll_cong [of xs "rm_heap q" ?h] lk by simp
    then have rep: "listener_rep ?q xs"
      using assms(1) by (auto simp: listener_rep_def record_stop_all_fields stop_play_def)
    have u: "map_option m_uuid (rm_heap ?q y) = map_option m_uuid (rm_heap q y)" for y
      using m by (simp add: broadcast_speaker_stop_input_def)
    have "old_stays (Some s) polls ?q" using assms(2) Some by (simp add: old_stays_def)
    with st rep u show ?thesis by (intro that [of ?q]) (simp_all add: Some)
  qed
qed

lemma destroy_ok:
  assumes "rg_inv reg" "rg_store reg a = Some r" "q = grace_over cpy io grace_ms announce r" "listener_rep q xs"
    "old_stays (b_current_speaker (rm_b q)) (di_drain io) q" "destroy_calm io"
    and "expires (di_drain_from io + 10000000) (di_drain io)" "expires (di_refs_from io + 10000000) (di_refs io)"
  shows "\<exists>d. broadcast_destroy_ex cpy io a grace_ms announce reg = Destroyed d \<and> ds_status d = ST_SUCCESS \<and> rg_inv (ds_reg d)
    \<and> hash_lookup (ds_reg d) (b_name (rm_b r)) = None \<and> rg_store (ds_reg d) = (rg_store reg)(a := None)
    \<and> unat (g_active_broadcasts (rg_g (ds_reg d))) = unat (g_active_broadcasts (rg_g reg)) - 1
    \<and> ds_hangups d = concat (map (\<lambda>x. b_hangup_listener_session_by_uuid (di_locate io) ''destroyed''
          CAUSE_SERVICE_UNAVAILABLE (m_uuid (the (rm_heap q x)))) (take (kick_limit (di_malloc io) (length xs)) xs))"
proof -
  let ?ys = "take (kick_limit (di_malloc io) (length xs)) xs"
  obtain slept where g: "destroy_grace cpy io (clamp_grace grace_ms) announce (upd_b destroy_mark r) = (q, slept)"
    using assms(3) by (metis grace_over_def prod.collapse)
  obtain r2 where st: "destroy_stop cpy io q = Some (b_current_speaker (rm_b q), r2)" "listener_rep r2 xs"
    "\<And>y. map_option m_uuid (rm_heap r2 y) = map_option m_uuid (rm_heap q y)" "old_stays (b_current_speaker (rm_b q)) (di_drain io) r2"
    using destroy_stop_ok [OF assms(4,5)] by blast
  obtain r3 where k: "kick_snapshot (di_malloc io) (\<lambda>mid b. b) r2 = Some (map (\<lambda>x. uuid_text (the (rm_heap r2 x))) ?ys, r3)"
    "\<And>y. rm_heap r3 y = (if y \<in> set ?ys then map_option kicked (rm_heap r2 y) else rm_heap r2 y)"
    by (rule kick_snapshot_ok [OF st(2), of "\<lambda>mid b. b" "di_malloc io"]) simp_all
  have "old_stays (b_current_speaker (rm_b q)) (di_drain io) r3" using st(4) k(2) by (auto simp: old_stays_def)
  from destroy_waits_end [OF this assms(7,8)] obtain r4 dr up where
    w: "destroy_waits io (b_current_speaker (rm_b q)) r3 = Some (Some (r4, dr, up))" by blast
  have "\<exists>d. broadcast_destroy_ex cpy io a grace_ms announce reg = Destroyed d"
    using assms(2) g st(1) k(1) w by (simp add: broadcast_destroy_ex_def Let_def)
  then obtain d where d: "broadcast_destroy_ex cpy io a grace_ms announce reg = Destroyed d" by blast
  then have f: "ds_status d = ST_SUCCESS" "ds_hangups d = hangup_all (di_locate io) ''destroyed'' CAUSE_SERVICE_UNAVAILABLE
      (map (\<lambda>x. uuid_text (the (rm_heap r2 x))) ?ys)" "ds_reg d = destroy_free a (ds_room d) reg"
    using assms(2) g st(1) k(1) w by (auto simp: broadcast_destroy_ex_def Let_def)
  have nm: "b_name (rm_b (ds_room d)) = b_name (rm_b r)" by (rule destroyed_name [OF d assms(6,2)])
  note inv = destroy_free_inv [OF assms(1,2) nm, folded f(3)]
  have "hash_lookup reg (b_name (rm_b r)) = Some a" by (rule rg_lookup_store [OF assms(1,2)])
  then have "0 < length (g_broadcast_hash (rg_g reg))" by (auto simp: hash_lookup_def)
  then have "unat (g_active_broadcasts (rg_g (ds_reg d))) = unat (g_active_broadcasts (rg_g reg)) - 1"
    using assms(1) by (simp add: f(3) destroy_free_def Let_def hash_delete_def rg_inv_def unat_dec_nowrap)
  moreover have "rg_store (ds_reg d) = (rg_store reg)(a := None)" by (simp add: f(3) destroy_free_def Let_def)
  moreover have "ds_hangups d = concat (map (\<lambda>x. b_hangup_listener_session_by_uuid (di_locate io) ''destroyed''
          CAUSE_SERVICE_UNAVAILABLE (m_uuid (the (rm_heap q x)))) ?ys)"
  proof -
    have "m_uuid (the (rm_heap r2 x)) = m_uuid (the (rm_heap q x))" if "x \<in> set ?ys" for x
    proof -
      have "rm_heap q x \<noteq> None" using listener_rep_heap [OF assms(4)] that in_set_takeD by fast
      with st(3) [of x] show ?thesis by (auto simp: map_option_case split: option.splits)
    qed
    then show ?thesis unfolding f(2)
      using hangup_all_uuids [of "di_locate io" "''destroyed''" CAUSE_SERVICE_UNAVAILABLE "map (\<lambda>x. the (rm_heap r2 x)) ?ys"]
      by (simp add: comp_def cong: map_cong)
  qed
  ultimately show ?thesis using d f(1) inv by blast
qed

text \<open>
  C9. Teardown completes, with any grace period and announcement and with or without a speaker. When
  the listener list is well formed at the end of the grace period, the speaker that is then installed stays
  allocated while the drain loop polls (the code does not see to this, \<open>destroy_reads_departed_speaker\<close>), the other
  threads leave the name, and each of the two waits sees the clock pass its ten-second limit,
  \<open>broadcast_destroy_ex\<close> returns success: it has hung up every listed member's located session (the first 512
  without memory), the name is free again, the counter is one less, the object is freed, and every other
  object is untouched.
\<close>

theorem destroy_completes:
  assumes "rg_inv reg" "rg_store reg a = Some r" "q = grace_over cpy io grace_ms announce r" "listener_rep q xs" "destroy_calm io"
    and "\<And>s. b_current_speaker (rm_b q) = Some s \<Longrightarrow> rm_heap q s \<noteq> None \<and> keeps_member s (di_drain io)"
    and "expires (di_drain_from io + 10000000) (di_drain io)" "expires (di_refs_from io + 10000000) (di_refs io)"
  shows "\<exists>d. broadcast_destroy_ex cpy io a grace_ms announce reg = Destroyed d \<and> ds_status d = ST_SUCCESS \<and> rg_inv (ds_reg d)
    \<and> hash_lookup (ds_reg d) (b_name (rm_b r)) = None \<and> rg_store (ds_reg d) = (rg_store reg)(a := None)
    \<and> unat (g_active_broadcasts (rg_g (ds_reg d))) = unat (g_active_broadcasts (rg_g reg)) - 1
    \<and> ds_hangups d = concat (map (\<lambda>x. b_hangup_listener_session_by_uuid (di_locate io) ''destroyed''
          CAUSE_SERVICE_UNAVAILABLE (m_uuid (the (rm_heap q x)))) (take (kick_limit (di_malloc io) (length xs)) xs))"
  by (rule destroy_ok [OF assms(1-4) _ assms(5,7,8)]) (simp add: old_stays_def assms(6))

lemma live_registry_inv: "rg_inv live_registry"
  by (rule create_insert_inv(1) [OF empty_registry_inv live_registry_created]) (simp add: empty_registry_def plain_create_def)

lemma live_registry_store: "rg_store live_registry 7 = Some \<lparr>rm_b = live_broadcast\<lparr>b_producer_running := True, b_producer_thread := True\<rparr>,
    rm_heap = Map.empty, rm_served = 0\<rparr>"
  using create_insert_inv(2) [OF empty_registry_inv live_registry_created] by (simp add: empty_registry_def plain_create_def)

theorem registry_invariant_witness:
  "\<exists>reg'. rg_run cut_copy [RgCreate (plain_create 7) (Some ''live'') None, RgRef (Some ''live'')] empty_registry = Some reg'
     \<and> unat (g_active_broadcasts (rg_g reg')) = length (g_broadcast_hash (rg_g reg'))"
proof -
  have "create_insert (plain_create 7) (new_broadcast (plain_create 7) (rg_g empty_registry) ''live'' zero_profile 160 320) empty_registry
      = Some live_registry" using live_registry_created by (simp add: live_broadcast_def)
  moreover obtain reg1 where fin: "create_finish cut_copy (plain_create 7) zero_profile live_registry = Some reg1"
    using live_registry_store by (simp add: create_finish_def Let_def plain_create_def)
  ultimately have c: "broadcast_create cut_copy (plain_create 7) (Some ''live'') None empty_registry = Some (Some 7, reg1)"
    using empty_registry_profile zero_profile_geometry
    by (simp add: broadcast_create_def BROADCAST_MAX_FRAME_BYTES_def) (simp add: plain_create_def)
  have i: "rg_inv reg1" by (rule create_finish_inv [OF live_registry_inv fin])
  from find_and_ref_inv [OF i, of "Some ''live''"] obtain p reg2 where f: "broadcast_find_and_ref (Some ''live'') reg1 = Some (p, reg2)" by blast
  have r: "rg_run cut_copy [RgCreate (plain_create 7) (Some ''live'') None, RgRef (Some ''live'')] empty_registry = Some reg2"
    using c f by (simp add: empty_registry_def plain_create_def)
  have "list_all rg_calm [RgCreate (plain_create 7) (Some ''live'') None, RgRef (Some ''live'')]" by (simp add: plain_create_def)
  from registry_invariant [OF empty_registry_inv this r, of "''live''" 7] r show ?thesis by blast
qed

text \<open>A broadcast in the table with a speaker in its wait and one listener.\<close>

definition busy_room :: room where
  "busy_room = \<lparr>rm_b = live_broadcast\<lparr>b_listener_head := Some 1, b_listener_count := 1, b_stat_peak_listeners := 1,
     b_current_speaker := Some 2\<rparr>, rm_heap = [1 \<mapsto> zero_member ''aa'', 2 \<mapsto> joined_speaker], rm_served = 0\<rparr>"

definition busy_registry :: registry where
  "busy_registry = live_registry\<lparr>rg_store := (rg_store live_registry)(7 \<mapsto> busy_room)\<rparr>"

lemma busy_registry_inv: "rg_inv busy_registry"
  unfolding busy_registry_def by (rule rg_inv_upd [OF live_registry_inv live_registry_store]) (simp add: busy_room_def)

lemma quiet_keeps_member: "keeps_member s (di_drain quiet_destroy)"
  by (simp add: keeps_member_def quiet_destroy_def)

lemma quiet_expires:
  "expires (di_drain_from quiet_destroy + 10000000) (di_drain quiet_destroy)"
  "expires (di_refs_from quiet_destroy + 10000000) (di_refs quiet_destroy)"
  by (simp_all add: expires_def quiet_destroy_def)

theorem destroy_completes_witness:
  "\<exists>d. broadcast_destroy_ex cut_copy quiet_destroy 7 5000 (Some ''bye.wav'') busy_registry = Destroyed d
     \<and> hash_lookup (ds_reg d) ''live'' = None \<and> rg_store (ds_reg d) 7 = None
     \<and> ds_hangups d = [(''aa'', ''destroyed'', CAUSE_SERVICE_UNAVAILABLE)]"
proof -
  let ?q = "grace_over cut_copy quiet_destroy 5000 (Some ''bye.wav'') busy_room"
  have st: "rg_store busy_registry 7 = Some busy_room" by (simp add: busy_registry_def)
  have q: "rm_heap ?q = rm_heap busy_room" "b_current_speaker (rm_b ?q) = Some 2" "b_listener_head (rm_b ?q) = Some 1"
    "b_listener_count (rm_b ?q) = 1" "b_profile (rm_b ?q) = Some zero_profile" "b_stat_peak_listeners (rm_b ?q) = 1"
    by (simp_all add: grace_over_def destroy_grace_def clamp_grace_def grace_announce_def quiet_destroy_def stop_play_def
        destroy_mark_def busy_room_def Let_def)
  have rep: "listener_rep ?q [1]"
    unfolding listener_rep_def q by (simp add: busy_room_def zero_member_def zero_profile_def lk_def)
  have "rm_heap ?q s \<noteq> None \<and> keeps_member s (di_drain quiet_destroy)" if "b_current_speaker (rm_b ?q) = Some s" for s
  proof -
    have "s = 2" using that q(2) by simp
    then show ?thesis unfolding q(1) using quiet_keeps_member by (simp add: busy_room_def)
  qed
  from destroy_completes [OF busy_registry_inv st refl rep quiet_destroy_calm this quiet_expires]
  obtain d where d: "broadcast_destroy_ex cut_copy quiet_destroy 7 5000 (Some ''bye.wav'') busy_registry = Destroyed d"
    "hash_lookup (ds_reg d) (b_name (rm_b busy_room)) = None" "rg_store (ds_reg d) = (rg_store busy_registry)(7 := None)"
    "ds_hangups d = concat (map (\<lambda>x. b_hangup_listener_session_by_uuid (di_locate quiet_destroy) ''destroyed''
          CAUSE_SERVICE_UNAVAILABLE (m_uuid (the (rm_heap ?q x)))) (take (kick_limit (di_malloc quiet_destroy) (length [1 :: maddr])) [1]))"
    by blast
  have "ds_hangups d = [(''aa'', ''destroyed'', CAUSE_SERVICE_UNAVAILABLE)]"
    unfolding d(4) q by (simp add: busy_room_def zero_member_def quiet_destroy_def kick_limit_def b_hangup_listener_session_by_uuid_def)
  moreover have "b_name (rm_b busy_room) = ''live''" by (simp add: busy_room_def)
  ultimately show ?thesis using d by auto
qed

text \<open>
  C19. What a teardown that was not cut short guarantees. If both waits saw their condition, and the
  other threads add no listener and no speaker while the last references go, then the memory is freed with
  no listener on the list, no speaker installed, at most one reference left, and the producer stopped.
\<close>

theorem destroy_frees_quiescent:
  assumes "broadcast_destroy_ex cpy io a grace_ms announce reg = Destroyed d" "ds_drained d" "ds_unpinned d"
    and "list_all (\<lambda>(t, f). \<forall>r. b_listener_count (rm_b r) = 0 \<and> b_current_speaker (rm_b r) = None \<longrightarrow>
          b_listener_count (rm_b (f r)) = 0 \<and> b_current_speaker (rm_b (f r)) = None) (di_refs io)"
  shows "b_listener_count (rm_b (ds_room d)) = 0 \<and> b_current_speaker (rm_b (ds_room d)) = None
    \<and> b_live_refs (rm_b (ds_room d)) \<le> 1 \<and> \<not> b_producer_running (rm_b (ds_room d))"
proof -
  from assms(1) obtain old r3 r4 where w: "destroy_waits io old r3 = Some (Some (r4, ds_drained d, ds_unpinned d))"
    and d: "ds_room d = upd_b (\<lambda>b. b\<lparr>b_producer_running := False, b_producer_thread := False\<rparr>) r4" by (rule destroyed_parts)
  from w assms(2,3) obtain r1 where w1: "drain_wait old (di_drain_from io + 10000000) (di_drain io) r3 = Reached r1"
    "refs_wait (di_refs_from io + 10000000) (di_refs io) r1 = Reached r4" by (auto elim: destroy_waits_parts)
  let ?P = "\<lambda>r. b_listener_count (rm_b r) = 0 \<and> b_current_speaker (rm_b r) = None"
  from refs_wait_keeps [of ?P r1 "di_refs io" "di_refs_from io + 10000000", OF drain_wait_reached [OF w1(1)] assms(4)] w1(2)
  have "?P r4" by simp
  with refs_wait_reached [OF w1(2)] d show ?thesis by simp
qed

theorem destroy_frees_quiescent_witness:
  "\<exists>d. broadcast_destroy_ex cut_copy quiet_destroy 7 0 None live_registry = Destroyed d
     \<and> b_listener_count (rm_b (ds_room d)) = 0 \<and> b_live_refs (rm_b (ds_room d)) \<le> 1"
proof -
  obtain d where d: "broadcast_destroy_ex cut_copy quiet_destroy 7 0 None live_registry = Destroyed d" "ds_drained d" "ds_unpinned d"
    using live_registry_store
    by (simp add: broadcast_destroy_ex_def destroy_grace_def clamp_grace_def destroy_stop_def record_stop_all_fields stop_play_def
        destroy_mark_def kick_snapshot_def list_count.simps kick_limit_def destroy_waits_def quiet_destroy_def Let_def)
  have "list_all (\<lambda>(t, f). \<forall>r. b_listener_count (rm_b r) = 0 \<and> b_current_speaker (rm_b r) = None \<longrightarrow>
          b_listener_count (rm_b (f r)) = 0 \<and> b_current_speaker (rm_b (f r)) = None) (di_refs quiet_destroy)"
    by (simp add: quiet_destroy_def)
  from destroy_frees_quiescent [OF d this] d(1) show ?thesis by blast
qed

text \<open>
  The teardown reads a departed speaker. While listeners remain, the drain loop polls the replaced
  speaker's wait flag through its old pointer. The speaker's session is free to go as soon as it has dropped that flag:
  when it goes between two polls, the next poll reads freed memory.
\<close>

theorem destroy_reads_departed_speaker:
  assumes "rg_store reg a = Some r" "listener_rep r xs" "xs \<noteq> []" "b_current_speaker (rm_b r) = Some s"
    "rm_heap r s = Some m" "s \<notin> set xs"
    and "di_drain io = (t1, id) # (t2, \<lambda>r. r\<lparr>rm_heap := (rm_heap r)(s := None)\<rparr>) # polls"
    "t1 \<le> di_drain_from io + 10000000" "t2 \<le> di_drain_from io + 10000000"
  shows "broadcast_destroy_ex cpy io a 0 announce reg = UseAfterFree"
proof -
  let ?r1 = "upd_b destroy_mark r"
  have g: "destroy_grace cpy io (clamp_grace 0) announce ?r1 = (?r1, 0)" by (simp add: destroy_grace_def clamp_grace_def)
  let ?b2 = "broadcast_record_stop_all cpy (di_now io) ((stop_play (destroy_mark (rm_b r)\<lparr>b_destroyed := True\<rparr>))\<lparr>b_moh_open := False\<rparr>)"
  let ?r2 = "r\<lparr>rm_b := ?b2\<lparr>b_current_speaker := None\<rparr>, rm_heap := (rm_heap r)(s \<mapsto> broadcast_speaker_stop_input m)\<rparr>"
  have st: "destroy_stop cpy io ?r1 = Some (Some s, ?r2)"
    using assms(4,5) by (simp add: destroy_stop_def record_stop_all_fields stop_play_def destroy_mark_def upd_b_def)
  from assms(2) obtain lst where d: "dll (rm_heap r) None (b_listener_head (rm_b r)) xs lst None" by (auto simp: listener_rep_def)
  have "dll (rm_heap r) None (b_listener_head (rm_b r)) xs lst None =
      dll ((rm_heap r)(s \<mapsto> broadcast_speaker_stop_input m)) None (b_listener_head (rm_b r)) xs lst None"
    using assms(6) by (intro dll_cong) (auto simp: lk_upd)
  with d have dl: "dll ((rm_heap r)(s \<mapsto> broadcast_speaker_stop_input m)) None (b_listener_head (rm_b r)) xs lst None" by simp
  have rep: "listener_rep ?r2 xs"
    using assms(2) dl by (auto simp: listener_rep_def record_stop_all_fields stop_play_def destroy_mark_def)
  obtain r3 where k: "kick_snapshot (di_malloc io) (\<lambda>mid b. b) ?r2 =
      Some (map (\<lambda>x. uuid_text (the (rm_heap ?r2 x))) (take (kick_limit (di_malloc io) (length xs)) xs), r3)" "listener_rep r3 xs"
    "\<And>y. rm_heap r3 y = (if y \<in> set (take (kick_limit (di_malloc io) (length xs)) xs) then map_option kicked (rm_heap ?r2 y) else rm_heap ?r2 y)"
    by (rule kick_snapshot_ok [OF rep, of "\<lambda>mid b. b" "di_malloc io"]) simp_all
  have live: "rm_heap r3 s = Some (broadcast_speaker_stop_input m)" using k(3) [of s] assms(6) in_set_takeD by force
  have "unat (b_listener_count (rm_b r3)) \<noteq> 0" using k(2) assms(3) by (auto simp: listener_rep_def)
  then have "b_listener_count (rm_b r3) \<noteq> 0" by auto
  then have "destroy_waits io (Some s) r3 = None"
    using assms(7-9) live by (simp add: destroy_waits_def)
  then show ?thesis using assms(1) g st k(1) by (simp add: broadcast_destroy_ex_def)
qed

text \<open>A listener on the list and a speaker in its wait.\<close>

definition speaker_and_listener :: room where
  "speaker_and_listener = bridged_room\<lparr>rm_b := (rm_b bridged_room)\<lparr>b_current_speaker := Some 2\<rparr>,
     rm_heap := (rm_heap bridged_room)(2 \<mapsto> joined_speaker)\<rparr>"

theorem destroy_reads_departed_speaker_witness:
  "broadcast_destroy_ex cut_copy (quiet_destroy\<lparr>di_drain := [(11, id), (12, \<lambda>r. r\<lparr>rm_heap := (rm_heap r)(2 := None)\<rparr>)]\<rparr>) 7 0 None
     (live_registry\<lparr>rg_store := (rg_store live_registry)(7 \<mapsto> speaker_and_listener)\<rparr>) = UseAfterFree"
proof (rule destroy_reads_departed_speaker [of _ 7 speaker_and_listener "[1]" 2 joined_speaker _ 11 12 "[]"])
  show "listener_rep speaker_and_listener [1]"
    by (simp add: listener_rep_def speaker_and_listener_def bridged_room_def zero_broadcast_def zero_profile_def zero_member_def lk_def)
qed (simp_all add: speaker_and_listener_def quiet_destroy_def)

text \<open>
  The grace period is slept in the wrong unit. A completed teardown with a grace period of
  \<open>grace_ms\<close> (clamped to 60000) has slept \<open>grace_ms\<close> seconds, a thousand times the documented time.
\<close>

theorem destroy_grace_sleeps_seconds:
  assumes "broadcast_destroy_ex cpy io a grace_ms announce reg = Destroyed d"
  shows "ds_slept d = int (min (unat grace_ms) 60000) * 1000000"
proof -
  from assms obtain r r1 where "destroy_grace cpy io (clamp_grace grace_ms) announce (upd_b destroy_mark r) = (r1, ds_slept d)"
    by (rule destroyed_parts)
  then have "ds_slept d = uint (clamp_grace grace_ms) * 1000000" by (auto simp: destroy_grace_def word_gt_0 split: if_splits)
  moreover have "unat (clamp_grace grace_ms) = min (unat grace_ms) 60000"
    by (auto simp: clamp_grace_def word_less_nat_alt)
  ultimately show ?thesis by (metis uint_nat)
qed

theorem destroy_grace_sleeps_seconds_witness:
  "\<exists>d. broadcast_destroy_ex cut_copy quiet_destroy 7 5000 None live_registry = Destroyed d \<and> ds_slept d = 5000 * 1000000"
proof -
  have "\<exists>d. broadcast_destroy_ex cut_copy quiet_destroy 7 5000 None live_registry = Destroyed d"
    using live_registry_store
    by (simp add: broadcast_destroy_ex_def destroy_grace_def clamp_grace_def destroy_stop_def record_stop_all_fields stop_play_def
        grace_announce_def destroy_mark_def kick_snapshot_def list_count.simps kick_limit_def destroy_waits_def quiet_destroy_def Let_def)
  then obtain d where d: "broadcast_destroy_ex cut_copy quiet_destroy 7 5000 None live_registry = Destroyed d" by blast
  from destroy_grace_sleeps_seconds [OF d] d show ?thesis by auto
qed

section \<open>Destroying everything\<close>

declare broadcast_destroy_all.simps [simp del]

text \<open>
  A room that every teardown of \<open>ios\<close> can take down: a well-formed list, and a speaker that stays
  allocated while the drain loop polls.
\<close>

definition room_ready :: "destroy_io list \<Rightarrow> room \<Rightarrow> bool" where
  "room_ready ios r \<longleftrightarrow> (\<exists>xs. listener_rep r xs) \<and> (\<forall>io \<in> set ios. old_stays (b_current_speaker (rm_b r)) (di_drain io) r)"

lemma grace_over_none: "grace_over cpy io 0 announce r = upd_b destroy_mark r"
  by (simp add: grace_over_def destroy_grace_def clamp_grace_def)

definition destroy_expires :: "destroy_io \<Rightarrow> bool" where
  "destroy_expires io \<longleftrightarrow> expires (di_drain_from io + 10000000) (di_drain io) \<and> expires (di_refs_from io + 10000000) (di_refs io)"

lemma destroyed_globals:
  assumes "broadcast_destroy_ex cpy io a grace_ms announce reg = Destroyed d"
  shows "g_running (rg_g (ds_reg d)) = g_running (rg_g reg)" "g_emitter_running (rg_g (ds_reg d)) = g_emitter_running (rg_g reg)"
proof -
  have "ds_reg d = destroy_free a (ds_room d) reg" using assms by (rule destroyed_parts)
  then show "g_running (rg_g (ds_reg d)) = g_running (rg_g reg)" "g_emitter_running (rg_g (ds_reg d)) = g_emitter_running (rg_g reg)"
    by (simp_all add: destroy_free_def hash_delete_def Let_def)
qed

lemma destroy_all_empties:
  "rg_inv reg \<Longrightarrow> (\<And>a r. rg_store reg a = Some r \<Longrightarrow> room_ready ios r) \<Longrightarrow>
   list_all (\<lambda>io. destroy_calm io \<and> destroy_expires io) ios \<Longrightarrow> length (g_broadcast_hash (rg_g reg)) \<le> length ios \<Longrightarrow>
   \<exists>reg'. broadcast_destroy_all cpy ios reg = Some reg' \<and> rg_inv reg' \<and> g_broadcast_hash (rg_g reg') = []
     \<and> g_running (rg_g reg') = g_running (rg_g reg) \<and> g_emitter_running (rg_g reg') = g_emitter_running (rg_g reg)"
proof (induction ios arbitrary: reg)
  case Nil
  then show ?case by (subst broadcast_destroy_all.simps) simp
next
  case (Cons io ios)
  show ?case
  proof (cases "g_broadcast_hash (rg_g reg)")
    case (Cons e rest)
    obtain k a where e: "e = (k, a)" by (rule prod.exhaust)
    with Cons have "(k, a) \<in> set (g_broadcast_hash (rg_g reg))" by simp
    with Cons.prems(1) obtain r where r: "rg_store reg a = Some r" "b_name (rm_b r) = k" unfolding rg_inv_def by blast
    let ?r = "upd_b (\<lambda>b. b\<lparr>b_live_refs := b_live_refs b + 1\<rparr>) r"
    let ?reg = "reg\<lparr>rg_store := (rg_store reg)(a \<mapsto> ?r)\<rparr>"
    have inv: "rg_inv ?reg" by (rule rg_inv_refs [OF Cons.prems(1) r(1)])
    have st: "rg_store ?reg a = Some ?r" by simp
    let ?q = "grace_over cpy io 0 None ?r"
    obtain xs where q: "old_stays (b_current_speaker (rm_b r)) (di_drain io) r" "listener_rep r xs"
      using Cons.prems(2) [OF r(1)] by (auto simp: room_ready_def)
    have rep: "listener_rep ?q xs" using q(2) by (simp add: grace_over_none destroy_mark_def listener_rep_def)
    have sp: "old_stays (b_current_speaker (rm_b ?q)) (di_drain io) ?q"
      using q(1) by (simp add: grace_over_none destroy_mark_def old_stays_def)
    have io: "destroy_calm io" "expires (di_drain_from io + 10000000) (di_drain io)" "expires (di_refs_from io + 10000000) (di_refs io)"
      using Cons.prems(3) by (simp_all add: destroy_expires_def)
    from destroy_ok [OF inv st refl rep sp io] obtain d where
      d: "broadcast_destroy_ex cpy io a 0 None ?reg = Destroyed d" "rg_inv (ds_reg d)" "rg_store (ds_reg d) = (rg_store ?reg)(a := None)"
      "unat (g_active_broadcasts (rg_g (ds_reg d))) = unat (g_active_broadcasts (rg_g ?reg)) - 1" by blast
    have ready: "room_ready ios r'" if "rg_store (ds_reg d) a' = Some r'" for a' r'
    proof -
      have "rg_store reg a' = Some r'" using that d(3) by (auto split: if_splits)
      from Cons.prems(2) [OF this] show ?thesis by (simp add: room_ready_def)
    qed
    have "length (g_broadcast_hash (rg_g (ds_reg d))) = length (g_broadcast_hash (rg_g reg)) - 1"
      using d(2,4) Cons.prems(1) by (simp add: rg_inv_def)
    then have len: "length (g_broadcast_hash (rg_g (ds_reg d))) \<le> length ios" using Cons.prems(4) by simp
    have rest: "list_all (\<lambda>io. destroy_calm io \<and> destroy_expires io) ios" using Cons.prems(3) by simp
    have "\<exists>reg'. broadcast_destroy_all cpy ios (ds_reg d) = Some reg' \<and> rg_inv reg' \<and> g_broadcast_hash (rg_g reg') = []
        \<and> g_running (rg_g reg') = g_running (rg_g (ds_reg d)) \<and> g_emitter_running (rg_g reg') = g_emitter_running (rg_g (ds_reg d))"
      by (rule Cons.IH [OF d(2) _ rest len]) (rule ready)
    then obtain reg' where
      "broadcast_destroy_all cpy ios (ds_reg d) = Some reg'" "rg_inv reg'" "g_broadcast_hash (rg_g reg') = []"
      "g_running (rg_g reg') = g_running (rg_g reg)" "g_emitter_running (rg_g reg') = g_emitter_running (rg_g reg)"
      using destroyed_globals [OF d(1)] by auto
    moreover have "broadcast_destroy_all cpy (io # ios) reg = broadcast_destroy_all cpy ios (ds_reg d)"
      using Cons e r(1) d(1) by (subst broadcast_destroy_all.simps) simp
    ultimately show ?thesis by simp
  next
    case Nil
    then show ?thesis using Cons.prems(1) by (subst broadcast_destroy_all.simps) simp
  qed
qed

end
