(* ===== verification/Event_Fire.thy ===== *)
theory Event_Fire
  imports Registry
begin

text \<open>
  The firing half of broadcast_events.c: the headers \<open>b_fire_evt_msg\<close> puts on an event, with the lookup of
  the member it concerns, and the synchronous critical events. An event is its subclass with the
  list of its headers; the core's event system that delivers it is not modelled.
\<close>

section \<open>Headers\<close>

type_synonym header = "string \<times> string"
type_synonym fired = "string \<times> header list"

text \<open>\<open>switch_event_add_header_string\<close> with a value that may be NULL: then nothing is added.\<close>

definition add_header :: "string \<Rightarrow> string option \<Rightarrow> header list" where
  "add_header name v = (case v of None \<Rightarrow> [] | Some s \<Rightarrow> [(name, s)])"

definition dec_time :: "usec \<Rightarrow> string" where
  "dec_time t = (if t < 0 then CHR ''-'' # dec_string (nat (- t)) else dec_string (nat t))"

definition b_evt_add_common :: "usec \<Rightarrow> broadcast_obj \<Rightarrow> header list" where
  "b_evt_add_common now b =
     [(''Broadcast-Name'', b_name b), (''Broadcast-UUID'', b_uuid_str b),
      (''Broadcast-Profile'', (case b_profile b of Some p \<Rightarrow> p_name p | None \<Rightarrow> ''default'')), (''Timestamp'', dec_time now)]"

text \<open>The member with that id, listeners first, then the speaker; a freed node on the way is \<open>None\<close>.\<close>

definition b_find_member_by_id :: "room \<Rightarrow> u32 \<Rightarrow> maddr option option" where
  "b_find_member_by_id r mid = do {
     found \<leftarrow> list_find (\<lambda>x m. m_id m = mid) (rm_heap r) (b_listener_head (rm_b r));
     (case found of
        Some x \<Rightarrow> Some (Some x)
      | None \<Rightarrow>
          (case b_current_speaker (rm_b r) of
             None \<Rightarrow> Some None
           | Some s \<Rightarrow> do { m \<leftarrow> rm_heap r s; Some (if m_id m = mid then Some s else None) })) }"

text \<open>The text before the first bar, and what follows it, if there is one.\<close>

definition bar_split :: "string \<Rightarrow> string \<times> string option" where
  "bar_split s = (takeWhile (\<lambda>c. c \<noteq> CHR ''|'') s,
     if CHR ''|'' \<in> set s then Some (tl (dropWhile (\<lambda>c. c \<noteq> CHR ''|'') s)) else None)"

text \<open>
  What firing needs from outside: the clock, whether the core gave an event and a copy of the data, the
  caller profile of a channel (name and number), and what other threads do between the member's
  lookup, after which no lock is held, and its use.
\<close>

record fire_io =
  fi_now :: usec
  fi_event_ok :: bool
  fi_strdup_ok :: bool
  fi_profile :: "maddr \<Rightarrow> (string \<times> string) option"
  fi_others :: "room \<Rightarrow> room"

definition member_headers :: "fire_io \<Rightarrow> room \<Rightarrow> maddr option \<Rightarrow> header list option" where
  "member_headers io r p =
     (case p of
        None \<Rightarrow> Some []
      | Some a \<Rightarrow> do {
          m \<leftarrow> rm_heap (fi_others io r) a;
          Some (if \<not> m_session m then []
                else add_header ''Member-UUID'' (m_uuid m)
                  @ (case fi_profile io a of None \<Rightarrow> [] | Some (name, num) \<Rightarrow> [(''Caller-ID-Name'', name), (''Caller-ID-Number'', num)])
                  @ add_header ''Tag'' (m_tag m)) })"

definition split_headers :: "fire_io \<Rightarrow> string \<Rightarrow> string \<Rightarrow> string \<Rightarrow> header list" where
  "split_headers io first second data =
     (if \<not> fi_strdup_ok io then []
      else (first, fst (bar_split data)) # add_header second (snd (bar_split data)))"

definition type_headers :: "fire_io \<Rightarrow> room \<Rightarrow> evt_msg \<Rightarrow> header list option" where
  "type_headers io r msg =
     (case ev_type msg of
        BEVT_LISTENER_JOIN \<Rightarrow> do {
          p \<leftarrow> b_find_member_by_id r (ev_member_id msg); hs \<leftarrow> member_headers io r p;
          Some (hs @ [(''Listener-Count'', dec_string (unat (b_listener_count (rm_b r))))]) }
      | BEVT_LISTENER_LEAVE \<Rightarrow> do {
          p \<leftarrow> b_find_member_by_id r (ev_member_id msg); hs \<leftarrow> member_headers io r p;
          Some (hs @ [(''Listener-Count'', dec_string (unat (b_listener_count (rm_b r))))]) }
      | BEVT_LISTENER_RESYNC \<Rightarrow> do {
          p \<leftarrow> b_find_member_by_id r (ev_member_id msg);
          (case p of
             None \<Rightarrow> Some []
           | Some a \<Rightarrow> do {
               m \<leftarrow> rm_heap (fi_others io r) a;
               Some [(''Resync-Total'', dec_string (unat (m_resync_count m))), (''Lag-Frames'', ev_data msg)] }) }
      | BEVT_SPEAKER_TALKING \<Rightarrow> Some ((''Energy'', ev_data msg) # (case b_profile (rm_b r) of None \<Rightarrow> []
             | Some p \<Rightarrow> [(''Silence-Window-Ms'', dec_string (unat (p_silence_window_ms p)))]))
      | BEVT_SPEAKER_SILENT \<Rightarrow> Some ((''Energy'', ev_data msg) # (case b_profile (rm_b r) of None \<Rightarrow> []
             | Some p \<Rightarrow> [(''Silence-Window-Ms'', dec_string (unat (p_silence_window_ms p)))]))
      | BEVT_SPEAKER_REQUEST \<Rightarrow> do { p \<leftarrow> b_find_member_by_id r (ev_member_id msg); member_headers io r p }
      | BEVT_RECORDING_STOP \<Rightarrow> Some (if ev_data msg = [] then [] else [(''Reason'', ev_data msg)])
      | BEVT_RECORDING_FAILED \<Rightarrow> Some (if ev_data msg = [] then [] else [(''Reason'', ev_data msg)])
      | BEVT_PRODUCER_STALL \<Rightarrow> Some (if ev_data msg = [] then [] else [(''Drift-Us'', ev_data msg)])
      | BEVT_DESTROY_GRACE \<Rightarrow> Some (split_headers io ''Grace-Ms'' ''Announcement-File'' (ev_data msg))
      | BEVT_DTMF_ACTION \<Rightarrow> Some (split_headers io ''DTMF-Digit'' ''DTMF-Payload'' (ev_data msg))
      | _ \<Rightarrow> Some [])"

text \<open>The event fired, nothing when the core gives no event object, \<open>None\<close> for an access to a freed member.\<close>

definition b_fire_evt_msg :: "fire_io \<Rightarrow> room \<Rightarrow> evt_msg \<Rightarrow> fired option option" where
  "b_fire_evt_msg io r msg =
     (if \<not> fi_event_ok io then Some None
      else do {
        hs \<leftarrow> type_headers io r msg;
        Some (Some (b_evt_subclass (ev_type msg),
          b_evt_add_common (fi_now io) (rm_b r) @ [(''Member-ID'', dec_string (unat (ev_member_id msg)))]
            @ (if ev_data msg = [] then [] else [(''Broadcast-Event-Data'', ev_data msg)]) @ hs)) })"

definition broadcast_fire_critical_event ::
  "copy_string \<Rightarrow> fire_io \<Rightarrow> room \<Rightarrow> bevt_type \<Rightarrow> u32 \<Rightarrow> string option \<Rightarrow> fired option option" where
  "broadcast_fire_critical_event cpy io r ty mid data =
     b_fire_evt_msg io r \<lparr>ev_type = ty, ev_member_id = mid, ev_seq = 0, ev_when = 0,
       ev_data = (if zstr data then [] else cpy (the data) 256)\<rparr>"

text \<open>Starting and stopping the emitter: the flag its loop tests.\<close>

definition broadcast_event_emitter_start :: "switch_status \<Rightarrow> broadcast_globals \<Rightarrow> switch_status \<times> broadcast_globals" where
  "broadcast_event_emitter_start thread g = (thread, g\<lparr>g_emitter_running := True\<rparr>)"

definition broadcast_event_emitter_stop :: "broadcast_globals \<Rightarrow> broadcast_globals" where
  "broadcast_event_emitter_stop g = g\<lparr>g_emitter_running := False\<rparr>"

section \<open>Lemmas\<close>

lemma find_member_rep:
  assumes "listener_rep r xs"
  shows "b_find_member_by_id r mid =
     (case find (\<lambda>x. m_id (the (rm_heap r x)) = mid) xs of
        Some x \<Rightarrow> Some (Some x)
      | None \<Rightarrow>
          (case b_current_speaker (rm_b r) of
             None \<Rightarrow> Some None
           | Some s \<Rightarrow> Option.bind (rm_heap r s) (\<lambda>m. Some (if m_id m = mid then Some s else None))))"
proof -
  from assms obtain lst where "dll (rm_heap r) None (b_listener_head (rm_b r)) xs lst None" by (auto simp: listener_rep_def)
  from list_find_dll [OF this, of "\<lambda>x m. m_id m = mid"] show ?thesis by (simp add: b_find_member_by_id_def)
qed

lemma bar_split_text:
  assumes "CHR ''|'' \<notin> set ds"
  shows "bar_split (ds @ CHR ''|'' # rest) = (ds, Some rest)"
proof -
  have "takeWhile (\<lambda>c. c \<noteq> CHR ''|'') (ds @ CHR ''|'' # rest) = ds"
    using assms by (subst takeWhile_append2) auto
  moreover have "dropWhile (\<lambda>c. c \<noteq> CHR ''|'') (ds @ CHR ''|'' # rest) = CHR ''|'' # rest"
    using assms by (subst dropWhile_append2) auto
  ultimately show ?thesis by (simp add: bar_split_def)
qed

lemma bar_not_digit: "CHR ''|'' \<notin> set (dec_string n)"
  using dec_string_digits [of n] by (auto simp: list_all_iff is_digit_def)

lemma contents_frame:
  "evq_contents (b\<lparr>b_play_fh := fh\<rparr>) = evq_contents b"
  "evq_contents (b\<lparr>b_play_fh := fh, b_cflags := w\<rparr>) = evq_contents b"
  by (simp_all add: evq_contents_def)

definition common_headers :: "fire_io \<Rightarrow> room \<Rightarrow> evt_msg \<Rightarrow> header list" where
  "common_headers io r msg = b_evt_add_common (fi_now io) (rm_b r) @ [(''Member-ID'', dec_string (unat (ev_member_id msg)))]
     @ (if ev_data msg = [] then [] else [(''Broadcast-Event-Data'', ev_data msg)])"

lemma fire_headers:
  "fi_event_ok io \<Longrightarrow> type_headers io r msg = Some hs \<Longrightarrow>
   b_fire_evt_msg io r msg = Some (Some (b_evt_subclass (ev_type msg), common_headers io r msg @ hs))"
  by (simp add: b_fire_evt_msg_def common_headers_def)

section \<open>Theorems\<close>

text \<open>
  C28. The grace announcement survives its way through the queue. With room in the event ring and a
  file name of at most 249 characters, the event that the teardown queues is fired with the grace
  period, as a decimal that reads back as the number given, and the file name, unchanged.
\<close>

theorem grace_event_roundtrip:
  assumes "copy_string_ok cpy" "evq_inv b" "length (evq_contents b) < evq_cap b" "0 < evq_budget b"
    and "unat grace_ms \<le> 60000" "length file \<le> 249" "fi_event_ok io" "fi_strdup_ok io"
  shows "\<exists>msg hs ms. evq_contents (grace_announce cpy dio grace_ms (Some file) b) = evq_contents b @ [msg]
    \<and> b_fire_evt_msg io r msg = Some (Some (''broadcast::destroy-grace'', hs @ [(''Grace-Ms'', ms), (''Announcement-File'', file)]))
    \<and> atoi ms = int (unat grace_ms)"
proof -
  let ?ms = "dec_string (unat grace_ms)" and ?data = "grace_data grace_ms (Some file)"
  have "length ?ms \<le> 5" using assms(5) by (intro dec_string_length) simp_all
  then have len: "length (?ms @ ''|'' @ file) < 256" using assms(6) by simp
  then have d: "?data = ?ms @ CHR ''|'' # file" by (simp add: grace_data_def)
  have cp: "cpy ?data 256 = ?ms @ CHR ''|'' # file" using copy_string_fits [OF assms(1), of ?data 256] len d by simp
  let ?msg = "evq_mk cpy b (di_now dio, BEVT_DESTROY_GRACE, 0, Some ?data)"
  have m: "ev_type ?msg = BEVT_DESTROY_GRACE" "ev_data ?msg = ?ms @ CHR ''|'' # file"
    using d cp by (simp_all add: evq_mk_def)
  have q: "evq_contents (broadcast_enqueue_event cpy (di_now dio) b BEVT_DESTROY_GRACE 0 (Some ?data)) = evq_contents b @ [?msg]"
    using contents_enqueue_room [OF assms(2,3,4), of cpy "(di_now dio, BEVT_DESTROY_GRACE, 0, Some ?data)"] by (simp add: evq_put_def)
  have c: "evq_contents (grace_announce cpy dio grace_ms (Some file) b) = evq_contents b @ [?msg]"
    using q by (cases "file = []") (simp_all add: grace_announce_def Let_def contents_frame split: option.split)
  have "type_headers io r ?msg = Some [(''Grace-Ms'', ?ms), (''Announcement-File'', file)]"
    using assms(8) m bar_split_text [OF bar_not_digit] by (simp add: type_headers_def split_headers_def add_header_def)
  from fire_headers [OF assms(7) this] m(1) have
    "b_fire_evt_msg io r ?msg = Some (Some (''broadcast::destroy-grace'', common_headers io r ?msg @ [(''Grace-Ms'', ?ms), (''Announcement-File'', file)]))"
    by simp
  with c atoi_dec_string show ?thesis by blast
qed

definition plain_fire :: fire_io where
  "plain_fire = \<lparr>fi_now = 1, fi_event_ok = True, fi_strdup_ok = True, fi_profile = (\<lambda>a. Some (''Ann'', ''100'')), fi_others = id\<rparr>"

theorem grace_event_roundtrip_witness:
  "\<exists>msg hs ms. evq_contents (grace_announce cut_copy quiet_destroy 5000 (Some ''bye.wav'') (zero_broadcast 4)) = evq_contents (zero_broadcast 4) @ [msg]
    \<and> b_fire_evt_msg plain_fire bridged_room msg =
        Some (Some (''broadcast::destroy-grace'', hs @ [(''Grace-Ms'', ms), (''Announcement-File'', ''bye.wav'')]))
    \<and> atoi ms = int (unat (5000 :: u32))"
proof -
  have "evq_cap (zero_broadcast 4) = 3" by (simp add: evq_cap_def zero_broadcast_def)
  then show ?thesis
    by (intro grace_event_roundtrip [OF cut_copy_ok])
       (simp_all add: zero_broadcast_inv zero_broadcast_budget zero_broadcast_contents plain_fire_def)
qed

text \<open>
  The events of a member. When the emitter fires a join, leave or speaker-request event, it looks the
  member up by its id and uses it after it has released the list's lock. A member that is found and
  still there gives the event its uuid, caller profile and tag; one that was freed in between is a use after free; one that
  is no longer on the list, which is every member a leave event is about, gives the event no uuid, caller or tag.
\<close>

theorem member_event_headers:
  assumes "listener_rep r xs" "fi_event_ok io" "ev_type msg \<in> {BEVT_LISTENER_JOIN, BEVT_LISTENER_LEAVE}"
    and "b_current_speaker (rm_b r) = None"
  shows "b_fire_evt_msg io r msg =
    (case find (\<lambda>x. m_id (the (rm_heap r x)) = ev_member_id msg) xs of
       None \<Rightarrow> Some (Some (b_evt_subclass (ev_type msg), common_headers io r msg
                 @ [(''Listener-Count'', dec_string (length xs))]))
     | Some a \<Rightarrow>
         (case rm_heap (fi_others io r) a of
            None \<Rightarrow> None
          | Some m \<Rightarrow> Some (Some (b_evt_subclass (ev_type msg), common_headers io r msg
              @ (if m_session m then add_header ''Member-UUID'' (m_uuid m)
                   @ (case fi_profile io a of None \<Rightarrow> [] | Some (name, num) \<Rightarrow> [(''Caller-ID-Name'', name), (''Caller-ID-Number'', num)])
                   @ add_header ''Tag'' (m_tag m) else [])
              @ [(''Listener-Count'', dec_string (length xs))]))))"
proof -
  have n: "unat (b_listener_count (rm_b r)) = length xs" using assms(1) by (simp add: listener_rep_def)
  let ?f = "find (\<lambda>x. m_id (the (rm_heap r x)) = ev_member_id msg) xs"
  have b: "b_find_member_by_id r (ev_member_id msg) = Some ?f"
    using find_member_rep [OF assms(1), of "ev_member_id msg"] assms(4) by (cases ?f) simp_all
  have th: "type_headers io r msg = Option.bind (member_headers io r ?f) (\<lambda>hs. Some (hs @ [(''Listener-Count'', dec_string (length xs))]))"
    using assms(3) b n by (auto simp: type_headers_def)
  show ?thesis
  proof (cases ?f)
    case None
    then show ?thesis using fire_headers [OF assms(2), of r msg] th by (simp add: member_headers_def)
  next
    case (Some a)
    show ?thesis
    proof (cases "rm_heap (fi_others io r) a")
      case None
      then show ?thesis using Some th assms(2) by (simp add: b_fire_evt_msg_def member_headers_def)
    next
      case (Some m)
      then show ?thesis using \<open>?f = Some a\<close> fire_headers [OF assms(2), of r msg] th by (simp add: member_headers_def)
    qed
  qed
qed

lemma dec_string_one: "dec_string 1 = ''1''"
  by code_simp

theorem member_event_headers_witness:
  "b_fire_evt_msg plain_fire bridged_room (zero_msg\<lparr>ev_type := BEVT_LISTENER_LEAVE, ev_member_id := 5\<rparr>) =
     Some (Some (''broadcast::listener-leave'', common_headers plain_fire bridged_room (zero_msg\<lparr>ev_type := BEVT_LISTENER_LEAVE, ev_member_id := 5\<rparr>)
       @ [(''Listener-Count'', ''1'')]))"
  by (subst member_event_headers [OF bridged_room_rep])
     (simp_all add: plain_fire_def bridged_room_def zero_broadcast_def zero_member_def dec_string_one [simplified])

end
