(* ===== verification/Housekeeping.thy ===== *)
theory Housekeeping
  imports Registry
begin

text \<open>
  The periodic pass of broadcast_core.c over all broadcasts, \<open>broadcast_runtime_housekeeping\<close>, and the runtime
  loop of mod_broadcast.c that calls it: heartbeat events, and the hangup of listeners whose reading position
  has not moved for five seconds.
\<close>

section \<open>Heartbeat\<close>

definition u_text :: "u32 \<Rightarrow> string" where
  "u_text x = dec_string (unat x)"

definition heartbeat_data :: "broadcast_profile \<Rightarrow> u32 \<Rightarrow> broadcast_obj \<Rightarrow> string" where
  "heartbeat_data prof spid b = take 255
     (if p_verbose_events prof then
        ''listeners='' @ u_text (b_listener_count b) @ '' peak='' @ u_text (b_stat_peak_listeners b)
        @ '' speaker_id='' @ u_text spid @ '' ticks='' @ u_text (b_stat_ticks b) @ '' missed='' @ u_text (b_stat_missed_ticks b)
        @ '' drift_max_us='' @ dec_string (unat (b_stat_tick_drift_us_max b)) @ '' resyncs='' @ u_text (b_stat_listener_resyncs b)
        @ '' dropped='' @ u_text (b_stat_events_dropped b)
      else ''listeners='' @ u_text (b_listener_count b) @ '' speaker_id='' @ u_text spid)"

text \<open>
  What one pass at time \<open>now\<close> does about the heartbeat, and whether it queued one. The first pass only
  notes the time.
\<close>

definition heartbeat_step :: "copy_string \<Rightarrow> usec \<Rightarrow> usec \<Rightarrow> room \<Rightarrow> (room \<times> bool) option" where
  "heartbeat_step cpy now evt_now r =
     (let b = rm_b r in
      case b_profile b of
        None \<Rightarrow> Some (r, False)
      | Some prof \<Rightarrow>
          if p_heartbeat_interval_sec prof = 0 then Some (r, False)
          else if b_last_heartbeat_us b = 0 then Some (upd_b (\<lambda>b. b\<lparr>b_last_heartbeat_us := now\<rparr>) r, False)
          else if now - b_last_heartbeat_us b < uint (p_heartbeat_interval_sec prof) * 1000000 then Some (r, False)
          else do {
            spid \<leftarrow> (case b_current_speaker b of None \<Rightarrow> Some 0 | Some s \<Rightarrow> map_option m_id (rm_heap r s));
            let b = b\<lparr>b_last_heartbeat_us := now\<rparr>;
            Some (r\<lparr>rm_b := broadcast_enqueue_event cpy evt_now b BEVT_HEARTBEAT 0 (Some (heartbeat_data prof spid b))\<rparr>, True) })"

section \<open>Wedged listeners\<close>

definition is_wedged :: "usec \<Rightarrow> member_obj \<Rightarrow> bool" where
  "is_wedged now m \<longleftrightarrow> m_role m = BMEMBER_ROLE_LISTENER \<and> has_flag (m_mflags m) MFLAG_RUNNING
     \<and> 0 < m_last_seen_seq_advance m \<and> 5000000 < now - m_last_seen_seq_advance m \<and> \<not> zstr (m_uuid m)"

text \<open>The walk that collects them; \<open>mem n\<close> says whether there was memory for the \<open>n\<close>-th uuid, otherwise it stops there.\<close>

partial_function (option) wedged_walk ::
  "(nat \<Rightarrow> bool) \<Rightarrow> usec \<Rightarrow> nat \<Rightarrow> mheap \<Rightarrow> maddr option \<Rightarrow> (string list \<times> mheap) option" where
  "wedged_walk mem now nu h p =
     (case p of
        None \<Rightarrow> Some ([], h)
      | Some x \<Rightarrow>
          Option.bind (h x) (\<lambda>m.
            if \<not> is_wedged now m then wedged_walk mem now nu h (m_next m)
            else if \<not> mem nu then Some ([], h)
            else Option.bind
              (wedged_walk mem now (Suc nu) (h(x \<mapsto> m\<lparr>m_mflags := set_flag (m_mflags m) MFLAG_KICKED\<rparr>)) (m_next m))
              (\<lambda>(us, h). Some (the (m_uuid m) # us, h))))"

declare wedged_walk.simps [code]

definition wedged_kick :: "(nat \<Rightarrow> bool) \<Rightarrow> (string \<Rightarrow> bool) \<Rightarrow> usec \<Rightarrow> room \<Rightarrow> (room \<times> hangup list) option" where
  "wedged_kick mem locate now r = do {
     (us, h) \<leftarrow> wedged_walk mem now 0 (rm_heap r) (b_listener_head (rm_b r));
     Some (r\<lparr>rm_heap := h\<rparr>, hangup_all locate ''wedge_timeout'' CAUSE_MEDIA_TIMEOUT us) }"

section \<open>The pass and the loop\<close>

definition house_visit :: "copy_string \<Rightarrow> (nat \<Rightarrow> bool) \<Rightarrow> (string \<Rightarrow> bool) \<Rightarrow> usec \<Rightarrow> room \<Rightarrow> (room \<times> hangup list) option" where
  "house_visit cpy mem locate now r =
     (if b_destroyed (rm_b r) then Some (r, [])
      else do { (r, beat) \<leftarrow> heartbeat_step cpy now now r; wedged_kick mem locate now r })"

fun house_pass :: "copy_string \<Rightarrow> (nat \<Rightarrow> bool) \<Rightarrow> (string \<Rightarrow> bool) \<Rightarrow> usec \<Rightarrow> baddr list \<Rightarrow> registry \<Rightarrow> (registry \<times> hangup list) option" where
  "house_pass cpy mem locate now [] reg = Some (reg, [])"
| "house_pass cpy mem locate now (a # as) reg =
     (case rg_store reg a of
        None \<Rightarrow> None
      | Some r \<Rightarrow>
          (case house_visit cpy mem locate now r of
             None \<Rightarrow> None
           | Some (r, hs) \<Rightarrow>
               (case house_pass cpy mem locate now as (reg\<lparr>rg_store := (rg_store reg)(a \<mapsto> r)\<rparr>) of
                  None \<Rightarrow> None
                | Some (reg, hs') \<Rightarrow> Some (reg, hs @ hs'))))"

definition broadcast_runtime_housekeeping ::
  "copy_string \<Rightarrow> (nat \<Rightarrow> bool) \<Rightarrow> (string \<Rightarrow> bool) \<Rightarrow> usec \<Rightarrow> registry \<Rightarrow> (registry \<times> hangup list) option" where
  "broadcast_runtime_housekeeping cpy mem locate now reg =
     house_pass cpy mem locate now (map snd (g_broadcast_hash (rg_g reg))) reg"

text \<open>
  The runtime thread. A round of the trace is what \<open>running\<close> shows at the head of the loop and after the
  slices of sleep (at most fifty of 100 ms, left as soon as it is cleared), and the clock of the pass.
\<close>

type_synonym run_round = "bool \<times> bool \<times> usec"

fun runtime_loop :: "copy_string \<Rightarrow> (nat \<Rightarrow> bool) \<Rightarrow> (string \<Rightarrow> bool) \<Rightarrow> run_round list \<Rightarrow> registry \<Rightarrow> (registry \<times> hangup list) option" where
  "runtime_loop cpy mem locate [] reg = Some (reg, [])"
| "runtime_loop cpy mem locate ((running, still, now) # rounds) reg =
     (if \<not> running \<or> \<not> still then Some (reg\<lparr>rg_g := (rg_g reg)\<lparr>g_runtime_thread_running := False\<rparr>\<rparr>, [])
      else
        (case broadcast_runtime_housekeeping cpy mem locate now reg of
           None \<Rightarrow> None
         | Some (reg, hs) \<Rightarrow>
             (case runtime_loop cpy mem locate rounds reg of
                None \<Rightarrow> None
              | Some (reg, hs') \<Rightarrow> Some (reg, hs @ hs'))))"

definition mod_broadcast_runtime ::
  "copy_string \<Rightarrow> (nat \<Rightarrow> bool) \<Rightarrow> (string \<Rightarrow> bool) \<Rightarrow> run_round list \<Rightarrow> registry \<Rightarrow> (registry \<times> hangup list) option" where
  "mod_broadcast_runtime cpy mem locate rounds reg =
     runtime_loop cpy mem locate rounds (reg\<lparr>rg_g := (rg_g reg)\<lparr>g_runtime_thread_running := True\<rparr>\<rparr>)"

section \<open>Lemmas\<close>

lemma wedged_walk_dll:
  "dll h pr p xs lst None \<Longrightarrow> distinct xs \<Longrightarrow> (\<And>n. mem n) \<Longrightarrow>
   \<exists>h'. wedged_walk mem now nu h p =
       Some (map (\<lambda>x. the (m_uuid (the (h x)))) (filter (\<lambda>x. is_wedged now (the (h x))) xs), h')
     \<and> (\<forall>y. h' y = (if y \<in> set (filter (\<lambda>x. is_wedged now (the (h x))) xs) then map_option kicked (h y) else h y))"
proof (induction xs arbitrary: pr p h nu)
  case Nil
  then show ?case by (subst wedged_walk.simps) simp
next
  case (Cons x xs)
  then obtain m where m: "p = Some x" "h x = Some m" "dll h (Some x) (m_next m) xs lst None" "x \<notin> set xs" "distinct xs"
    by (auto simp: lk_Some)
  show ?case
  proof (cases "is_wedged now m")
    case False
    from Cons.IH [OF m(3,5) Cons.prems(3), of nu] obtain h' where
      "wedged_walk mem now nu h (m_next m) = Some (map (\<lambda>x. the (m_uuid (the (h x)))) (filter (\<lambda>x. is_wedged now (the (h x))) xs), h')"
      "\<forall>y. h' y = (if y \<in> set (filter (\<lambda>x. is_wedged now (the (h x))) xs) then map_option kicked (h y) else h y)" by blast
    with m False show ?thesis by (subst wedged_walk.simps) simp
  next
    case True
    let ?h = "h(x \<mapsto> kicked m)"
    have "dll ?h (Some x) (m_next m) xs lst None = dll h (Some x) (m_next m) xs lst None"
      using m(4) by (intro dll_cong) (auto simp: lk_upd)
    with Cons.IH [of ?h "Some x" "m_next m" "Suc nu"] m(3,5) Cons.prems(3) obtain h' where
      h': "wedged_walk mem now (Suc nu) ?h (m_next m) =
         Some (map (\<lambda>x. the (m_uuid (the (?h x)))) (filter (\<lambda>x. is_wedged now (the (?h x))) xs), h')"
      "\<forall>y. h' y = (if y \<in> set (filter (\<lambda>x. is_wedged now (the (?h x))) xs) then map_option kicked (?h y) else ?h y)" by blast
    have same: "?h y = h y" if "y \<in> set xs" for y using that m(4) by auto
    have fl: "filter (\<lambda>x. is_wedged now (the (?h x))) xs = filter (\<lambda>x. is_wedged now (the (h x))) xs"
      using same by (intro filter_cong) simp_all
    have mp: "map (\<lambda>x. the (m_uuid (the (?h x)))) (filter (\<lambda>x. is_wedged now (the (h x))) xs) =
        map (\<lambda>x. the (m_uuid (the (h x)))) (filter (\<lambda>x. is_wedged now (the (h x))) xs)"
      using same by (intro map_cong) simp_all
    have "wedged_walk mem now nu h p = Some (the (m_uuid m) # map (\<lambda>x. the (m_uuid (the (h x)))) (filter (\<lambda>x. is_wedged now (the (h x))) xs), h')"
      using h'(1) m True Cons.prems(3) unfolding fl mp by (subst wedged_walk.simps) (simp add: kicked_def)
    then have "wedged_walk mem now nu h p =
       Some (map (\<lambda>x. the (m_uuid (the (h x)))) (filter (\<lambda>x. is_wedged now (the (h x))) (x # xs)), h')"
      using m(2) True by simp
    moreover have "\<forall>y. h' y = (if y \<in> set (filter (\<lambda>x. is_wedged now (the (h x))) (x # xs)) then map_option kicked (h y) else h y)"
    proof
      fix y
      show "h' y = (if y \<in> set (filter (\<lambda>x. is_wedged now (the (h x))) (x # xs)) then map_option kicked (h y) else h y)"
        using h'(2) m(2,4) True unfolding fl by auto
    qed
    ultimately show ?thesis by blast
  qed
qed

text \<open>The times of a series of passes at which a heartbeat was queued.\<close>

fun beats :: "copy_string \<Rightarrow> usec list \<Rightarrow> room \<Rightarrow> usec list" where
  "beats cpy [] r = []"
| "beats cpy (now # ts) r =
     (case heartbeat_step cpy now now r of
        None \<Rightarrow> []
      | Some (r, queued) \<Rightarrow> (if queued then [now] else []) @ beats cpy ts r)"

lemma enqueue_heartbeat_field [simp]:
  "b_last_heartbeat_us (broadcast_enqueue_event cpy now b ty mid data) = b_last_heartbeat_us b"
  by (simp add: broadcast_enqueue_event_def Let_def split: option.splits)

lemma heartbeat_cases:
  assumes "heartbeat_step cpy now now' r = Some (r', queued)" "b_profile (rm_b r) = Some prof"
  shows "b_profile (rm_b r') = Some prof"
    "queued \<Longrightarrow> b_last_heartbeat_us (rm_b r) \<noteq> 0 \<and> uint (p_heartbeat_interval_sec prof) * 1000000 \<le> now - b_last_heartbeat_us (rm_b r)
        \<and> b_last_heartbeat_us (rm_b r') = now"
    "\<not> queued \<Longrightarrow> b_last_heartbeat_us (rm_b r') = b_last_heartbeat_us (rm_b r)
        \<or> b_last_heartbeat_us (rm_b r) = 0 \<and> b_last_heartbeat_us (rm_b r') = now"
  using assms by (auto simp: heartbeat_step_def Let_def bind_eq_Some_conv split: if_splits)

lemma beats_after:
  assumes "b_profile (rm_b r) = Some prof" "sorted ts" "\<forall>t \<in> set ts. 0 < t"
    "b_last_heartbeat_us (rm_b r) \<noteq> 0 \<Longrightarrow> last0 = b_last_heartbeat_us (rm_b r)"
    "b_last_heartbeat_us (rm_b r) = 0 \<Longrightarrow> \<forall>t \<in> set ts. last0 \<le> t"
  shows "sorted_wrt (\<lambda>s t. s + uint (p_heartbeat_interval_sec prof) * 1000000 \<le> t) (beats cpy ts r)
    \<and> (\<forall>t \<in> set (beats cpy ts r). last0 + uint (p_heartbeat_interval_sec prof) * 1000000 \<le> t)"
  using assms
proof (induction ts arbitrary: r last0)
  case (Cons now ts)
  let ?iv = "uint (p_heartbeat_interval_sec prof) * 1000000"
  show ?case
  proof (cases "heartbeat_step cpy now now r")
    case (Some p)
    then obtain r' q where s: "heartbeat_step cpy now now r = Some (r', q)" by (cases p) auto
    note h = heartbeat_cases [OF s Cons.prems(1)]
    have ts: "sorted ts" "\<forall>t \<in> set ts. 0 < t" "0 < now" "\<forall>t \<in> set ts. now \<le> t" using Cons.prems(2,3) by auto
    show ?thesis
    proof (cases q)
      case True
      then have b: "b_last_heartbeat_us (rm_b r) \<noteq> 0" "?iv \<le> now - b_last_heartbeat_us (rm_b r)" "b_last_heartbeat_us (rm_b r') = now"
        using h(2) by simp_all
      have "last0 + ?iv \<le> now" using b(1,2) Cons.prems(4) by simp
      moreover have ih: "sorted_wrt (\<lambda>s t. s + ?iv \<le> t) (beats cpy ts r') \<and> (\<forall>t \<in> set (beats cpy ts r'). now + ?iv \<le> t)"
        by (rule Cons.IH [OF h(1) ts(1,2)]) (use b(3) ts(3) in simp_all)
      moreover have "last0 + ?iv \<le> t" if "t \<in> set (beats cpy ts r')" for t
      proof -
        have "0 \<le> ?iv" by simp
        moreover have "now + ?iv \<le> t" using ih that by blast
        ultimately show ?thesis using \<open>last0 + ?iv \<le> now\<close> by linarith
      qed
      moreover have "beats cpy (now # ts) r = now # beats cpy ts r'" using s True by simp
      ultimately show ?thesis by simp
    next
      case False
      have "sorted_wrt (\<lambda>s t. s + ?iv \<le> t) (beats cpy ts r') \<and> (\<forall>t \<in> set (beats cpy ts r'). last0 + ?iv \<le> t)"
      proof (cases "b_last_heartbeat_us (rm_b r) = 0 \<and> b_last_heartbeat_us (rm_b r') = now")
        case True
        then have l: "last0 \<le> now" using Cons.prems(5) by simp
        have "sorted_wrt (\<lambda>s t. s + ?iv \<le> t) (beats cpy ts r') \<and> (\<forall>t \<in> set (beats cpy ts r'). now + ?iv \<le> t)"
          by (rule Cons.IH [OF h(1) ts(1,2)]) (use True ts(3) in simp_all)
        with l show ?thesis by fastforce
      next
        case F: False
        then have same: "b_last_heartbeat_us (rm_b r') = b_last_heartbeat_us (rm_b r)" using h(3) False by blast
        show ?thesis
          by (rule Cons.IH [OF h(1) ts(1,2)]) (use same Cons.prems(4,5) in simp_all)
      qed
      with s False show ?thesis by simp
    qed
  qed simp
qed simp

section \<open>Theorems\<close>

text \<open>
  C30. Wedged listeners. With memory for the uuids, the pass over a well-formed list never leaves it,
  raises MFLAG_KICKED on exactly the running listeners whose position last moved more than five
  seconds ago and that have a uuid, hangs up those of their sessions that the core locates, in list
  order, and leaves the list and every other member as they were.
\<close>

theorem wedged_listeners_kicked:
  assumes "listener_rep r xs" "mem = (\<lambda>n. True)"
    "wedged = filter (\<lambda>a. let m = the (rm_heap r a) in m_role m = BMEMBER_ROLE_LISTENER \<and> m_mflags m AND MFLAG_RUNNING \<noteq> 0
       \<and> 0 < m_last_seen_seq_advance m \<and> m_last_seen_seq_advance m + 5000000 < now \<and> m_uuid m \<noteq> None \<and> m_uuid m \<noteq> Some []) xs"
  shows "\<exists>r'. wedged_kick mem locate now r = Some (r', concat (map (\<lambda>a. b_hangup_listener_session_by_uuid locate
        ''wedge_timeout'' CAUSE_MEDIA_TIMEOUT (m_uuid (the (rm_heap r a)))) wedged))
    \<and> listener_rep r' xs \<and> rm_heap r' = (\<lambda>a. if a \<in> set wedged then map_option kicked (rm_heap r a) else rm_heap r a)"
proof -
  have wd: "wedged = filter (\<lambda>a. is_wedged now (the (rm_heap r a))) xs"
    unfolding assms(3) Let_def by (rule filter_cong [OF refl]) (auto simp: is_wedged_def has_flag_def zstr_def split: option.split)
  from assms(1) obtain lst where d: "dll (rm_heap r) None (b_listener_head (rm_b r)) xs lst None" "distinct xs"
    by (auto simp: listener_rep_def)
  from wedged_walk_dll [OF d, of mem now 0] assms(2) wd obtain h' where
    w: "wedged_walk mem now 0 (rm_heap r) (b_listener_head (rm_b r)) = Some (map (\<lambda>x. the (m_uuid (the (rm_heap r x)))) wedged, h')"
    "\<And>y. h' y = (if y \<in> set wedged then map_option kicked (rm_heap r y) else rm_heap r y)" by auto
  have "map (\<lambda>x. the (m_uuid (the (rm_heap r x)))) wedged = map uuid_text (map (\<lambda>x. the (rm_heap r x)) wedged)"
    using wd by (auto simp: uuid_text_def is_wedged_def split: option.split)
  then have us: "map (\<lambda>x. the (m_uuid (the (rm_heap r x)))) wedged = map uuid_text (map (\<lambda>x. the (rm_heap r x)) wedged)" .
  have "dll h' None (b_listener_head (rm_b r)) xs lst None"
    using d(1) dll_cong [of xs "rm_heap r" h'] kicked_links [OF w(2)] by simp
  with assms(1) d(2) have rep: "listener_rep (r\<lparr>rm_heap := h'\<rparr>) xs" by (auto simp: listener_rep_def)
  have k: "wedged_kick mem locate now r = Some (r\<lparr>rm_heap := h'\<rparr>, concat (map (\<lambda>a. b_hangup_listener_session_by_uuid locate
        ''wedge_timeout'' CAUSE_MEDIA_TIMEOUT (m_uuid (the (rm_heap r a)))) wedged))"
    using w(1) hangup_all_uuids [of locate "''wedge_timeout''" CAUSE_MEDIA_TIMEOUT "map (\<lambda>x. the (rm_heap r x)) wedged"]
    unfolding us by (simp add: wedged_kick_def comp_def)
  have "h' = (\<lambda>a. if a \<in> set wedged then map_option kicked (rm_heap r a) else rm_heap r a)" using w(2) by (rule ext)
  with k rep show ?thesis by simp
qed

definition stalled_room :: room where
  "stalled_room = bridged_room\<lparr>rm_heap := [1 \<mapsto> (zero_member ''aa'')\<lparr>m_mflags := MFLAG_RUNNING, m_last_seen_seq_advance := 100\<rparr>]\<rparr>"

theorem wedged_listeners_kicked_witness:
  "\<exists>r'. wedged_kick (\<lambda>n. True) (\<lambda>u. True) 6000000 stalled_room = Some (r', [(''aa'', ''wedge_timeout'', CAUSE_MEDIA_TIMEOUT)])"
proof -
  have rep: "listener_rep stalled_room [1]"
    by (simp add: listener_rep_def stalled_room_def bridged_room_def zero_broadcast_def zero_profile_def zero_member_def lk_def)
  have h: "rm_heap stalled_room 1 = Some ((zero_member ''aa'')\<lparr>m_mflags := MFLAG_RUNNING, m_last_seen_seq_advance := 100\<rparr>)"
    by (simp add: stalled_room_def)
  have f: "[1] = filter (\<lambda>a. let m = the (rm_heap stalled_room a) in m_role m = BMEMBER_ROLE_LISTENER \<and> m_mflags m AND MFLAG_RUNNING \<noteq> 0
       \<and> 0 < m_last_seen_seq_advance m \<and> m_last_seen_seq_advance m + 5000000 < 6000000 \<and> m_uuid m \<noteq> None \<and> m_uuid m \<noteq> Some []) [1]"
    using h by (simp add: zero_member_def MFLAG_RUNNING_def)
  have g: "b_hangup_listener_session_by_uuid (\<lambda>u. True) ''wedge_timeout'' CAUSE_MEDIA_TIMEOUT (m_uuid (the (rm_heap stalled_room 1)))
      = [(''aa'', ''wedge_timeout'', CAUSE_MEDIA_TIMEOUT)]" using h by (simp add: b_hangup_listener_session_by_uuid_def zero_member_def)
  from wedged_listeners_kicked [OF rep refl f, of "\<lambda>u. True"] show ?thesis unfolding list.map concat.simps g by auto
qed

text \<open>
  Heartbeats keep their distance. Over any series of passes in time order, however irregular,
  two heartbeats of a broadcast are at least \<open>heartbeat_interval_sec\<close> apart, and the first one is at
  least that long after the first pass that saw the new broadcast.
\<close>

theorem heartbeat_spacing:
  assumes "b_profile (rm_b r) = Some prof" "b_last_heartbeat_us (rm_b r) = 0" "sorted (t0 # ts)" "0 < t0"
  shows "sorted_wrt (\<lambda>s t. s + uint (p_heartbeat_interval_sec prof) * 1000000 \<le> t) (beats cpy (t0 # ts) r)
    \<and> (\<forall>t \<in> set (beats cpy (t0 # ts) r). t0 + uint (p_heartbeat_interval_sec prof) * 1000000 \<le> t)"
  by (rule beats_after) (use assms in auto)

theorem heartbeat_spacing_witness:
  "sorted_wrt (\<lambda>s t. s + 60000000 \<le> t) (beats cut_copy [5, 70000000] bridged_room)"
proof -
  have "b_profile (rm_b bridged_room) = Some zero_profile" "b_last_heartbeat_us (rm_b bridged_room) = 0"
    by (simp_all add: bridged_room_def zero_broadcast_def)
  from heartbeat_spacing [OF this, of 5 "[70000000]" cut_copy] show ?thesis by (simp add: zero_profile_def)
qed

end
