(* ===== verification/Room_Tag.thy ===== *)
theory Room_Tag
  imports Event_Fire Housekeeping Listener_Loop
begin

text \<open>
  What every operation inside a room leaves alone: the broadcast's name and its reference count, which only lookup,
  release, creation and teardown change. The lemmas are collected in \<open>preserved\<close>.
\<close>

definition room_tag :: "room \<Rightarrow> string \<times> int" where
  "room_tag r = (b_name (rm_b r), b_live_refs (rm_b r))"

text \<open>Other threads that keep it.\<close>

definition keeps_tag :: "(room \<Rightarrow> room) \<Rightarrow> bool" where
  "keeps_tag f \<longleftrightarrow> (\<forall>r. room_tag (f r) = room_tag r)"

lemma keeps_tagD [simp]: "keeps_tag f \<Longrightarrow> room_tag (f r) = room_tag r"
  by (simp add: keeps_tag_def)

lemma keeps_tag_id [simp]: "keeps_tag (\<lambda>r. r)" "keeps_tag id"
  by (simp_all add: keeps_tag_def)

lemma room_tag_heap [simp]:
  "room_tag (r\<lparr>rm_heap := h\<rparr>) = room_tag r" "room_tag (r\<lparr>rm_served := n\<rparr>) = room_tag r"
  by (simp_all add: room_tag_def)

lemma room_tag_b: "room_tag (r\<lparr>rm_b := b\<rparr>) = (b_name b, b_live_refs b)" "room_tag \<lparr>rm_b = b, rm_heap = h, rm_served = n\<rparr> = (b_name b, b_live_refs b)"
  by (simp_all add: room_tag_def)

section \<open>The list of listeners\<close>

lemma next_id_tag [simp]:
  "b_name (snd (broadcast_member_next_id b)) = b_name b" "b_live_refs (snd (broadcast_member_next_id b)) = b_live_refs b"
  by (simp_all add: broadcast_member_next_id_def Let_def)

lemma next_id_tag': "broadcast_member_next_id b = (i, b') \<Longrightarrow> b_name b' = b_name b \<and> b_live_refs b' = b_live_refs b"
  using next_id_tag [of b] by simp

lemma listener_add_tag [preserved]: "broadcast_listener_add cpy now now' a r = Some (st, r') \<Longrightarrow> room_tag r' = room_tag r"
  by (auto simp: broadcast_listener_add_def Let_def room_tag_def bind_eq_Some_conv dest: next_id_tag' split: if_splits prod.splits)

lemma unlink_node_tag [preserved]: "unlink_node a r = Some r' \<Longrightarrow> room_tag r' = room_tag r"
  by (auto simp: unlink_node_def Let_def room_tag_def bind_eq_Some_conv split: prod.splits)

lemma unlink_promotion_tag [preserved]: "broadcast_listener_unlink_for_promotion a r = Some (st, r') \<Longrightarrow> room_tag r' = room_tag r"
  by (auto simp: broadcast_listener_unlink_for_promotion_def bind_eq_Some_conv split: option.splits dest: unlink_node_tag)

lemma listener_del_tag [preserved]: "broadcast_listener_del cpy now a r = Some (st, r') \<Longrightarrow> room_tag r' = room_tag r"
  by (auto simp: broadcast_listener_del_def Let_def bind_eq_Some_conv room_tag_b split: option.splits if_splits
      dest!: unlink_node_tag) (auto simp: room_tag_def)

section \<open>The speaker\<close>

lemma speaker_install_tag [preserved]: "speaker_install now new r = Some (st, r', old, evs) \<Longrightarrow> room_tag r' = room_tag r"
  by (auto simp: speaker_install_def Let_def room_tag_def bind_eq_Some_conv split: option.splits if_splits)

lemma speaker_publish_tag [preserved]: "speaker_publish io now new r = Some (st, r', old, evs) \<Longrightarrow> room_tag r' = room_tag r"
  by (auto simp: speaker_publish_def Let_def bind_eq_Some_conv split: option.splits if_splits prod.splits dest!: speaker_install_tag)

lemma speaker_retire_tag [preserved]: "speaker_retire old r = Some r' \<Longrightarrow> room_tag r' = room_tag r"
  by (auto simp: speaker_retire_def bind_eq_Some_conv)

lemma set_speaker_tag [preserved]: "broadcast_set_speaker io now new r = Some (st, r', evs) \<Longrightarrow> room_tag r' = room_tag r"
  by (auto simp: broadcast_set_speaker_def bind_eq_Some_conv split: option.splits dest!: speaker_publish_tag speaker_retire_tag)

lemma clear_speaker_tag [preserved]: "broadcast_clear_speaker io now r = Some (st, r', evs) \<Longrightarrow> room_tag r' = room_tag r"
  unfolding broadcast_clear_speaker_def by (rule set_speaker_tag)

lemma clear_if_current_tag [preserved]: "broadcast_clear_speaker_if_current a r = Some r' \<Longrightarrow> room_tag r' = room_tag r"
  by (auto simp: broadcast_clear_speaker_if_current_def bind_eq_Some_conv room_tag_def split: if_splits)

lemma promotion_begin_tag [preserved]: "promotion_begin a r = Some (st, r') \<Longrightarrow> room_tag r' = room_tag r"
  by (auto simp: promotion_begin_def bind_eq_Some_conv split: if_splits dest!: unlink_promotion_tag)

lemma promotion_wait_tag [preserved]:
  "promotion_wait deadline a polls r = Some r' \<Longrightarrow> list_all (\<lambda>(t, f). keeps_tag f) polls \<Longrightarrow> room_tag r' = room_tag r"
proof (induction polls arbitrary: r)
  case (Cons p polls)
  obtain t f where p: "p = (t, f)" by (rule prod.exhaust)
  from Cons.prems p Cons.IH [of "f r"] show ?case by (auto split: option.splits if_splits)
qed simp

lemma promotion_end_tag [preserved]: "promotion_end cpy now now' still a r = Some (st, r') \<Longrightarrow> room_tag r' = room_tag r"
  by (auto simp: promotion_end_def Let_def bind_eq_Some_conv split: if_splits dest!: listener_add_tag)

lemma request_promotion_tag [preserved]:
  "broadcast_request_promotion cpy start now now' polls a r = Some (st, r') \<Longrightarrow> list_all (\<lambda>(t, f). keeps_tag f) polls
   \<Longrightarrow> room_tag r' = room_tag r"
  by (auto simp: broadcast_request_promotion_def bind_eq_Some_conv split: if_splits
      dest!: promotion_begin_tag promotion_wait_tag promotion_end_tag)

section \<open>Digits and loops\<close>

lemma dispatch_tag:
  "b_name (fst (b_listener_dispatch_control cpy has_mod now b m bd)) = b_name b
   \<and> b_live_refs (fst (b_listener_dispatch_control cpy has_mod now b m bd)) = b_live_refs b"
  by (cases "cb_action bd") (simp_all add: b_listener_dispatch_control_def Let_def)

lemma handle_tag:
  "b_name (fst (broadcast_listener_handle_dtmf cpy has_mod now g d b m)) = b_name b
   \<and> b_live_refs (fst (broadcast_listener_handle_dtmf cpy has_mod now g d b m)) = b_live_refs b"
  by (simp add: broadcast_listener_handle_dtmf_def b_listener_match_controls_def dispatch_tag split: option.split)

lemma dtmf_session_tag:
  "dtmf_session cpy has_mod g ds b m = (b', m', calls) \<Longrightarrow> b_name b' = b_name b \<and> b_live_refs b' = b_live_refs b"
proof (induction ds arbitrary: b m b' m' calls)
  case (Cons e ds)
  obtain t d where e: "e = (t, d)" by (rule prod.exhaust)
  obtain b1 m1 c1 where h: "broadcast_listener_handle_dtmf cpy has_mod t g d b m = (b1, m1, c1)" by (metis prod.exhaust)
  obtain b2 m2 c2 where s: "dtmf_session cpy has_mod g ds b1 m1 = (b2, m2, c2)" by (metis prod.exhaust)
  from Cons.IH [OF s] handle_tag [of cpy has_mod t g d b m] Cons.prems e h s show ?case by simp
qed simp

definition keeps_round :: "wait_round \<Rightarrow> bool" where
  "keeps_round w \<longleftrightarrow> keeps_tag (fst w)"

lemma main_wait_loop_tag [preserved]:
  "main_wait_loop cpy has_mod g a rounds r = Some (r', w) \<Longrightarrow> list_all keeps_round rounds \<Longrightarrow> room_tag r' = room_tag r"
proof (induction rounds arbitrary: r)
  case (Cons p rounds)
  obtain f ready ds where p: "p = (f, ready, ds)" by (metis prod.exhaust)
  have f: "room_tag (f r) = room_tag r" using Cons.prems(2) p by (simp add: keeps_round_def)
  obtain m where m: "rm_heap (f r) a = Some m" using Cons.prems(1) p by (auto simp: Let_def split: option.splits)
  obtain b1 m1 c1 where d: "dtmf_session cpy has_mod g ds (rm_b (f r)) m = (b1, m1, c1)" by (metis prod.exhaust)
  have t: "room_tag ((f r)\<lparr>rm_b := b1, rm_heap := (rm_heap (f r))(a \<mapsto> m1)\<rparr>) = room_tag r"
    using dtmf_session_tag [OF d] f by (simp add: room_tag_def)
  from Cons.prems p m d f t Cons.IH [of "(f r)\<lparr>rm_b := b1, rm_heap := (rm_heap (f r))(a \<mapsto> m1)\<rparr>"] show ?case
    by (auto simp: Let_def split: if_splits)
qed simp

lemma main_wait_end_tag [preserved]:
  "main_wait_end io now others a r = Some r' \<Longrightarrow> keeps_tag others \<Longrightarrow> room_tag r' = room_tag r"
  by (auto simp: main_wait_end_def bind_eq_Some_conv split: if_splits dest!: clear_speaker_tag)

lemma main_wait_tag [preserved]:
  "broadcast_speaker_main_wait cpy has_mod g io now rounds others a r = Some (r', w) \<Longrightarrow> list_all keeps_round rounds
   \<Longrightarrow> keeps_tag others \<Longrightarrow> room_tag r' = room_tag r"
  by (auto simp: broadcast_speaker_main_wait_def bind_eq_Some_conv split: if_splits dest!: main_wait_loop_tag main_wait_end_tag)

text \<open>The listener's loop works on the broadcast object itself.\<close>

definition keeps_tick :: "lt_io \<Rightarrow> bool" where
  "keeps_tick io \<longleftrightarrow> (\<forall>b m. b_name (fst (lt_others io (b, m))) = b_name b \<and> b_live_refs (fst (lt_others io (b, m))) = b_live_refs b)"

lemma listener_frame_tag:
  "listener_frame cpy io max_lag b m scratch = Some (b', m', scratch', n, k) \<Longrightarrow> b_name b' = b_name b \<and> b_live_refs b' = b_live_refs b"
  by (auto simp: listener_frame_def listener_resync_def Let_def split: if_splits option.splits)

lemma listener_waited_tag:
  "keeps_tick io \<Longrightarrow> b_name (ls_b (listener_waited io s)) = b_name (ls_b s) \<and> b_live_refs (ls_b (listener_waited io s)) = b_live_refs (ls_b s)"
proof -
  assume a: "keeps_tick io"
  obtain b1 m1 where o': "lt_others io (ls_b s, ls_m s) = (b1, m1)" by (rule prod.exhaust)
  with a have "b_name b1 = b_name (ls_b s) \<and> b_live_refs b1 = b_live_refs (ls_b s)" by (metis keeps_tick_def fst_conv)
  with o' show ?thesis by (simp add: listener_waited_def)
qed

lemma listener_wait_tag:
  "listener_wait io n s = Some s' \<Longrightarrow> keeps_tick io \<Longrightarrow> b_name (ls_b s') = b_name (ls_b s) \<and> b_live_refs (ls_b s') = b_live_refs (ls_b s)"
  using listener_waited_tag [of io s] by (auto simp: listener_wait_def Let_def split: if_splits)

fun end_state :: "loop_end \<Rightarrow> lstate" where
  "end_state (Continue s) = s"
| "end_state (Break s) = s"

lemma listener_tick_tag:
  assumes "listener_tick cpy has_mod g max_lag max_ticks io s = Some e" "keeps_tick io"
  shows "b_name (ls_b (end_state e)) = b_name (ls_b s) \<and> b_live_refs (ls_b (end_state e)) = b_live_refs (ls_b s)"
proof (cases "\<not> has_flag (m_mflags (ls_m s)) MFLAG_RUNNING \<or> \<not> lt_ready io \<or> b_destroyed (ls_b s)")
  case True
  with assms(1) show ?thesis unfolding listener_tick_def by (simp only: if_True option.inject) auto
next
  case False
  note body = assms(1) [unfolded listener_tick_def if_not_P [OF False]]
  show ?thesis
  proof (cases "listener_wait io max_ticks s")
    case None
    with body listener_waited_tag [OF assms(2)] show ?thesis by auto
  next
    case (Some s1)
    obtain b2 m2 c2 where d: "dtmf_session cpy has_mod g (lt_dtmf io) (ls_b s1) (ls_m s1) = (b2, m2, c2)" by (metis prod.exhaust)
    have k: "b_name b2 = b_name (ls_b s) \<and> b_live_refs b2 = b_live_refs (ls_b s)"
      using listener_wait_tag [OF Some assms(2)] dtmf_session_tag [OF d] by simp
    from body Some d k show ?thesis
      by (auto simp: Let_def split: if_splits option.splits prod.splits dest!: listener_frame_tag)
  qed
qed

lemma listener_loop_tag:
  "listener_loop cpy has_mod g max_lag max_ticks ios s = Some e \<Longrightarrow> list_all keeps_tick ios
   \<Longrightarrow> b_name (ls_b (end_state e)) = b_name (ls_b s) \<and> b_live_refs (ls_b (end_state e)) = b_live_refs (ls_b s)"
proof (induction ios arbitrary: s)
  case (Cons io ios)
  then obtain e1 where e1: "listener_tick cpy has_mod g max_lag max_ticks io s = Some e1" by (auto split: option.splits)
  note t = listener_tick_tag [OF e1]
  from Cons.prems e1 t Cons.IH show ?case by (cases e1) auto
qed auto

lemma listener_run_tag:
  assumes "broadcast_listener_run cpy has_mod g timer soft scratch ios b m = Some e" "list_all keeps_tick ios"
  shows "b_name (ls_b (end_state e)) = b_name b \<and> b_live_refs (ls_b (end_state e)) = b_live_refs b"
  using assms(1) listener_loop_tag [OF _ assms(2)]
  by (auto simp: broadcast_listener_run_def Let_def listener_leave_def split: if_splits option.splits loop_end.splits) fastforce+

section \<open>Kicks and recordings\<close>

lemma kick_listener_tag [preserved]: "broadcast_kick_listener cpy now locate reason a r = Some (r', hs, c) \<Longrightarrow> room_tag r' = room_tag r"
  by (auto simp: broadcast_kick_listener_def Let_def bind_eq_Some_conv room_tag_def split: if_splits)

lemma kick_walk_tag:
  "kick_walk ev n p h b = Some (us, h', b') \<Longrightarrow> (\<And>mid b. b_name (ev mid b) = b_name b \<and> b_live_refs (ev mid b) = b_live_refs b)
   \<Longrightarrow> b_name b' = b_name b \<and> b_live_refs b' = b_live_refs b"
proof (induction n arbitrary: p h b us)
  case (Suc n)
  show ?case
  proof (cases p)
    case (Some x)
    with Suc.prems(1) obtain m us1 where "h x = Some m" "kick_walk ev n (m_next m)
        (h(x \<mapsto> m\<lparr>m_mflags := set_flag (m_mflags m) MFLAG_KICKED\<rparr>)) (ev (m_id m) b) = Some (us1, h', b')"
      by (auto split: option.splits)
    from Suc.IH [OF this(2) Suc.prems(2)] Suc.prems(2) show ?thesis by simp
  qed (use Suc.prems in simp)
qed simp

lemma kick_all_tag [preserved]: "broadcast_kick_all_listeners cpy now locate malloc_ok r = Some (r', hs) \<Longrightarrow> room_tag r' = room_tag r"
  by (auto simp: broadcast_kick_all_listeners_def kick_snapshot_def bind_eq_Some_conv room_tag_def
      dest!: kick_walk_tag [where ev = "\<lambda>mid b. broadcast_enqueue_event cpy now b BEVT_LISTENER_KICKED mid None"])

lemma record_start_tag:
  "broadcast_record_start cpy now expand pool_ok fopen thread_ok b target = (st, b') \<Longrightarrow> b_name b' = b_name b \<and> b_live_refs b' = b_live_refs b"
  by (cases rule: record_start_cases [of cpy now expand pool_ok fopen thread_ok b target]) auto

lemma record_stop_tag:
  "broadcast_record_stop cpy now b None = (st, b', stopped) \<Longrightarrow> b_name b' = b_name b \<and> b_live_refs b' = b_live_refs b"
  using record_stop_all_fields(1,7) [of cpy now b] by (simp add: broadcast_record_stop_all_def)

end
