(* ===== verification/App.thy ===== *)
theory App
  imports Room_Tag "HOL-Library.Signed_Division"
begin

text \<open>
  mod_broadcast.c: the dialplan application, from its argument string to the release of its reference, the
  channel variables it leaves, and the load and shutdown of the module.
\<close>

section \<open>The argument string\<close>

text \<open>\<open>b_copy_seg\<close> into a buffer of \<open>dlen\<close> bytes.\<close>

definition b_copy_seg :: "nat \<Rightarrow> string \<Rightarrow> string" where
  "b_copy_seg dlen seg = (if dlen \<le> length seg then take (dlen - 1) seg else seg)"

definition before :: "char \<Rightarrow> string \<Rightarrow> string" where
  "before c s = takeWhile (\<lambda>d. d \<noteq> c) s"

definition after :: "char \<Rightarrow> string \<Rightarrow> string" where
  "after c s = tl (dropWhile (\<lambda>d. d \<noteq> c) s)"

text \<open>\<open>name[@profile][+params]\<close>; an at sign behind the first plus belongs to the parameters.\<close>

definition b_parse_app_data :: "copy_string \<Rightarrow> nat \<Rightarrow> nat \<Rightarrow> nat \<Rightarrow> string option \<Rightarrow> string \<times> string \<times> string" where
  "b_parse_app_data cpy nlen plen prlen data =
     (if zstr data then ([], [], [])
      else
        let p = the data; at = CHR ''@'' \<in> set p; plus = CHR ''+'' \<in> set p in
        if at \<and> (\<not> plus \<or> length (before (CHR ''@'') p) < length (before (CHR ''+'') p)) then
          if plus then
            (b_copy_seg nlen (before (CHR ''@'') p), b_copy_seg plen (before (CHR ''+'') (after (CHR ''@'') p)),
             cpy (after (CHR ''+'') p) prlen)
          else (b_copy_seg nlen (before (CHR ''@'') p), cpy (after (CHR ''@'') p) plen, [])
        else if plus then (b_copy_seg nlen (before (CHR ''+'') p), [], cpy (after (CHR ''+'') p) prlen)
        else (cpy p nlen, [], []))"

text \<open>
  \<open>b_param_get\<close>: \<open>sep s c n\<close> is the core's \<open>switch_separate_string\<close>, the at most \<open>n\<close> parts of \<open>s\<close>
  between the delimiters \<open>c\<close>. A part without an equals sign is skipped.
\<close>

type_synonym separate = "string \<Rightarrow> char \<Rightarrow> nat \<Rightarrow> string list"

fun param_scan :: "copy_string \<Rightarrow> string \<Rightarrow> nat \<Rightarrow> string list \<Rightarrow> string option" where
  "param_scan cpy key olen [] = None"
| "param_scan cpy key olen (arg # args) =
     (if CHR ''='' \<notin> set arg then param_scan cpy key olen args
      else if strcaseeq (before (CHR ''='') arg) key then Some (cpy (after (CHR ''='') arg) olen)
      else param_scan cpy key olen args)"

definition b_param_get :: "copy_string \<Rightarrow> separate \<Rightarrow> string \<Rightarrow> string \<Rightarrow> nat \<Rightarrow> string option" where
  "b_param_get cpy sep params key olen =
     (if params = [] \<or> key = [] then None else param_scan cpy key olen (sep (cpy params 1024) (CHR '','') 31))"

section \<open>Channel variables at the end\<close>

type_synonym chan_vars = "string \<Rightarrow> string option"

definition left_reason :: "broadcast_obj \<Rightarrow> member_obj \<Rightarrow> string" where
  "left_reason b m =
     (if b_destroyed b then ''destroyed'' else if has_flag (m_mflags m) MFLAG_KICKED then ''kicked'' else ''hangup'')"

definition kicked_by :: "string \<Rightarrow> string" where
  "kicked_by reason =
     (if reason = ''kicked'' then ''admin'' else if reason = ''wedge_timeout'' then ''wedged''
      else if reason = ''destroyed'' then ''destroy'' else [])"

definition ended_by_self :: "string \<Rightarrow> string" where
  "ended_by_self reason =
     (if reason = ''hangup'' \<or> reason = ''self-leave'' \<or> reason = ''self-hangup'' then ''true'' else ''false'')"

definition broadcast_member_set_exit_variables ::
  "usec \<Rightarrow> usec \<Rightarrow> broadcast_obj \<Rightarrow> member_obj \<Rightarrow> usec \<Rightarrow> chan_vars \<Rightarrow> chan_vars" where
  "broadcast_member_set_exit_variables now now' b m join_us vars0 =
     (let vars = vars0(''broadcast_total_duration_ms'' \<mapsto> take 63 (dec_time ((now - join_us) sdiv 1000)));
          vars = (if 0 < m_speaker_since_us m
                  then vars(''broadcast_was_speaker_for_ms'' \<mapsto> take 63 (dec_time ((now' - m_speaker_since_us m) sdiv 1000)))
                  else vars);
          reason = (if zstr (vars0 ''broadcast_left_reason'') then left_reason b m else the (vars0 ''broadcast_left_reason''));
          vars = (if zstr (vars0 ''broadcast_left_reason'') then vars(''broadcast_left_reason'' \<mapsto> reason) else vars);
          vars = (if zstr (vars0 ''broadcast_kicked_by'') then vars(''broadcast_kicked_by'' \<mapsto> kicked_by reason) else vars);
          vars = (if zstr (vars0 ''broadcast_ended_by_self'') then vars(''broadcast_ended_by_self'' \<mapsto> ended_by_self reason) else vars)
      in vars(''broadcast_final_role'' \<mapsto> (if m_role m = BMEMBER_ROLE_SPEAKER then ''speaker'' else ''listener'')))"

section \<open>The application\<close>

text \<open>What the argument string asks for.\<close>

record app_request =
  aq_name :: string
  aq_profile :: string
  aq_role :: bmember_role
  aq_ghost :: bool
  aq_exclusive :: bool
  aq_tag :: string
  aq_display :: string

definition flag_param :: "(string \<Rightarrow> bool) \<Rightarrow> string option \<Rightarrow> bool" where
  "flag_param strue v = (case v of None \<Rightarrow> False | Some s \<Rightarrow> strue s)"

definition app_parse :: "copy_string \<Rightarrow> separate \<Rightarrow> (string \<Rightarrow> bool) \<Rightarrow> string option \<Rightarrow> app_request option" where
  "app_parse cpy sep strue data =
     (if zstr data then None
      else
        (case b_parse_app_data cpy 256 128 1024 data of (nm, prof, prm) \<Rightarrow>
           if nm = [] then None
           else Some
             \<lparr>aq_name = nm, aq_profile = prof,
              aq_role = (case b_param_get cpy sep prm ''role'' 32 of
                           None \<Rightarrow> BMEMBER_ROLE_LISTENER
                         | Some s \<Rightarrow> if strcaseeq s ''speaker'' then BMEMBER_ROLE_SPEAKER else BMEMBER_ROLE_LISTENER),
              aq_ghost = flag_param strue (b_param_get cpy sep prm ''ghost'' 8),
              aq_exclusive = flag_param strue (b_param_get cpy sep prm ''exclusive'' 8),
              aq_tag = (case b_param_get cpy sep prm ''tag'' 256 of None \<Rightarrow> [] | Some s \<Rightarrow> s),
              aq_display = (case b_param_get cpy sep prm ''display_name'' 256 of None \<Rightarrow> [] | Some s \<Rightarrow> s)\<rparr>))"

text \<open>Finding or creating the broadcast: busy when it exists and the join is exclusive.\<close>

datatype attach = AttachBusy registry | AttachFailed registry | Attached baddr registry

definition app_attach :: "copy_string \<Rightarrow> create_io \<Rightarrow> app_request \<Rightarrow> registry \<Rightarrow> attach option" where
  "app_attach cpy cio q reg = do {
     (found, reg) \<leftarrow> broadcast_find_and_ref (Some (aq_name q)) reg;
     (case found of
        Some a \<Rightarrow>
          if aq_exclusive q then do { reg \<leftarrow> broadcast_release (Some a) reg; Some (AttachBusy reg) }
          else Some (Attached a reg)
      | None \<Rightarrow> do {
          (created, reg) \<leftarrow> broadcast_create cpy cio (Some (aq_name q))
             (if aq_profile q \<noteq> [] then Some (aq_profile q) else g_default_profile_name (rg_g reg)) reg;
          (case created of None \<Rightarrow> Some (AttachFailed reg) | Some a \<Rightarrow> Some (Attached a reg)) }) }"

text \<open>A member object in zeroed memory, with the session's fields and the request's.\<close>

definition app_member :: "app_request \<Rightarrow> string \<Rightarrow> member_obj" where
  "app_member q uuid =
     (zero_member uuid)\<lparr>m_write_codec := False, m_energy_threshold := 0,
        m_tag := (if aq_tag q \<noteq> [] then Some (aq_tag q) else None),
        m_display_name := (if aq_display q \<noteq> [] then Some (aq_display q) else None),
        m_mflags := (if aq_ghost q then set_flag 0 MFLAG_GHOST else 0)\<rparr>"

definition join_vars :: "usec \<Rightarrow> bmember_role \<Rightarrow> broadcast_obj \<Rightarrow> chan_vars \<Rightarrow> chan_vars" where
  "join_vars join_us role b vars =
     vars(''broadcast_name'' \<mapsto> b_name b, ''broadcast_uuid'' \<mapsto> b_uuid_str b,
          ''broadcast_role'' \<mapsto> (if role = BMEMBER_ROLE_SPEAKER then ''speaker'' else ''listener''),
          ''broadcast_join_time'' \<mapsto> take 63 (dec_time (join_us sdiv 1000000)),
          ''broadcast_profile'' \<mapsto> (case b_profile b of Some p \<Rightarrow> p_name p | None \<Rightarrow> []))"

text \<open>
  The environment of one call: the services of the core, the clocks, the trace of the loop the member
  runs in, and what happens meanwhile to the other objects of the room and to the channel's variables, which
  other threads and the member's own digits set.
\<close>

record app_io =
  ai_prep :: prep_io
  ai_join_us :: usec
  ai_now :: usec
  ai_timer :: switch_status
  ai_soft :: switch_status
  ai_scratch :: "u8 list"
  ai_ticks :: "lt_io list"
  ai_listen_others :: "room \<Rightarrow> room"
  ai_rounds :: "wait_round list"
  ai_wait_others :: "room \<Rightarrow> room"
  ai_vars_others :: "chan_vars \<Rightarrow> chan_vars"

text \<open>
  How a segment ends: at an early return, with whether the channel was hung up as busy; at the end of the
  application's body; or it is still in its loop.
\<close>

datatype app_seg = Early room chan_vars bool | Done room chan_vars | SegBlocked

definition upd_m :: "maddr \<Rightarrow> (member_obj \<Rightarrow> member_obj) \<Rightarrow> room \<Rightarrow> room option" where
  "upd_m a f r = do { m \<leftarrow> rm_heap r a; Some (r\<lparr>rm_heap := (rm_heap r)(a \<mapsto> f m)\<rparr>) }"

text \<open>The speaker's wait and what follows it, shared by both ways to become the speaker.\<close>

definition app_speak ::
  "copy_string \<Rightarrow> (string \<Rightarrow> bool) \<Rightarrow> broadcast_globals \<Rightarrow> app_io \<Rightarrow> maddr \<Rightarrow> room \<Rightarrow> (room \<times> bool) option" where
  "app_speak cpy has_mod g io a r =
     broadcast_speaker_main_wait cpy has_mod g (ai_prep io) (ai_now io) (ai_rounds io) (ai_wait_others io) a r"

definition app_end_run :: "app_io \<Rightarrow> maddr \<Rightarrow> chan_vars \<Rightarrow> room \<Rightarrow> app_seg option" where
  "app_end_run io a vars r = do {
     r \<leftarrow> upd_m a (\<lambda>m. m\<lparr>m_mflags := clr_flag (m_mflags m) MFLAG_RUNNING\<rparr>) r;
     m \<leftarrow> rm_heap r a;
     Some (Done r (broadcast_member_set_exit_variables (ai_now io) (ai_now io) (rm_b r) m (ai_join_us io) (ai_vars_others io vars))) }"

definition app_speaker ::
  "copy_string \<Rightarrow> (string \<Rightarrow> bool) \<Rightarrow> broadcast_globals \<Rightarrow> app_io \<Rightarrow> maddr \<Rightarrow> chan_vars \<Rightarrow> room \<Rightarrow> app_seg option" where
  "app_speaker cpy has_mod g io a vars r =
     (let b = rm_b r in
      if (case b_current_speaker b of None \<Rightarrow> False | Some s \<Rightarrow> s \<noteq> a)
         \<and> (case b_profile b of None \<Rightarrow> False | Some p \<Rightarrow> \<not> p_speaker_override p)
      then Some (Early r vars True)
      else
        (case broadcast_member_next_id b of (mid, b) \<Rightarrow> do {
           r \<leftarrow> upd_m a (\<lambda>m. m\<lparr>m_id := mid, m_mflags := set_flag (m_mflags m) MFLAG_RUNNING\<rparr>) (r\<lparr>rm_b := b\<rparr>);
           let vars = vars(''broadcast_member_id'' \<mapsto> u_text mid);
           (st, r, evs) \<leftarrow> broadcast_set_speaker (ai_prep io) (ai_now io) (Some a) r;
           (if st \<noteq> ST_SUCCESS then Some (Early r vars False)
            else do {
              (r, waiting) \<leftarrow> app_speak cpy has_mod g io a r;
              (if waiting then Some SegBlocked else app_end_run io a vars r) }) }))"

text \<open>\<open>broadcast_listener_run\<close> on the room: the member and the broadcast as its loop leaves them, the other objects as the others do.\<close>

definition app_listen ::
  "copy_string \<Rightarrow> (string \<Rightarrow> bool) \<Rightarrow> broadcast_globals \<Rightarrow> app_io \<Rightarrow> maddr \<Rightarrow> room \<Rightarrow> room option option" where
  "app_listen cpy has_mod g io a r = do {
     m \<leftarrow> rm_heap r a;
     e \<leftarrow> broadcast_listener_run cpy has_mod g (ai_timer io) (ai_soft io) (ai_scratch io) (ai_ticks io) (rm_b r) m;
     (case e of
        Continue s \<Rightarrow> Some None
      | Break s \<Rightarrow> (let r = ai_listen_others io r in Some (Some (r\<lparr>rm_b := ls_b s, rm_heap := (rm_heap r)(a \<mapsto> ls_m s)\<rparr>)))) }"

definition app_promoted ::
  "copy_string \<Rightarrow> (string \<Rightarrow> bool) \<Rightarrow> broadcast_globals \<Rightarrow> app_io \<Rightarrow> maddr \<Rightarrow> chan_vars \<Rightarrow> room \<Rightarrow> app_seg option" where
  "app_promoted cpy has_mod g io a vars r = do {
     r \<leftarrow> upd_m a (\<lambda>m. m\<lparr>m_mflags := set_flag (clr_flag (m_mflags m) MFLAG_ROLE_TRANSITION_TO_SPEAKER) MFLAG_RUNNING\<rparr>) r;
     let vars = vars(''broadcast_role'' \<mapsto> ''speaker'');
     (st, r, evs) \<leftarrow> broadcast_set_speaker (ai_prep io) (ai_now io) (Some a) r;
     (r, waiting) \<leftarrow> (if st = ST_SUCCESS then app_speak cpy has_mod g io a r else Some (r, False));
     (if waiting then Some SegBlocked else app_end_run io a vars r) }"

definition app_leave_list ::
  "copy_string \<Rightarrow> app_io \<Rightarrow> maddr \<Rightarrow> chan_vars \<Rightarrow> room \<Rightarrow> app_seg option" where
  "app_leave_list cpy io a vars r = do {
     m \<leftarrow> rm_heap r a;
     let vars = vars(''broadcast_resync_count'' \<mapsto> u_text (m_resync_count m));
     let vars = broadcast_member_set_exit_variables (ai_now io) (ai_now io) (rm_b r) m (ai_join_us io) (ai_vars_others io vars);
     (st, r) \<leftarrow> broadcast_listener_del cpy (ai_now io) a r;
     Some (Done r vars) }"

definition app_listener ::
  "copy_string \<Rightarrow> (string \<Rightarrow> bool) \<Rightarrow> broadcast_globals \<Rightarrow> app_io \<Rightarrow> maddr \<Rightarrow> chan_vars \<Rightarrow> room \<Rightarrow> app_seg option" where
  "app_listener cpy has_mod g io a vars r = do {
     (st, r) \<leftarrow> broadcast_listener_add cpy (ai_now io) (ai_now io) a r;
     (if st \<noteq> ST_SUCCESS then Some (Early r (vars(''broadcast_left_reason'' \<mapsto> ''error'')) True)
      else do {
        m \<leftarrow> rm_heap r a;
        let vars = vars(''broadcast_member_id'' \<mapsto> u_text (m_id m));
        left \<leftarrow> app_listen cpy has_mod g io a r;
        (case left of
           None \<Rightarrow> Some SegBlocked
         | Some r \<Rightarrow> do {
             m \<leftarrow> rm_heap r a;
             (if has_flag (m_mflags m) MFLAG_ROLE_TRANSITION_TO_SPEAKER then app_promoted cpy has_mod g io a vars r
              else app_leave_list cpy io a vars r) }) }) }"

text \<open>The last calls: an early return leaves the speaker slot alone; then the codecs.\<close>

definition app_close :: "bool \<Rightarrow> maddr \<Rightarrow> room \<Rightarrow> room option" where
  "app_close early a r = do {
     r \<leftarrow> (if early then Some r else broadcast_clear_speaker_if_current a r);
     upd_m a broadcast_member_cleanup_codecs r }"

text \<open>How a call ends: with the table, the variables and whether the channel was hung up as busy; or not yet.\<close>

datatype app_result = Returned registry chan_vars bool | Blocked

text \<open>
  A broadcast's room as a call works on it, with the module's counter of listeners served, and the
  table with the room and the counter put back.
\<close>

definition fetch_room :: "baddr \<Rightarrow> registry \<Rightarrow> room option" where
  "fetch_room ba reg = map_option (\<lambda>r. r\<lparr>rm_served := g_total_listeners_served (rg_g reg)\<rparr>) (rg_store reg ba)"

definition store_room :: "baddr \<Rightarrow> room \<Rightarrow> registry \<Rightarrow> registry" where
  "store_room ba r reg =
     reg\<lparr>rg_g := (rg_g reg)\<lparr>g_total_listeners_served := rm_served r\<rparr>, rg_store := (rg_store reg)(ba \<mapsto> r)\<rparr>"

definition app_run ::
  "copy_string \<Rightarrow> (string \<Rightarrow> bool) \<Rightarrow> app_io \<Rightarrow> app_request \<Rightarrow> string \<Rightarrow> maddr \<Rightarrow> baddr \<Rightarrow> chan_vars \<Rightarrow> registry \<Rightarrow> app_result option" where
  "app_run cpy has_mod io q uuid a ba vars reg = do {
     r \<leftarrow> fetch_room ba reg;
     (case broadcast_member_prepare (ai_prep io) (aq_role q) (app_member q uuid) of (st, m) \<Rightarrow>
        let r = r\<lparr>rm_heap := (rm_heap r)(a \<mapsto> m)\<rparr> in
        if st \<noteq> ST_SUCCESS then do { reg \<leftarrow> broadcast_release (Some ba) (store_room ba r reg); Some (Returned reg vars False) }
        else do {
          let vars = join_vars (ai_join_us io) (aq_role q) (rm_b r) vars;
          seg \<leftarrow> (if aq_role q = BMEMBER_ROLE_SPEAKER then app_speaker cpy has_mod (rg_g reg) io a vars r
                  else app_listener cpy has_mod (rg_g reg) io a vars r);
          (case seg of
             SegBlocked \<Rightarrow> Some Blocked
           | Early r vars busy \<Rightarrow> do {
               r \<leftarrow> app_close True a r;
               reg \<leftarrow> broadcast_release (Some ba) (store_room ba r reg);
               Some (Returned reg vars busy) }
           | Done r vars \<Rightarrow> do {
               r \<leftarrow> app_close False a r;
               reg \<leftarrow> broadcast_release (Some ba) (store_room ba r reg);
               Some (Returned reg vars False) }) }) }"

definition broadcast_app_function ::
  "copy_string \<Rightarrow> separate \<Rightarrow> (string \<Rightarrow> bool) \<Rightarrow> (string \<Rightarrow> bool) \<Rightarrow> create_io \<Rightarrow> app_io \<Rightarrow> string \<Rightarrow> maddr \<Rightarrow> string option
    \<Rightarrow> chan_vars \<Rightarrow> registry \<Rightarrow> app_result option" where
  "broadcast_app_function cpy sep strue has_mod cio io uuid a data vars reg =
     (case app_parse cpy sep strue data of
        None \<Rightarrow> Some (Returned reg vars False)
      | Some q \<Rightarrow> do {
          at \<leftarrow> app_attach cpy cio q reg;
          (case at of
             AttachBusy reg \<Rightarrow> Some (Returned reg vars True)
           | AttachFailed reg \<Rightarrow> Some (Returned reg vars False)
           | Attached ba reg \<Rightarrow> app_run cpy has_mod io q uuid a ba vars reg) })"

section \<open>Module load and shutdown\<close>

definition mod_broadcast_load ::
  "copy_string \<Rightarrow> (string \<Rightarrow> bool) \<Rightarrow> usec \<Rightarrow> bool \<Rightarrow> xcfg option \<Rightarrow> switch_status \<Rightarrow> switch_status \<times> broadcast_globals \<times> string list" where
  "mod_broadcast_load cpy strue now pool_ok doc thread =
     (let g = initial_globals\<lparr>g_running := True, g_module_load_us := now\<rparr> in
      if \<not> pool_ok then (ST_GENERR, g, [])
      else
        (case broadcast_config_load cpy strue doc (g\<lparr>g_config_pool := True\<rparr>) of (st, g) \<Rightarrow>
           if st \<noteq> ST_SUCCESS then (ST_GENERR, g\<lparr>g_config_pool := False\<rparr>, [])
           else
             (case broadcast_event_emitter_start thread g of (st, g) \<Rightarrow>
                if st \<noteq> ST_SUCCESS then (ST_GENERR, g, broadcast_event_reserve_all)
                else (ST_SUCCESS, g, broadcast_event_reserve_all))))"

text \<open>
  Shutdown: \<open>running\<close> is cleared, the runtime thread is waited for, the emitter is joined, every broadcast
  destroyed, the configuration given back, and at last the two locks and the table themselves. \<open>polls\<close> is what
  \<open>runtime_thread_running\<close> shows at each check of the wait, which gives up after 500 yields of 20 ms: the result is
  the number of yields and whether the thread was seen to be gone, or nothing while it still waits.
\<close>

definition runtime_wait :: "bool list \<Rightarrow> (nat \<times> bool) option" where
  "runtime_wait polls =
     (let n = length (takeWhile (\<lambda>p. p) polls) in
      if 500 < n then Some (500, False) else if n < length polls then Some (n, True) else None)"

datatype module_resource = ConfigRwlock | BroadcastHash | HashRwlock

record unloaded =
  ul_reg :: registry
  ul_yields :: nat
  ul_runtime_gone :: bool
  ul_events :: "string list"
  ul_released :: "module_resource list"

definition mod_broadcast_shutdown :: "copy_string \<Rightarrow> bool list \<Rightarrow> destroy_io list \<Rightarrow> registry \<Rightarrow> unloaded option" where
  "mod_broadcast_shutdown cpy polls ios reg = do {
     let reg = reg\<lparr>rg_g := (rg_g reg)\<lparr>g_running := False\<rparr>\<rparr>;
     (yields, gone) \<leftarrow> runtime_wait polls;
     reg \<leftarrow> broadcast_destroy_all cpy ios (reg\<lparr>rg_g := broadcast_event_emitter_stop (rg_g reg)\<rparr>);
     Some \<lparr>ul_reg = reg\<lparr>rg_g := broadcast_config_unload (rg_g reg)\<rparr>, ul_yields = yields, ul_runtime_gone = gone,
       ul_events = broadcast_event_free_all, ul_released = [ConfigRwlock, BroadcastHash, HashRwlock]\<rparr> }"

section \<open>Lemmas on the argument string\<close>

lemma before_text: "c \<notin> set s \<Longrightarrow> before c (s @ c # rest) = s"
  unfolding before_def by (subst takeWhile_append2) auto

lemma after_text: "c \<notin> set s \<Longrightarrow> after c (s @ c # rest) = rest"
  unfolding after_def by (subst dropWhile_append2) auto

lemma before_all: "c \<notin> set s \<Longrightarrow> before c s = s"
  unfolding before_def by (subst takeWhile_eq_all_conv) auto

lemma copy_seg_fits: "length s < n \<Longrightarrow> b_copy_seg n s = s"
  by (simp add: b_copy_seg_def)

lemma copy_seg_bound: "0 < n \<Longrightarrow> length (b_copy_seg n s) < n"
  by (auto simp: b_copy_seg_def)

text \<open>The argument string of a name, an optional profile and optional parameters.\<close>

definition app_data :: "string \<Rightarrow> string option \<Rightarrow> string option \<Rightarrow> string" where
  "app_data nm prof params =
     nm @ (case prof of None \<Rightarrow> [] | Some p \<Rightarrow> CHR ''@'' # p) @ (case params of None \<Rightarrow> [] | Some q \<Rightarrow> CHR ''+'' # q)"

definition opt_text :: "string option \<Rightarrow> string" where
  "opt_text v = (case v of None \<Rightarrow> [] | Some s \<Rightarrow> s)"

definition param_args :: "(string \<times> string) list \<Rightarrow> string list" where
  "param_args kvs = map (\<lambda>(k, v). k @ CHR ''='' # v) kvs"

lemma param_scan_args:
  "list_all (\<lambda>(k, v). CHR ''='' \<notin> set k) kvs \<Longrightarrow>
   param_scan cpy key olen (param_args kvs) = map_option (\<lambda>(k, v). cpy v olen) (find (\<lambda>(k, v). strcaseeq k key) kvs)"
proof (induction kvs)
  case (Cons kv kvs)
  obtain k v where "kv = (k, v)" by (rule prod.exhaust)
  with Cons show ?case by (auto simp: param_args_def before_text after_text)
qed (simp add: param_args_def)

text \<open>
  The contract of the core's splitter that the parameters rely on: up to \<open>n\<close> plain parts (without the delimiter, blanks,
  quotes and backslashes), joined by the delimiter, are given back.
\<close>

definition plain_part :: "char \<Rightarrow> string \<Rightarrow> bool" where
  "plain_part c s \<longleftrightarrow> s \<noteq> [] \<and> list_all (\<lambda>d. d \<noteq> c \<and> d \<noteq> CHR '' '' \<and> d \<noteq> CHR 0x27 \<and> d \<noteq> CHR 0x22 \<and> d \<noteq> CHR 0x5C) s"

fun join_with :: "char \<Rightarrow> string list \<Rightarrow> string" where
  "join_with c [] = []"
| "join_with c [s] = s"
| "join_with c (s # t # ss) = s @ c # join_with c (t # ss)"

definition separate_ok :: "separate \<Rightarrow> bool" where
  "separate_ok sep \<longleftrightarrow> (\<forall>c n parts. length parts \<le> n \<and> list_all (plain_part c) parts \<and> parts \<noteq> [] \<longrightarrow> sep (join_with c parts) c n = parts)"

text \<open>A splitter that cuts at each delimiter meets it.\<close>

fun cut_all :: "char \<Rightarrow> string \<Rightarrow> string \<Rightarrow> string list" where
  "cut_all c acc [] = [acc]"
| "cut_all c acc (d # s) = (if d = c then acc # cut_all c [] s else cut_all c (acc @ [d]) s)"

definition cut_sep :: separate where
  "cut_sep s c n = take n (cut_all c [] s)"

lemma cut_all_part: "c \<notin> set s \<Longrightarrow> cut_all c acc (s @ rest) = cut_all c (acc @ s) rest"
  by (induction s arbitrary: acc) auto

lemma cut_all_join: "list_all (plain_part c) parts \<Longrightarrow> parts \<noteq> [] \<Longrightarrow> cut_all c [] (join_with c parts) = parts"
proof (induction c parts rule: join_with.induct)
  case (2 c s)
  then have "c \<notin> set s" by (auto simp: plain_part_def list_all_iff)
  from cut_all_part [OF this, of "[]" "[]"] show ?case by simp
next
  case (3 c s t ss)
  then have "c \<notin> set s" by (auto simp: plain_part_def list_all_iff)
  from cut_all_part [OF this, of "[]" "c # join_with c (t # ss)"] 3 show ?case by simp
qed simp

lemma cut_sep_ok: "separate_ok cut_sep"
  by (simp add: separate_ok_def cut_sep_def cut_all_join)

section \<open>Theorems on the argument string\<close>

text \<open>
  C32. The argument string round trip. A name without \<open>@\<close> and \<open>+\<close>, a profile without \<open>+\<close> and any parameters, each
  present or not and each fitting its buffer, are read back from the string they are written as.
\<close>

theorem app_data_roundtrip:
  assumes "copy_string_ok cpy" "CHR ''@'' \<notin> set nm" "CHR ''+'' \<notin> set nm" "CHR ''+'' \<notin> set (opt_text prof)"
    and "length nm < nlen" "length (opt_text prof) < plen" "length (opt_text params) < prlen"
  shows "b_parse_app_data cpy nlen plen prlen (Some (app_data nm prof params)) = (nm, opt_text prof, opt_text params)"
proof (cases prof)
  case (Some p)
  then have p: "CHR ''+'' \<notin> set p" "length p < plen" using assms(4,6) by (simp_all add: opt_text_def)
  show ?thesis
  proof (cases params)
    case None
    have d: "app_data nm prof params = nm @ CHR ''@'' # p" using Some None by (simp add: app_data_def)
    show ?thesis
      using Some None assms(2,3,5) p copy_string_fits [OF assms(1) p(2)] before_text [OF assms(2), of p] after_text [OF assms(2), of p]
      unfolding d b_parse_app_data_def by (simp add: Let_def opt_text_def copy_seg_fits)
  next
    case (Some q)
    have d: "app_data nm prof params = nm @ CHR ''@'' # p @ CHR ''+'' # q" using \<open>prof = Some p\<close> Some by (simp add: app_data_def)
    have np: "CHR ''+'' \<notin> set (nm @ CHR ''@'' # p)" using assms(3) p(1) by simp
    have b: "before (CHR ''@'') (nm @ CHR ''@'' # p @ CHR ''+'' # q) = nm"
      "before (CHR ''+'') (nm @ CHR ''@'' # p @ CHR ''+'' # q) = nm @ CHR ''@'' # p"
      "after (CHR ''@'') (nm @ CHR ''@'' # p @ CHR ''+'' # q) = p @ CHR ''+'' # q"
      "after (CHR ''+'') (nm @ CHR ''@'' # p @ CHR ''+'' # q) = q"
      "before (CHR ''+'') (p @ CHR ''+'' # q) = p"
      using before_text [OF assms(2)] after_text [OF assms(2)] before_text [OF np, of q] after_text [OF np, of q] before_text [OF p(1)]
      by simp_all
    have "length q < prlen" using assms(7) Some by (simp add: opt_text_def)
    with \<open>prof = Some p\<close> Some b assms(5) p(2) show ?thesis
      unfolding d b_parse_app_data_def by (simp add: Let_def opt_text_def copy_seg_fits copy_string_fits [OF assms(1)])
  qed
next
  case None
  show ?thesis
  proof (cases params)
    case Some
    then obtain q where q: "params = Some q" by simp
    have d: "app_data nm prof params = nm @ CHR ''+'' # q" using None q by (simp add: app_data_def)
    have b: "before (CHR ''+'') (nm @ CHR ''+'' # q) = nm" "after (CHR ''+'') (nm @ CHR ''+'' # q) = q"
      using before_text [OF assms(3)] after_text [OF assms(3)] by simp_all
    have "length nm \<le> length (before (CHR ''@'') (nm @ CHR ''+'' # q))"
      using assms(2) unfolding before_def by (subst takeWhile_append2) auto
    with b None q assms(5,7) show ?thesis
      unfolding d b_parse_app_data_def by (simp add: Let_def opt_text_def copy_seg_fits copy_string_fits [OF assms(1)])
  next
    case N: None
    have d: "app_data nm prof params = nm" using None N by (simp add: app_data_def)
    show ?thesis using assms(2,3,5) None N copy_string_fits [OF assms(1,5)]
      unfolding d b_parse_app_data_def by (auto simp: Let_def opt_text_def)
  qed
qed

theorem app_data_roundtrip_witness:
  "b_parse_app_data cut_copy 256 128 1024 (Some (app_data ''live'' (Some ''hd'') (Some ''role=speaker''))) =
     (''live'', opt_text (Some ''hd''), opt_text (Some ''role=speaker''))"
  by (rule app_data_roundtrip [OF cut_copy_ok]) (simp_all add: opt_text_def)

text \<open>
  Whatever the dialplan passes, the three parts fit the buffers of the application.
\<close>

theorem app_data_bounds:
  assumes "copy_string_ok cpy" "0 < nlen" "0 < plen" "0 < prlen" "b_parse_app_data cpy nlen plen prlen data = (nm, prof, params)"
  shows "length nm < nlen \<and> length prof < plen \<and> length params < prlen"
  using assms(5) copy_seg_bound [OF assms(2)] copy_seg_bound [OF assms(3)] copy_string_bound [OF assms(1,2)]
    copy_string_bound [OF assms(1,3)] copy_string_bound [OF assms(1,4)] assms(2-4)
  by (auto simp: b_parse_app_data_def Let_def split: if_splits)

theorem app_data_bounds_witness:
  "length (fst (b_parse_app_data cut_copy 4 4 4 (Some ''conference@wideband''))) < 4"
proof -
  obtain nm prof params where r: "b_parse_app_data cut_copy 4 4 4 (Some ''conference@wideband'') = (nm, prof, params)" by (metis prod.exhaust)
  have "length nm < 4 \<and> length prof < 4 \<and> length params < 4" by (rule app_data_bounds [OF cut_copy_ok _ _ _ r]) simp_all
  with r show ?thesis by simp
qed

text \<open>
  A parameter is found again. From up to 31 plain \<open>key=value\<close> parts, together within the
  buffer, a lookup gives the value of the first key that matches in any letter case, cut to the caller's buffer, and
  nothing when no key matches.
\<close>

theorem param_get_roundtrip:
  assumes "copy_string_ok cpy" "separate_ok sep" "kvs \<noteq> []" "length kvs \<le> 31" "key \<noteq> []"
    and "list_all (\<lambda>(k, v). CHR ''='' \<notin> set k) kvs" "list_all (plain_part (CHR '','')) (param_args kvs)"
    and "length (join_with (CHR '','') (param_args kvs)) < 1024"
  shows "b_param_get cpy sep (join_with (CHR '','') (param_args kvs)) key olen =
    map_option (\<lambda>(k, v). cpy v olen) (find (\<lambda>(k, v). strcaseeq k key) kvs)"
proof -
  let ?s = "join_with (CHR '','') (param_args kvs)"
  have ne: "param_args kvs \<noteq> []" "length (param_args kvs) \<le> 31" using assms(3,4) by (simp_all add: param_args_def)
  obtain x xs where x: "param_args kvs = x # xs" using ne(1) by (cases "param_args kvs") auto
  then have "x \<noteq> []" using assms(7) by (simp add: plain_part_def)
  then have "?s \<noteq> []" using x by (cases xs) simp_all
  moreover have "sep ?s (CHR '','') 31 = param_args kvs" using assms(2,7) ne unfolding separate_ok_def by blast
  ultimately show ?thesis
    using assms(5) param_scan_args [OF assms(6)] by (simp add: b_param_get_def copy_string_fits [OF assms(1,8)])
qed

theorem param_get_roundtrip_witness:
  "b_param_get cut_copy cut_sep (join_with (CHR '','') (param_args [(''role'', ''speaker''), (''Tag'', ''a1'')])) ''tag'' 256 = Some ''a1''"
proof -
  have "strcaseeq ''Tag'' ''tag''" "\<not> strcaseeq ''role'' ''tag''" by code_simp+
  then show ?thesis
    by (subst param_get_roundtrip [OF cut_copy_ok cut_sep_ok]) (simp_all add: param_args_def plain_part_def cut_copy_def)
qed

section \<open>References\<close>

definition app_calm :: "app_io \<Rightarrow> bool" where
  "app_calm io \<longleftrightarrow> list_all keeps_tick (ai_ticks io) \<and> list_all keeps_round (ai_rounds io) \<and> keeps_tag (ai_wait_others io)"

definition seg_keeps :: "app_seg \<Rightarrow> room \<Rightarrow> bool" where
  "seg_keeps seg r \<longleftrightarrow> (case seg of Early r' vars busy \<Rightarrow> room_tag r' = room_tag r | Done r' vars \<Rightarrow> room_tag r' = room_tag r | SegBlocked \<Rightarrow> True)"

lemma upd_m_tag [preserved]: "upd_m a f r = Some r' \<Longrightarrow> room_tag r' = room_tag r"
  by (auto simp: upd_m_def bind_eq_Some_conv)

lemma app_speak_tag: "app_speak cpy has_mod g io a r = Some (r', w) \<Longrightarrow> app_calm io \<Longrightarrow> room_tag r' = room_tag r"
  unfolding app_speak_def app_calm_def by (auto dest: main_wait_tag)

lemma app_end_run_tag: "app_end_run io a vars r = Some seg \<Longrightarrow> seg_keeps seg r"
  by (auto simp: app_end_run_def bind_eq_Some_conv seg_keeps_def dest: upd_m_tag)

lemma seg_keeps_trans: "seg_keeps seg r' \<Longrightarrow> room_tag r' = room_tag r \<Longrightarrow> seg_keeps seg r"
  by (auto simp: seg_keeps_def split: app_seg.splits)

lemma end_or_blocked:
  "(if w then Some SegBlocked else app_end_run io a vars r') = Some seg \<Longrightarrow> room_tag r' = room_tag r \<Longrightarrow> seg_keeps seg r"
proof (cases w)
  case True
  assume "(if w then Some SegBlocked else app_end_run io a vars r') = Some seg"
  with True have "seg = SegBlocked" by simp
  then show ?thesis by (simp add: seg_keeps_def)
next
  case False
  assume "(if w then Some SegBlocked else app_end_run io a vars r') = Some seg" "room_tag r' = room_tag r"
  with False show ?thesis by (simp add: seg_keeps_trans [OF app_end_run_tag])
qed

lemma app_speaker_tag: "app_speaker cpy has_mod g io a vars r = Some seg \<Longrightarrow> app_calm io \<Longrightarrow> seg_keeps seg r"
proof (cases "broadcast_member_next_id (rm_b r)")
  case (Pair mid b)
  assume s: "app_speaker cpy has_mod g io a vars r = Some seg" and c: "app_calm io"
  have t0: "room_tag (r\<lparr>rm_b := b\<rparr>) = room_tag r" using next_id_tag' [OF Pair] by (simp add: room_tag_def)
  let ?refused = "(case b_current_speaker (rm_b r) of None \<Rightarrow> False | Some s \<Rightarrow> s \<noteq> a)
         \<and> (case b_profile (rm_b r) of None \<Rightarrow> False | Some p \<Rightarrow> \<not> p_speaker_override p)"
  show ?thesis
  proof (cases ?refused)
    case True
    with s have "seg = Early r vars True" unfolding app_speaker_def Let_def by (metis if_P option.inject)
    then show ?thesis by (simp add: seg_keeps_def)
  next
    case False
    note body = s [unfolded app_speaker_def Let_def if_not_P [OF False] Pair prod.case]
    from body obtain r1 st r2 evs where
      1: "upd_m a (\<lambda>m. m\<lparr>m_id := mid, m_mflags := set_flag (m_mflags m) MFLAG_RUNNING\<rparr>) (r\<lparr>rm_b := b\<rparr>) = Some r1"
      and 2: "broadcast_set_speaker (ai_prep io) (ai_now io) (Some a) r1 = Some (st, r2, evs)"
      by (auto simp: bind_eq_Some_conv)
    have t2: "room_tag r2 = room_tag r" using upd_m_tag [OF 1] set_speaker_tag [OF 2] t0 by simp
    show ?thesis
    proof (cases "st = ST_SUCCESS")
      case False
      with body 1 2 t2 show ?thesis by (auto simp: seg_keeps_def)
    next
      case True
      with body 1 2 obtain r3 w where 3: "app_speak cpy has_mod g io a r2 = Some (r3, w)"
        and 4: "(if w then Some SegBlocked else app_end_run io a (vars(''broadcast_member_id'' \<mapsto> u_text mid)) r3) = Some seg"
        by (auto simp: bind_eq_Some_conv)
      have "room_tag r3 = room_tag r" using app_speak_tag [OF 3 c] t2 by simp
      from end_or_blocked [OF 4 this] show ?thesis .
    qed
  qed
qed

lemma app_listen_tag: "app_listen cpy has_mod g io a r = Some (Some r') \<Longrightarrow> app_calm io \<Longrightarrow> room_tag r' = room_tag r"
proof -
  assume a: "app_listen cpy has_mod g io a r = Some (Some r')" "app_calm io"
  then obtain m e where e: "broadcast_listener_run cpy has_mod g (ai_timer io) (ai_soft io) (ai_scratch io) (ai_ticks io) (rm_b r) m = Some e"
    "rm_heap r a = Some m" by (auto simp: app_listen_def bind_eq_Some_conv)
  have "list_all keeps_tick (ai_ticks io)" using a(2) by (simp add: app_calm_def)
  from listener_run_tag [OF e(1) this] a(1) e show ?thesis
    by (cases e) (auto simp: app_listen_def Let_def room_tag_def)
qed

lemma app_promoted_tag: "app_promoted cpy has_mod g io a vars r = Some seg \<Longrightarrow> app_calm io \<Longrightarrow> seg_keeps seg r"
proof -
  assume s: "app_promoted cpy has_mod g io a vars r = Some seg" and c: "app_calm io"
  then obtain r1 st r2 evs r3 w where
    1: "upd_m a (\<lambda>m. m\<lparr>m_mflags := set_flag (clr_flag (m_mflags m) MFLAG_ROLE_TRANSITION_TO_SPEAKER) MFLAG_RUNNING\<rparr>) r = Some r1"
    and 2: "broadcast_set_speaker (ai_prep io) (ai_now io) (Some a) r1 = Some (st, r2, evs)"
    and 3: "(if st = ST_SUCCESS then app_speak cpy has_mod g io a r2 else Some (r2, False)) = Some (r3, w)"
    and 4: "(if w then Some SegBlocked else app_end_run io a (vars(''broadcast_role'' \<mapsto> ''speaker'')) r3) = Some seg"
    by (auto simp: app_promoted_def Let_def bind_eq_Some_conv)
  have "room_tag r3 = room_tag r2" using 3 app_speak_tag [OF _ c] by (auto split: if_splits)
  then have "room_tag r3 = room_tag r" using upd_m_tag [OF 1] set_speaker_tag [OF 2] by simp
  from end_or_blocked [OF 4 this] show ?thesis .
qed

lemma app_leave_list_tag: "app_leave_list cpy io a vars r = Some seg \<Longrightarrow> seg_keeps seg r"
  by (auto simp: app_leave_list_def Let_def bind_eq_Some_conv seg_keeps_def dest: listener_del_tag)

lemma app_listener_tag: "app_listener cpy has_mod g io a vars r = Some seg \<Longrightarrow> app_calm io \<Longrightarrow> seg_keeps seg r"
proof -
  assume s: "app_listener cpy has_mod g io a vars r = Some seg" and c: "app_calm io"
  then obtain st r1 where 1: "broadcast_listener_add cpy (ai_now io) (ai_now io) a r = Some (st, r1)"
    by (auto simp: app_listener_def bind_eq_Some_conv)
  note t1 = listener_add_tag [OF 1]
  show ?thesis
  proof (cases "st = ST_SUCCESS")
    case False
    with s 1 t1 show ?thesis by (auto simp: app_listener_def seg_keeps_def)
  next
    case True
    with s 1 obtain m left where 2: "app_listen cpy has_mod g io a r1 = Some left" "rm_heap r1 a = Some m"
      by (auto simp: app_listener_def Let_def bind_eq_Some_conv)
    show ?thesis
    proof (cases left)
      case None
      with s 1 2 True show ?thesis by (auto simp: app_listener_def Let_def seg_keeps_def)
    next
      case (Some r2)
      have "room_tag r2 = room_tag r" using app_listen_tag [OF 2(1) [unfolded Some] c] t1 by simp
      with s 1 2 True Some show ?thesis
        by (auto simp: app_listener_def Let_def bind_eq_Some_conv split: if_splits
            dest: app_promoted_tag [OF _ c] app_leave_list_tag seg_keeps_trans)
    qed
  qed
qed

lemma app_close_tag: "app_close early a r = Some r' \<Longrightarrow> room_tag r' = room_tag r"
  by (auto simp: app_close_def bind_eq_Some_conv split: if_splits dest!: upd_m_tag clear_if_current_tag)

lemma release_store:
  assumes "broadcast_release (Some ba) (store_room ba r reg) = Some reg'"
  shows "rg_store reg' = (rg_store reg)(ba \<mapsto> upd_b (\<lambda>b. b\<lparr>b_live_refs := b_live_refs b - 1\<rparr>) r)"
    and "g_broadcast_hash (rg_g reg') = g_broadcast_hash (rg_g reg)"
    and "g_active_broadcasts (rg_g reg') = g_active_broadcasts (rg_g reg)"
  using assms by (auto simp: broadcast_release_def store_room_def)

lemma fetch_room_tag: "fetch_room ba reg = Some r \<Longrightarrow> \<exists>r0. rg_store reg ba = Some r0 \<and> room_tag r = room_tag r0"
  by (auto simp: fetch_room_def)

lemma release_fetched:
  assumes "rg_store reg ba = Some r0" "room_tag r = room_tag r0" "broadcast_release (Some ba) (store_room ba r reg) = Some reg'"
  shows "\<exists>r'. rg_store reg' ba = Some r' \<and> room_tag r' = (fst (room_tag r0), snd (room_tag r0) - 1)"
    and "x \<noteq> ba \<Longrightarrow> rg_store reg' x = rg_store reg x"
  using release_store(1) [OF assms(3)] assms(2) by (simp_all add: room_tag_def upd_b_def)

text \<open>
  C13. A call of the application that has its broadcast and returns, whatever way it took (refused, served as speaker, as listener, or promoted
  in between), has given up exactly one reference to it, and touched no other broadcast nor the table.
\<close>

theorem app_run_releases:
  assumes "app_run cpy has_mod io q uuid a ba vars reg = Some (Returned reg' vars' busy)" "app_calm io" "rg_store reg ba = Some r"
  shows "(\<exists>r'. rg_store reg' ba = Some r' \<and> b_name (rm_b r') = b_name (rm_b r) \<and> b_live_refs (rm_b r') = b_live_refs (rm_b r) - 1)
    \<and> (\<forall>x. x \<noteq> ba \<longrightarrow> rg_store reg' x = rg_store reg x) \<and> g_broadcast_hash (rg_g reg') = g_broadcast_hash (rg_g reg)
    \<and> g_active_broadcasts (rg_g reg') = g_active_broadcasts (rg_g reg)"
proof -
  obtain st m where p: "broadcast_member_prepare (ai_prep io) (aq_role q) (app_member q uuid) = (st, m)" by (rule prod.exhaust)
  obtain r0 where f: "fetch_room ba reg = Some r0" "room_tag r0 = room_tag r" using assms(3) by (simp add: fetch_room_def)
  let ?r = "r0\<lparr>rm_heap := (rm_heap r0)(a \<mapsto> m)\<rparr>"
  have "\<exists>r1. room_tag r1 = room_tag r \<and> broadcast_release (Some ba) (store_room ba r1 reg) = Some reg'"
  proof (cases "st = ST_SUCCESS")
    case False
    with assms(1) p f show ?thesis
      by (intro exI [of _ ?r]) (auto simp: app_run_def Let_def bind_eq_Some_conv)
  next
    case True
    with assms(1) p f obtain seg where s: "(if aq_role q = BMEMBER_ROLE_SPEAKER
          then app_speaker cpy has_mod (rg_g reg) io a (join_vars (ai_join_us io) (aq_role q) (rm_b r0) vars) ?r
          else app_listener cpy has_mod (rg_g reg) io a (join_vars (ai_join_us io) (aq_role q) (rm_b r0) vars) ?r) = Some seg"
      by (auto simp: app_run_def Let_def bind_eq_Some_conv)
    then have k: "seg_keeps seg ?r"
      using app_speaker_tag [OF _ assms(2)] app_listener_tag [OF _ assms(2)] by (auto split: if_splits)
    from assms(1) p f True s obtain r2 early r1 where c: "seg = Early r2 vars' busy \<or> seg = Done r2 vars'"
      "app_close early a r2 = Some r1" "broadcast_release (Some ba) (store_room ba r1 reg) = Some reg'"
      by (auto simp: app_run_def Let_def bind_eq_Some_conv split: app_seg.splits)
    have "room_tag r2 = room_tag r" using k c(1) f(2) by (auto simp: seg_keeps_def)
    with app_close_tag [OF c(2)] c(3) show ?thesis by auto
  qed
  then obtain r1 where r1: "room_tag r1 = room_tag r" "broadcast_release (Some ba) (store_room ba r1 reg) = Some reg'" by auto
  from release_fetched [OF assms(3) r1] release_store(2,3) [OF r1(2)] show ?thesis by (auto simp: room_tag_def)
qed

definition calm_prep :: prep_io where
  "calm_prep = \<lparr>pi_write_codec = True, pi_read_codec = True, pi_mutex = True, pi_buffer = ST_SUCCESS, pi_thread = ST_SUCCESS\<rparr>"

text \<open>A channel that is gone by the first tick, in a loop without disturbance.\<close>

definition gone_tick :: lt_io where
  "gone_tick = \<lparr>lt_ready = False, lt_read_ok = True, lt_latched = True, lt_others = (\<lambda>s. s), lt_dtmf = [], lt_ready_again = True,
     lt_resync_now = 0, lt_evt_now = 0, lt_volume = (\<lambda>v bs. bs), lt_advance_now = 0, lt_write_ok = True\<rparr>"

definition calm_app :: app_io where
  "calm_app = \<lparr>ai_prep = calm_prep, ai_join_us = 5, ai_now = 7000, ai_timer = ST_SUCCESS, ai_soft = ST_SUCCESS, ai_scratch = [],
     ai_ticks = [gone_tick], ai_listen_others = (\<lambda>r. r), ai_rounds = [((\<lambda>r. r), False, [])], ai_wait_others = (\<lambda>r. r),
     ai_vars_others = (\<lambda>v. v)\<rparr>"

lemma calm_app_calm: "app_calm calm_app"
  by (simp add: app_calm_def calm_app_def keeps_tick_def gone_tick_def keeps_round_def)

definition one_room :: registry where
  "one_room = \<lparr>rg_g = (rg_g empty_registry)\<lparr>g_broadcast_hash := [(''a'', 0)]\<rparr>,
     rg_store = [0 \<mapsto> \<lparr>rm_b = (zero_broadcast 4)\<lparr>b_name := ''a'', b_profile := Some zero_profile, b_live_refs := 2\<rparr>,
                         rm_heap = Map.empty, rm_served = 0\<rparr>]\<rparr>"

definition listen_request :: app_request where
  "listen_request = \<lparr>aq_name = ''a'', aq_profile = [], aq_role = BMEMBER_ROLE_LISTENER, aq_ghost = False, aq_exclusive = False,
     aq_tag = [], aq_display = []\<rparr>"

definition result_refs :: "baddr \<Rightarrow> app_result option \<Rightarrow> int option" where
  "result_refs ba res = (case res of Some (Returned reg vars busy) \<Rightarrow> map_option (\<lambda>r. b_live_refs (rm_b r)) (rg_store reg ba) | _ \<Rightarrow> None)"

lemma run_refs:
  "result_refs 0 (app_run cut_copy (\<lambda>s. False) calm_app listen_request ''u1'' 3 0 (\<lambda>v. None) one_room) = Some 1"
  by code_simp

theorem app_run_releases_witness:
  "\<exists>reg' vars' busy. app_run cut_copy (\<lambda>s. False) calm_app listen_request ''u1'' 3 0 (\<lambda>v. None) one_room = Some (Returned reg' vars' busy)
     \<and> (\<exists>r'. rg_store reg' 0 = Some r' \<and> b_name (rm_b r') = ''a'' \<and> b_live_refs (rm_b r') = 1)"
proof -
  obtain reg' vars' busy where r:
    "app_run cut_copy (\<lambda>s. False) calm_app listen_request ''u1'' 3 0 (\<lambda>v. None) one_room = Some (Returned reg' vars' busy)"
    using run_refs by (auto simp: result_refs_def split: option.splits app_result.splits)
  from app_run_releases [OF r calm_app_calm] show ?thesis
    using r by (simp add: one_room_def)
qed

section \<open>How a listener's call ends\<close>

lemma rep_heap_upd:
  assumes "listener_rep r xs" "rm_heap r a = Some m" "m_next m' = m_next m" "m_prev m' = m_prev m"
  shows "listener_rep (r\<lparr>rm_heap := (rm_heap r)(a \<mapsto> m')\<rparr>) xs"
proof -
  have "lk ((rm_heap r)(a \<mapsto> m')) x = lk (rm_heap r) x" for x using assms(2-4) by (simp add: lk_def)
  then have "dll ((rm_heap r)(a \<mapsto> m')) p q xs l n = dll (rm_heap r) p q xs l n" for p q l n by (intro dll_cong) simp
  with assms(1) show ?thesis by (simp add: listener_rep_def)
qed

lemma clear_if_current_ok:
  assumes "listener_rep r xs" "rm_heap r a = Some m"
  obtains r' m' where "broadcast_clear_speaker_if_current a r = Some r'" "listener_rep r' xs" "rm_heap r' a = Some m'"
    "b_current_speaker (rm_b r') \<noteq> Some a"
proof (cases "b_current_speaker (rm_b r) = Some a")
  case False
  with assms that show thesis by (simp add: broadcast_clear_speaker_if_current_def)
next
  case True
  let ?m = "broadcast_speaker_stop_input m"
  let ?r = "r\<lparr>rm_b := (rm_b r)\<lparr>b_current_speaker := None\<rparr>, rm_heap := (rm_heap r)(a \<mapsto> ?m)\<rparr>"
  have "listener_rep (r\<lparr>rm_heap := (rm_heap r)(a \<mapsto> ?m)\<rparr>) xs"
    by (rule rep_heap_upd [OF assms]) (simp_all add: broadcast_speaker_stop_input_def)
  then have "listener_rep ?r xs" by (simp add: listener_rep_def)
  with True assms(2) show thesis by (intro that [of ?r ?m]) (simp_all add: broadcast_clear_speaker_if_current_def)
qed

text \<open>
  C18. A listener's normal exit leaves nothing behind: from a well-formed room, leaving the list and the last calls succeed, and
  afterwards the member is off the list, the others are on it in their order, it is not the current speaker, and its codecs are released.
\<close>

theorem listener_exit_clean:
  assumes "listener_rep r xs" "a \<in> set xs" "rm_heap r a = Some m"
  shows "\<exists>r1 vars' r2. app_leave_list cpy io a vars r = Some (Done r1 vars') \<and> app_close False a r1 = Some r2
    \<and> listener_rep r2 (remove1 a xs) \<and> b_current_speaker (rm_b r2) \<noteq> Some a
    \<and> (\<exists>m'. rm_heap r2 a = Some m' \<and> \<not> m_read_codec m' \<and> \<not> m_write_codec m')"
proof -
  obtain r1 where d: "broadcast_listener_del cpy (ai_now io) a r = Some (ST_SUCCESS, r1)" "listener_rep r1 (remove1 a xs)"
    "member_known r1 = member_known r" by (rule listener_del_result [OF assms])
  have "member_known r1 a" unfolding d(3) using assms(3) by (simp add: member_known_def)
  then obtain m1 where m1: "rm_heap r1 a = Some m1" by (auto simp: member_known_def)
  obtain r2 m2 where c: "broadcast_clear_speaker_if_current a r1 = Some r2" "listener_rep r2 (remove1 a xs)" "rm_heap r2 a = Some m2"
    "b_current_speaker (rm_b r2) \<noteq> Some a" by (rule clear_if_current_ok [OF d(2) m1])
  have "listener_rep (r2\<lparr>rm_heap := (rm_heap r2)(a \<mapsto> broadcast_member_cleanup_codecs m2)\<rparr>) (remove1 a xs)"
    by (rule rep_heap_upd [OF c(2,3)]) (simp_all add: broadcast_member_cleanup_codecs_def)
  with d(1) c assms(3) show ?thesis
    by (auto simp: app_leave_list_def app_close_def upd_m_def Let_def broadcast_member_cleanup_codecs_def)
qed

theorem listener_exit_clean_witness:
  "\<exists>r1 vars' r2. app_leave_list cut_copy calm_app 1 (\<lambda>v. None) bridged_room = Some (Done r1 vars') \<and> app_close False 1 r1 = Some r2
    \<and> listener_rep r2 [] \<and> b_current_speaker (rm_b r2) \<noteq> Some 1"
proof -
  obtain m where "rm_heap bridged_room 1 = Some m" by (auto simp: bridged_room_def)
  from listener_exit_clean [OF bridged_room_rep _ this, of cut_copy calm_app "\<lambda>v. None"] show ?thesis by auto
qed

text \<open>
  The variables a call leaves tell one story. The reason is what a kick, a teardown or the caller's own digits have set, else
  destroyed before kicked before hangup; and when nobody preset the other two, the call never claims both that it
  was ended by the caller and that somebody else ended it.
\<close>

theorem exit_variables_consistent:
  assumes v_def: "v = broadcast_member_set_exit_variables now now' b m join_us vars0"
  shows "v ''broadcast_left_reason'' = Some (if zstr (vars0 ''broadcast_left_reason'') then
       (if b_destroyed b then ''destroyed'' else if has_flag (m_mflags m) MFLAG_KICKED then ''kicked'' else ''hangup'')
       else the (vars0 ''broadcast_left_reason''))
    \<and> (zstr (vars0 ''broadcast_kicked_by'') \<and> zstr (vars0 ''broadcast_ended_by_self'') \<longrightarrow>
         \<not> (v ''broadcast_ended_by_self'' = Some ''true'' \<and> \<not> zstr (v ''broadcast_kicked_by'')))
    \<and> v ''broadcast_final_role'' = Some (if m_role m = BMEMBER_ROLE_SPEAKER then ''speaker'' else ''listener'')"
proof (intro conjI impI)
  have ne: "\<not> zstr (Some (left_reason b m))" by (simp add: left_reason_def)
  show "v ''broadcast_left_reason'' = Some (if zstr (vars0 ''broadcast_left_reason'') then
       (if b_destroyed b then ''destroyed'' else if has_flag (m_mflags m) MFLAG_KICKED then ''kicked'' else ''hangup'')
       else the (vars0 ''broadcast_left_reason''))"
    by (cases "vars0 ''broadcast_left_reason''") (auto simp: v_def broadcast_member_set_exit_variables_def Let_def left_reason_def)
  show "v ''broadcast_final_role'' = Some (if m_role m = BMEMBER_ROLE_SPEAKER then ''speaker'' else ''listener'')"
    by (simp add: v_def broadcast_member_set_exit_variables_def Let_def)
  assume z: "zstr (vars0 ''broadcast_kicked_by'') \<and> zstr (vars0 ''broadcast_ended_by_self'')"
  define reason where "reason = (if zstr (vars0 ''broadcast_left_reason'') then left_reason b m else the (vars0 ''broadcast_left_reason''))"
  have "v ''broadcast_kicked_by'' = Some (kicked_by reason)" "v ''broadcast_ended_by_self'' = Some (ended_by_self reason)"
    using z unfolding v_def broadcast_member_set_exit_variables_def Let_def reason_def by simp_all
  then show "\<not> (v ''broadcast_ended_by_self'' = Some ''true'' \<and> \<not> zstr (v ''broadcast_kicked_by''))"
    by (auto simp: kicked_by_def ended_by_self_def split: if_splits)
qed

theorem exit_variables_consistent_witness:
  "(broadcast_member_set_exit_variables 9000 9000 (zero_broadcast 4) (zero_member ''u'') 1000 (\<lambda>v. None)) ''broadcast_left_reason'' = Some ''hangup''
   \<and> \<not> ((broadcast_member_set_exit_variables 9000 9000 (zero_broadcast 4) (zero_member ''u'') 1000 (\<lambda>v. None)) ''broadcast_ended_by_self'' = Some ''true''
      \<and> \<not> zstr ((broadcast_member_set_exit_variables 9000 9000 (zero_broadcast 4) (zero_member ''u'') 1000 (\<lambda>v. None)) ''broadcast_kicked_by''))"
  using exit_variables_consistent [OF refl, of 9000 9000 "zero_broadcast 4" "zero_member ''u''" 1000 "\<lambda>v. None"]
  by (simp add: zero_broadcast_def zero_member_def has_flag_zero)

section \<open>Unloading the module\<close>

lemma runtime_wait_ends:
  "False \<in> set polls \<or> 500 < length polls \<Longrightarrow> \<exists>k gone. runtime_wait polls = Some (k, gone) \<and> k \<le> 500 \<and> (gone \<or> k = 500)"
proof -
  assume a: "False \<in> set polls \<or> 500 < length polls"
  have "length (takeWhile (\<lambda>p. p) polls) < length polls \<or> takeWhile (\<lambda>p. p) polls = polls"
    by (metis le_neq_implies_less length_takeWhile_le takeWhile_eq_all_conv takeWhile_eq_take take_all_iff order_refl)
  with a show ?thesis by (auto simp: runtime_wait_def Let_def takeWhile_eq_all_conv)
qed

text \<open>
  C33. Unloading the module empties it. When every broadcast's listener list is well formed and its speaker, if
  it has one, stays allocated while the drain loop of its teardown polls, and the waits of each teardown run
  out, shutdown returns: it has waited for the runtime thread at most 500 yields and gone on without it only
  after all of them, every broadcast is torn down and freed, the emitter is stopped before, no configuration is
  left, all reserved event names are given back, and the two global locks and the table are released last.
\<close>

theorem shutdown_empties:
  assumes "rg_inv reg" "\<And>a r. rg_store reg a = Some r \<Longrightarrow> \<exists>xs. listener_rep r xs"
    and "\<And>a r s io. rg_store reg a = Some r \<Longrightarrow> b_current_speaker (rm_b r) = Some s \<Longrightarrow> io \<in> set ios \<Longrightarrow>
        rm_heap r s \<noteq> None \<and> keeps_member s (di_drain io)"
    and "list_all (\<lambda>io. destroy_calm io \<and> destroy_expires io) ios" "length (g_broadcast_hash (rg_g reg)) \<le> length ios"
    and "False \<in> set polls \<or> 500 < length polls"
  shows "\<exists>u. mod_broadcast_shutdown cpy polls ios reg = Some u
    \<and> ul_yields u \<le> 500 \<and> (ul_runtime_gone u \<or> ul_yields u = 500)
    \<and> g_broadcast_hash (rg_g (ul_reg u)) = [] \<and> (\<forall>a. rg_store (ul_reg u) a = None)
    \<and> \<not> g_running (rg_g (ul_reg u)) \<and> \<not> g_emitter_running (rg_g (ul_reg u))
    \<and> g_profiles (rg_g (ul_reg u)) = [] \<and> g_control_groups (rg_g (ul_reg u)) = []
    \<and> ul_events u = broadcast_event_free_all \<and> ul_released u = [ConfigRwlock, BroadcastHash, HashRwlock]"
proof -
  let ?reg = "reg\<lparr>rg_g := broadcast_event_emitter_stop ((rg_g reg)\<lparr>g_running := False\<rparr>)\<rparr>"
  have inv: "rg_inv ?reg" using assms(1) by (simp add: rg_inv_def broadcast_event_emitter_stop_def)
  have n: "length (g_broadcast_hash (rg_g ?reg)) \<le> length ios" using assms(5) by (simp add: broadcast_event_emitter_stop_def)
  have ready: "room_ready ios r" if "rg_store ?reg a = Some r" for a r
    using that assms(2,3) by (auto simp: room_ready_def old_stays_def)
  have "\<exists>reg1. broadcast_destroy_all cpy ios ?reg = Some reg1 \<and> rg_inv reg1 \<and> g_broadcast_hash (rg_g reg1) = []
      \<and> g_running (rg_g reg1) = g_running (rg_g ?reg) \<and> g_emitter_running (rg_g reg1) = g_emitter_running (rg_g ?reg)"
    by (rule destroy_all_empties [OF inv _ assms(4) n]) (rule ready)
  then obtain reg1 where r: "broadcast_destroy_all cpy ios ?reg = Some reg1" "rg_inv reg1" "g_broadcast_hash (rg_g reg1) = []"
    "g_running (rg_g reg1) = g_running (rg_g ?reg)" "g_emitter_running (rg_g reg1) = g_emitter_running (rg_g ?reg)" by blast
  then have none: "\<forall>a. rg_store reg1 a = None" unfolding rg_inv_def by (metis empty_iff list.set(1) not_Some_eq)
  obtain k gone where w: "runtime_wait polls = Some (k, gone)" "k \<le> 500" "gone \<or> k = 500"
    using runtime_wait_ends [OF assms(6)] by blast
  show ?thesis using r none w by (simp add: mod_broadcast_shutdown_def broadcast_config_unload_def broadcast_event_emitter_stop_def Let_def)
qed

theorem shutdown_empties_witness:
  "\<exists>u. mod_broadcast_shutdown cut_copy [True, True, False] [quiet_destroy] busy_registry = Some u
    \<and> g_broadcast_hash (rg_g (ul_reg u)) = [] \<and> \<not> g_emitter_running (rg_g (ul_reg u))"
proof -
  have l: "length (g_broadcast_hash (rg_g busy_registry)) \<le> length [quiet_destroy]"
    by (simp add: busy_registry_def live_registry_def create_insert_def hash_lookup_def plain_create_def hash_insert_def empty_registry_def Let_def)
  have only: "r = busy_room" if "rg_store busy_registry a = Some r" for a r
    using that
    by (auto simp: busy_registry_def live_registry_def create_insert_def hash_lookup_def plain_create_def empty_registry_def Let_def split: if_splits)
  have "listener_rep busy_room [1]"
    by (simp add: listener_rep_def busy_room_def zero_member_def zero_profile_def lk_def)
  with only have q: "\<exists>xs. listener_rep r xs" if "rg_store busy_registry a = Some r" for a r using that by blast
  have s: "rm_heap r s \<noteq> None \<and> keeps_member s (di_drain io)"
    if "rg_store busy_registry a = Some r" "b_current_speaker (rm_b r) = Some s" "io \<in> set [quiet_destroy]" for a r s io
    using that(2,3) only [OF that(1)] quiet_keeps_member by (auto simp: busy_room_def)
  have e: "list_all (\<lambda>io. destroy_calm io \<and> destroy_expires io) [quiet_destroy]"
    using quiet_destroy_calm quiet_expires by (simp add: destroy_expires_def)
  have p: "False \<in> set [True, True, False] \<or> 500 < length [True, True, False]" by simp
  note u = shutdown_empties [where cpy = cut_copy, OF busy_registry_inv _ _ e l p]
  show ?thesis using u q s by blast
qed

end
