(* ===== verification/Api_Report.thy ===== *)
theory Api_Report
  imports App
begin

text \<open>
  The reports of broadcast_api.c: the formatting helpers and what list, stats, info, listeners, listener and
  producer write to the stream, as text or as JSON. A report is the string written; a walk over a freed
  member or broadcast is \<open>None\<close>.
\<close>

section \<open>Formatting\<close>

text \<open>\<open>%02u\<close>.\<close>

definition pad2 :: "nat \<Rightarrow> string" where
  "pad2 n = (if n < 10 then CHR ''0'' # dec_string n else dec_string n)"

text \<open>\<open>%s\<close> with a pointer that may be NULL, and \<open>switch_copy_string\<close> of such a pointer when it is not.\<close>

definition printed :: "string option \<Rightarrow> string" where
  "printed s = (case s of None \<Rightarrow> ''(null)'' | Some t \<Rightarrow> t)"

definition copied :: "copy_string \<Rightarrow> nat \<Rightarrow> string option \<Rightarrow> string" where
  "copied cpy n s = (case s of None \<Rightarrow> [] | Some t \<Rightarrow> cpy t n)"

text \<open>A broken-down time; \<open>exp_lt\<close> is the core's \<open>switch_time_exp_lt\<close>, its conversion to local time.\<close>

record time_exp =
  te_year :: int
  te_mon :: nat
  te_mday :: nat
  te_hour :: nat
  te_min :: nat
  te_sec :: nat

definition b_fmt_utc_from_us :: "copy_string \<Rightarrow> (usec \<Rightarrow> time_exp option) \<Rightarrow> nat \<Rightarrow> usec \<Rightarrow> string" where
  "b_fmt_utc_from_us cpy exp_lt len us =
     (case exp_lt us of
        None \<Rightarrow> cpy ''?'' len
      | Some te \<Rightarrow> dec_time (te_year te + 1900) @ ''-'' @ pad2 (te_mon te + 1) @ ''-'' @ pad2 (te_mday te) @ '' ''
          @ pad2 (te_hour te) @ '':'' @ pad2 (te_min te) @ '':'' @ pad2 (te_sec te) @ '' UTC'')"

definition b_fmt_uptime_hms :: "nat \<Rightarrow> usec \<Rightarrow> string" where
  "b_fmt_uptime_hms len delta_us =
     (let t = (word_of_int (delta_us sdiv 1000000) :: u64);
          h = t div 3600; m = (t mod 3600) div 60; s = t mod 60
      in take (len - 1) (pad2 (unat h) @ '':'' @ pad2 (unat m) @ '':'' @ pad2 (unat s)))"

text \<open>The macro \<open>CF_ADD\<close> on what is already in the buffer of \<open>len\<close> bytes, and the flags it is used for.\<close>

definition cf_add :: "nat \<Rightarrow> string \<Rightarrow> string \<Rightarrow> string" where
  "cf_add len lbl s =
     (let s = (if s \<noteq> [] \<and> length s + 1 < len then s @ ''|'' else s)
      in if length s + length lbl < len then s @ lbl else s)"

definition cflag_labels :: "(u32 \<times> string) list" where
  "cflag_labels =
     [(BFLAG_RUNNING, ''RUNNING''), (BFLAG_DESTRUCT, ''DESTRUCT''), (BFLAG_LOCKED, ''LOCKED''), (BFLAG_RECORDING, ''RECORDING''),
      (BFLAG_PAUSE, ''PAUSE''), (BFLAG_DYNAMIC, ''DYNAMIC''), (BFLAG_PLAY_FILE, ''PLAY_FILE'')]"

definition b_cflags_to_str :: "nat \<Rightarrow> u32 \<Rightarrow> string" where
  "b_cflags_to_str len cf = fold (\<lambda>(f, lbl) s. if has_flag cf f then cf_add len lbl s else s) cflag_labels []"

text \<open>
  \<open>%.<d>f\<close> of the double quotient \<open>n / d\<close> of two naturals below \<open>2^53\<close> (exact as doubles) with a quotient below \<open>2^53\<close>:
  the quotient rounded to 53 significant bits, then printed, each time to nearest with ties to even.
\<close>

definition div_even :: "nat \<Rightarrow> nat \<Rightarrow> nat" where
  "div_even n d = (let q = n div d; r = n mod d in if 2 * r < d \<or> (2 * r = d \<and> even q) then q else q + 1)"

fun dbl_scale :: "nat \<Rightarrow> nat \<Rightarrow> nat \<Rightarrow> nat \<times> nat" where
  "dbl_scale 0 n d = (n, 0)"
| "dbl_scale (Suc k) n d = (if n < 2 ^ 52 * d then (case dbl_scale k (2 * n) d of (n, e) \<Rightarrow> (n, Suc e)) else (n, 0))"

definition pad_digits :: "nat \<Rightarrow> nat \<Rightarrow> string" where
  "pad_digits k n = (let s = dec_string n in replicate (k - length s) (CHR ''0'') @ s)"

definition dbl_text :: "nat \<Rightarrow> nat \<Rightarrow> nat \<Rightarrow> string" where
  "dbl_text digits n d =
     (case (if n = 0 then (0, 0) else dbl_scale 1074 n d) of (n, e) \<Rightarrow>
        let v = div_even (div_even n d * 10 ^ digits) (2 ^ e)
        in dec_string (v div 10 ^ digits) @ ''.'' @ pad_digits digits (v mod 10 ^ digits))"

text \<open>\<open>%x\<close>.\<close>

definition hex_digit :: "nat \<Rightarrow> char" where
  "hex_digit n = (if n < 10 then char_of (48 + n) else char_of (87 + n))"

fun hex_string :: "nat \<Rightarrow> string" where
  "hex_string n = (if n < 16 then [hex_digit n] else hex_string (n div 16) @ [hex_digit (n mod 16)])"

declare hex_string.simps [simp del]

text \<open>How long ago a position last moved, in ms, and how far it is behind.\<close>

definition tick_ms_ago :: "usec \<Rightarrow> usec \<Rightarrow> int" where
  "tick_ms_ago now lastadv = (if 0 < lastadv \<and> lastadv \<le> now then (now - lastadv) sdiv 1000 else -1)"

definition lag_of :: "u64 \<Rightarrow> u64 \<Rightarrow> u64" where
  "lag_of pseq cs = (if cs < pseq then pseq - cs else 0)"

definition u64_text :: "u64 \<Rightarrow> string" where
  "u64_text w = dec_string (unat w)"

definition avg_tick :: "broadcast_obj \<Rightarrow> usec" where
  "avg_tick b = (if b_producer_tick_count_for_avg b \<noteq> 0 then sint (b_producer_tick_sum_us b div b_producer_tick_count_for_avg b) else 0)"

definition profile_name :: "broadcast_obj \<Rightarrow> string" where
  "profile_name b = (case b_profile b of Some p \<Rightarrow> p_name p | None \<Rightarrow> [])"

section \<open>list and stats of the module\<close>

definition speaker_id :: "room \<Rightarrow> u32 option" where
  "speaker_id r = (case b_current_speaker (rm_b r) of None \<Rightarrow> Some 0 | Some s \<Rightarrow> map_option m_id (rm_heap r s))"

definition list_entry :: "bool \<Rightarrow> bool \<Rightarrow> room \<Rightarrow> string option" where
  "list_entry json needs_comma r =
     (let b = rm_b r in
      if json then do {
        spid \<leftarrow> speaker_id r;
        Some ((if needs_comma then '','' else []) @ ''{\"name\":\"'' @ b_name b @ ''\",\"uuid\":\"'' @ b_uuid_str b
          @ ''\",\"profile\":\"'' @ profile_name b @ ''\",\"listeners\":'' @ u_text (b_listener_count b)
          @ '',\"speaker_id\":'' @ u_text spid
          @ '',\"recording\":'' @ (if has_flag (b_cflags b) BFLAG_RECORDING then ''true'' else ''false'') @ ''}'') }
      else Some (b_name b @ ''  listeners='' @ u_text (b_listener_count b) @ ''\<newline>''))"

definition list_selected :: "string option \<Rightarrow> room \<Rightarrow> bool" where
  "list_selected filt r \<longleftrightarrow> zstr filt \<or> strcaseeq (b_name (rm_b r)) (the filt)"

fun list_walk :: "registry \<Rightarrow> string option \<Rightarrow> bool \<Rightarrow> bool \<Rightarrow> (string \<times> baddr) list \<Rightarrow> (string \<times> u32) option" where
  "list_walk reg filt json needs_comma [] = Some ([], 0)"
| "list_walk reg filt json needs_comma ((k, a) # rest) =
     (case rg_store reg a of
        None \<Rightarrow> None
      | Some r \<Rightarrow>
          if \<not> list_selected filt r then list_walk reg filt json needs_comma rest
          else do {
            t \<leftarrow> list_entry json needs_comma r;
            (ts, n) \<leftarrow> list_walk reg filt json True rest;
            Some (t @ ts, n + 1) })"

definition b_api_list :: "registry \<Rightarrow> string option \<Rightarrow> bool \<Rightarrow> string option" where
  "b_api_list reg filt json = do {
     (ts, n) \<leftarrow> list_walk reg filt json False (g_broadcast_hash (rg_g reg));
     Some (if json then ''{\"command\":\"list\",\"broadcasts\":['' @ ts @ ''],\"count\":'' @ u_text n @ ''}\<newline>''
           else ts @ (if n = 0 then ''0 broadcasts active\<newline>'' else u_text n @ '' broadcasts active\<newline>'')) }"

fun total_listeners :: "registry \<Rightarrow> (string \<times> baddr) list \<Rightarrow> u32 option" where
  "total_listeners reg [] = Some 0"
| "total_listeners reg ((k, a) # rest) =
     (case rg_store reg a of
        None \<Rightarrow> None
      | Some r \<Rightarrow> do {
          n \<leftarrow> total_listeners reg rest;
          Some (if b_destroyed (rm_b r) then n else b_listener_count (rm_b r) + n) })"

definition b_api_module_stats :: "usec \<Rightarrow> registry \<Rightarrow> bool \<Rightarrow> string option" where
  "b_api_module_stats now reg json = do {
     n \<leftarrow> total_listeners reg (g_broadcast_hash (rg_g reg));
     let g = rg_g reg;
     Some (if json then
         ''{\"command\":\"stats\",\"total_broadcasts_created\":'' @ u_text (g_total_broadcasts_created g)
         @ '',\"active_broadcasts\":'' @ u_text (g_active_broadcasts g)
         @ '',\"total_listeners_served\":'' @ u_text (g_total_listeners_served g) @ '',\"listeners_now\":'' @ u_text n
         @ '',\"emitter_running\":'' @ (if g_emitter_running g then ''true'' else ''false'')
         @ '',\"module_uptime_sec\":'' @ dec_time ((now - g_module_load_us g) sdiv 1000000) @ ''}\<newline>''
       else
         ''total_broadcasts_created='' @ u_text (g_total_broadcasts_created g) @ '' active_broadcasts='' @ u_text (g_active_broadcasts g)
         @ '' total_listeners_served='' @ u_text (g_total_listeners_served g) @ '' listeners_now='' @ u_text n
         @ '' emitter='' @ (if g_emitter_running g then ''yes'' else ''no'')
         @ '' uptime_sec='' @ dec_time ((now - g_module_load_us g) sdiv 1000000) @ ''\<newline>'') }"

section \<open>listener and listeners\<close>

definition b_parse_member_id :: "string \<Rightarrow> u32" where
  "b_parse_member_id s = (if s = [] then 0 else if has_case_prefix ''m_'' s then atoi_u32 (drop 2 s) else atoi_u32 s)"

text \<open>The member with that id, on the list first, then in the speaker's slot.\<close>

definition b_find_member_by_id_str :: "room \<Rightarrow> string \<Rightarrow> maddr option option" where
  "b_find_member_by_id_str r sid =
     (let i = b_parse_member_id sid in
      if i = 0 then Some None
      else do {
        found \<leftarrow> list_find (\<lambda>x m. m_id m = i) (rm_heap r) (b_listener_head (rm_b r));
        (case found of
           Some x \<Rightarrow> Some (Some x)
         | None \<Rightarrow>
             (case b_current_speaker (rm_b r) of
                None \<Rightarrow> Some None
              | Some s \<Rightarrow> do { m \<leftarrow> rm_heap r s; Some (if m_id m = i then Some s else None) })) })"

definition listener_report :: "copy_string \<Rightarrow> usec \<Rightarrow> u64 \<Rightarrow> bool \<Rightarrow> member_obj \<Rightarrow> string" where
  "listener_report cpy now pseq json m =
     (let uuid = copied cpy 64 (m_uuid m); tag = copied cpy 256 (m_tag m); disp = copied cpy 256 (m_display_name m);
          joined = dec_time (m_joined_at m); duration = dec_time ((now - m_joined_at m) sdiv 1000);
          lag = u64_text (lag_of pseq (m_consumer_seq m)); rsc = u_text (m_resync_count m);
          ago = dec_time (tick_ms_ago now (m_last_seen_seq_advance m))
      in if json then
           ''{\"command\":\"listener\",\"id\":'' @ u_text (m_id m) @ '',\"uuid\":\"'' @ uuid @ ''\",\"tag\":\"'' @ tag
           @ ''\",\"display_name\":\"'' @ disp @ ''\",\"joined_at_us\":'' @ joined @ '',\"duration_ms\":'' @ duration
           @ '',\"lag\":'' @ lag @ '',\"resync\":'' @ rsc @ '',\"last_tick_ms_ago\":'' @ ago @ ''}\<newline>''
         else
           ''Listener m_'' @ u_text (m_id m) @ ''\<newline>  uuid='' @ uuid @ ''\<newline>  tag='' @ tag @ ''\<newline>  display_name='' @ disp
           @ ''\<newline>  joined_at_us='' @ joined @ ''\<newline>  duration_ms='' @ duration @ ''\<newline>  lag_frames='' @ lag
           @ ''\<newline>  resync_count='' @ rsc @ ''\<newline>  last_tick_ms_ago='' @ ago @ ''\<newline>'')"

definition b_api_listener_detail :: "copy_string \<Rightarrow> usec \<Rightarrow> room \<Rightarrow> string \<Rightarrow> bool \<Rightarrow> string option" where
  "b_api_listener_detail cpy now r sid json = do {
     found \<leftarrow> b_find_member_by_id_str r sid;
     (case found of
        None \<Rightarrow> Some (if json then ''{\"command\":\"listener\",\"result\":\"error\",\"detail\":\"not found\"}\<newline>'' else ''-ERR not found\<newline>'')
      | Some a \<Rightarrow> map_option (listener_report cpy now (b_producer_seq (rm_b r)) json) (rm_heap r a)) }"

definition listener_line :: "usec \<Rightarrow> u64 \<Rightarrow> bool \<Rightarrow> bool \<Rightarrow> member_obj \<Rightarrow> string" where
  "listener_line now pseq json first m =
     (let lag = u64_text (lag_of pseq (m_consumer_seq m)); rsc = u_text (m_resync_count m);
          ago = tick_ms_ago now (m_last_seen_seq_advance m)
      in if json then
           (if first then [] else '','') @ ''{\"id\":'' @ u_text (m_id m) @ '',\"uuid\":\"'' @ printed (m_uuid m) @ ''\",\"lag\":'' @ lag
           @ '',\"resync\":'' @ rsc @ '',\"last_tick_ms_ago\":'' @ dec_time ago @ ''}''
         else if 0 \<le> ago then
           ''m_'' @ u_text (m_id m) @ '' '' @ printed (m_uuid m) @ '' lag='' @ lag @ '' resync='' @ rsc
           @ '' last_tick='' @ dec_time ago @ ''ms_ago\<newline>''
         else
           ''m_'' @ u_text (m_id m) @ '' '' @ printed (m_uuid m) @ '' lag='' @ lag @ '' resync='' @ rsc @ '' last_tick=n/a\<newline>'')"

text \<open>The members the walk of the list visits, in its order.\<close>

partial_function (option) list_members :: "mheap \<Rightarrow> maddr option \<Rightarrow> member_obj list option" where
  "list_members h p =
     (case p of
        None \<Rightarrow> Some []
      | Some x \<Rightarrow> Option.bind (h x) (\<lambda>m. Option.bind (list_members h (m_next m)) (\<lambda>ms. Some (m # ms))))"

declare list_members.simps [code]

fun listener_lines :: "usec \<Rightarrow> u64 \<Rightarrow> bool \<Rightarrow> bool \<Rightarrow> member_obj list \<Rightarrow> string" where
  "listener_lines now pseq json first [] = []"
| "listener_lines now pseq json first (m # ms) = listener_line now pseq json first m @ listener_lines now pseq json False ms"

definition b_api_listeners :: "usec \<Rightarrow> room \<Rightarrow> bool \<Rightarrow> string option" where
  "b_api_listeners now r json = do {
     ms \<leftarrow> list_members (rm_heap r) (b_listener_head (rm_b r));
     let ts = listener_lines now (b_producer_seq (rm_b r)) json True ms;
     Some (if json then ''{\"command\":\"listeners\",\"members\":['' @ ts @ '']}\<newline>'' else ts) }"

section \<open>stats and producer of a broadcast\<close>

definition b_api_stats :: "broadcast_obj \<Rightarrow> bool \<Rightarrow> string" where
  "b_api_stats b json =
     (if json then
        ''{\"command\":\"stats\",\"ticks\":'' @ u_text (b_stat_ticks b) @ '',\"missed_ticks\":'' @ u_text (b_stat_missed_ticks b)
        @ '',\"speaker_silent_ticks\":'' @ u_text (b_stat_speaker_silent_ticks b) @ '',\"resyncs\":'' @ u_text (b_stat_listener_resyncs b)
        @ '',\"joined\":'' @ u_text (b_stat_listeners_joined b) @ '',\"left\":'' @ u_text (b_stat_listeners_left b)
        @ '',\"events_dropped\":'' @ u_text (b_stat_events_dropped b) @ ''}\<newline>''
      else
        ''ticks='' @ u_text (b_stat_ticks b) @ '' missed='' @ u_text (b_stat_missed_ticks b)
        @ '' silent_ticks='' @ u_text (b_stat_speaker_silent_ticks b) @ '' resyncs='' @ u_text (b_stat_listener_resyncs b)
        @ '' joined='' @ u_text (b_stat_listeners_joined b) @ '' left='' @ u_text (b_stat_listeners_left b)
        @ '' events_dropped='' @ u_text (b_stat_events_dropped b) @ ''\<newline>'')"

definition b_api_producer :: "broadcast_obj \<Rightarrow> bool \<Rightarrow> string" where
  "b_api_producer b json =
     (if json then
        ''{\"command\":\"producer\",\"running\":'' @ (if b_producer_running b then ''true'' else ''false'')
        @ '',\"producer_seq\":'' @ u64_text (b_producer_seq b) @ '',\"ticks\":'' @ u_text (b_stat_ticks b)
        @ '',\"missed_ticks\":'' @ u_text (b_stat_missed_ticks b) @ '',\"avg_tick_us\":'' @ dec_time (avg_tick b)
        @ '',\"max_tick_us\":'' @ dec_time (b_producer_max_tick_us b)
        @ '',\"drift_max_us\":'' @ u64_text (b_stat_tick_drift_us_max b) @ ''}\<newline>''
      else
        ''producer running='' @ (if b_producer_running b then ''yes'' else ''no'') @ '' seq='' @ u64_text (b_producer_seq b)
        @ '' ticks='' @ u_text (b_stat_ticks b) @ '' missed='' @ u_text (b_stat_missed_ticks b)
        @ '' avg_tick_us='' @ dec_time (avg_tick b) @ '' max_tick_us='' @ dec_time (b_producer_max_tick_us b)
        @ '' drift_max_us='' @ u64_text (b_stat_tick_drift_us_max b) @ ''\<newline>'')"

text \<open>Without \<open>BROADCAST_ENABLE_HISTOGRAM\<close>, as the module is built.\<close>

definition b_api_producer_histogram :: "bool \<Rightarrow> string" where
  "b_api_producer_histogram json =
     (if json then ''{\"command\":\"producer_histogram\",\"result\":\"disabled\"}\<newline>''
      else ''histogram: rebuild mod_broadcast with -DBROADCAST_ENABLE_HISTOGRAM\<newline>'')"

section \<open>info\<close>

text \<open>
  The JSON array of the recordings, built in a buffer of 1536 bytes; \<open>fh\<close> gives what a recording's file handle shows as
  samples written and channels.
\<close>

type_synonym rec_handle = "rec_consumer \<Rightarrow> u64 \<times> u32"

definition bytes_approx :: "rec_handle \<Rightarrow> rec_consumer \<Rightarrow> u64" where
  "bytes_approx fh rec = (case fh rec of (samples, ch) \<Rightarrow> samples * u64_of (if ch \<noteq> 0 then ch else 1) * 2)"

definition rec_json_add :: "rec_handle \<Rightarrow> rec_consumer \<Rightarrow> string \<Rightarrow> string" where
  "rec_json_add fh rec s =
     (let s = (if 1 < length s \<and> length s + 2 < 1536 then s @ '','' else s)
      in s @ take (1536 - length s - 1)
           (''{\"path\":\"'' @ rc_target rec @ ''\",\"bytes_approx\":'' @ u64_text (bytes_approx fh rec) @ ''}''))"

definition recordings_json :: "rec_handle \<Rightarrow> rec_consumer list \<Rightarrow> string" where
  "recordings_json fh recs =
     (let s = fold (rec_json_add fh) recs ''[''
      in if length s + 2 < 1536 then s @ '']'' else s)"

definition rec_human :: "rec_handle \<Rightarrow> rec_consumer list \<Rightarrow> string" where
  "rec_human fh recs =
     (case recs of
        [] \<Rightarrow> ''none''
      | rec # rest \<Rightarrow> take 511 (rc_target rec @ '' (~'' @ u64_text (bytes_approx fh rec) @ '' bytes)''))"

definition state_text :: "u32 \<Rightarrow> string" where
  "state_text cf =
     (if has_flag cf BFLAG_DESTRUCT then ''DESTROYING'' else if has_flag cf BFLAG_PAUSE then ''PAUSED'' else ''RUNNING'')"

text \<open>The profile's rate, interval and channels, zero without one.\<close>

definition profile_figure :: "(broadcast_profile \<Rightarrow> u32) \<Rightarrow> broadcast_obj \<Rightarrow> string" where
  "profile_figure f b = u_text (case b_profile b of Some p \<Rightarrow> f p | None \<Rightarrow> 0)"

definition missed_pct :: "broadcast_obj \<Rightarrow> string" where
  "missed_pct b =
     (if 0 < b_stat_ticks b then dbl_text 8 (100 * unat (b_stat_missed_ticks b)) (unat (b_stat_ticks b)) else dbl_text 8 0 1)"

definition ticks_per_sec :: "nat \<Rightarrow> broadcast_obj \<Rightarrow> string" where
  "ticks_per_sec digits b =
     (if b_interval_ms b \<noteq> 0 then dbl_text digits 1000 (unat (b_interval_ms b)) else dbl_text digits 0 1)"

definition max_tick_age :: "usec \<Rightarrow> broadcast_obj \<Rightarrow> int" where
  "max_tick_age now b =
     (if 0 < b_producer_max_tick_seen_us b \<and> b_producer_max_tick_seen_us b \<le> now
      then (now - b_producer_max_tick_seen_us b) sdiv 1000000 else -1)"

text \<open>What the speaker's locked section copies: id, uuid, display name.\<close>

definition speaker_strings :: "copy_string \<Rightarrow> room \<Rightarrow> (u32 \<times> string \<times> string) option" where
  "speaker_strings cpy r =
     (case b_current_speaker (rm_b r) of
        None \<Rightarrow> Some (0, [], [])
      | Some s \<Rightarrow> map_option (\<lambda>m. (m_id m, copied cpy 64 (m_uuid m), copied cpy 256 (m_display_name m))) (rm_heap r s))"

definition speaker_active_us :: "usec \<Rightarrow> broadcast_obj \<Rightarrow> usec" where
  "speaker_active_us now b =
     (if b_current_speaker b \<noteq> None \<and> 0 < b_speaker_active_since b \<and> b_speaker_active_since b \<le> now
      then now - b_speaker_active_since b else 0)"

definition info_json :: "string \<Rightarrow> rec_handle \<Rightarrow> usec \<Rightarrow> u32 \<times> string \<times> string \<Rightarrow> broadcast_obj \<Rightarrow> string" where
  "info_json created fh now sp b =
     (case sp of (spid, spuuid, spdisp) \<Rightarrow>
        ''{\"command\":\"info\",\"name\":\"'' @ b_name b @ ''\",\"uuid\":\"'' @ b_uuid_str b @ ''\",\"profile\":\"'' @ profile_name b
        @ ''\",\"profile_rate\":'' @ profile_figure p_rate b @ '',\"profile_interval_ms\":'' @ profile_figure p_interval_ms b
        @ '',\"profile_channels\":'' @ profile_figure p_channels b
        @ '',\"created_at_us\":'' @ dec_time (b_created_at b) @ '',\"created_utc\":\"'' @ created
        @ ''\",\"uptime_sec\":'' @ dec_time ((now - b_created_at b) sdiv 1000000)
        @ '',\"uptime_hms\":\"'' @ b_fmt_uptime_hms 32 (now - b_created_at b)
        @ ''\",\"listeners\":'' @ u_text (b_listener_count b) @ '',\"listeners_peak\":'' @ u_text (b_stat_peak_listeners b)
        @ '',\"speaker_id\":'' @ u_text spid @ '',\"speaker_uuid\":\"'' @ spuuid @ ''\",\"speaker_display\":\"'' @ spdisp
        @ ''\",\"speaker_active_sec\":'' @ dec_time (speaker_active_us now b sdiv 1000000)
        @ '',\"producer_seq\":'' @ u64_text (b_producer_seq b) @ '',\"ticks\":'' @ u_text (b_stat_ticks b)
        @ '',\"missed_ticks\":'' @ u_text (b_stat_missed_ticks b) @ '',\"missed_pct\":'' @ missed_pct b
        @ '',\"producer_ticks_per_sec\":'' @ ticks_per_sec 4 b @ '',\"avg_tick_us\":'' @ dec_time (avg_tick b)
        @ '',\"max_tick_us\":'' @ dec_time (b_producer_max_tick_us b) @ '',\"max_tick_age_sec\":'' @ dec_time (max_tick_age now b)
        @ '',\"drift_max_us\":'' @ u64_text (b_stat_tick_drift_us_max b) @ '',\"resyncs\":'' @ u_text (b_stat_listener_resyncs b)
        @ '',\"joined\":'' @ u_text (b_stat_listeners_joined b) @ '',\"left\":'' @ u_text (b_stat_listeners_left b)
        @ '',\"events_dropped\":'' @ u_text (b_stat_events_dropped b) @ '',\"cflags_hex\":\"0x'' @ hex_string (unat (b_cflags b))
        @ ''\",\"cflags_str\":\"'' @ b_cflags_to_str 128 (b_cflags b) @ ''\",\"state\":\"'' @ state_text (b_cflags b)
        @ ''\",\"recordings\":'' @ recordings_json fh (b_recordings b) @ ''}\<newline>'')"

definition info_text :: "string \<Rightarrow> rec_handle \<Rightarrow> usec \<Rightarrow> u32 \<times> string \<times> string \<Rightarrow> broadcast_obj \<Rightarrow> string" where
  "info_text created fh now sp b =
     (case sp of (spid, spuuid, spdisp) \<Rightarrow>
        ''Broadcast: '' @ b_name b @ ''\<newline>UUID: '' @ b_uuid_str b @ ''\<newline>Profile: '' @ profile_name b
        @ '' (rate='' @ profile_figure p_rate b @ '', interval='' @ profile_figure p_interval_ms b
        @ ''ms, channels='' @ profile_figure p_channels b @ '')\<newline>Created: '' @ created
        @ '' (uptime '' @ b_fmt_uptime_hms 32 (now - b_created_at b)
        @ '')\<newline>Speaker: m_'' @ u_text spid @ '' (display=\"'' @ spdisp @ ''\", uuid='' @ spuuid
        @ '', active for '' @ b_fmt_uptime_hms 32 (speaker_active_us now b)
        @ '')\<newline>Listeners: '' @ u_text (b_listener_count b) @ '' (peak: '' @ u_text (b_stat_peak_listeners b)
        @ '', joined: '' @ u_text (b_stat_listeners_joined b) @ '', left: '' @ u_text (b_stat_listeners_left b)
        @ '')\<newline>Producer:\<newline>  seq: '' @ u64_text (b_producer_seq b) @ ''\<newline>  ticks: '' @ u_text (b_stat_ticks b)
        @ '' ('' @ ticks_per_sec 1 b @ ''/sec)\<newline>  missed ticks: '' @ u_text (b_stat_missed_ticks b)
        @ '' ('' @ missed_pct b @ ''%)\<newline>  avg tick: '' @ dec_time (avg_tick b)
        @ '' us\<newline>  max tick: '' @ dec_time (b_producer_max_tick_us b)
        @ '' us ('' @ (if 0 \<le> max_tick_age now b then dec_time (max_tick_age now b) @ '' sec ago'' else ''n/a'')
        @ '')\<newline>  max drift: '' @ u64_text (b_stat_tick_drift_us_max b)
        @ '' us\<newline>State: '' @ state_text (b_cflags b) @ '' (flags: '' @ b_cflags_to_str 128 (b_cflags b)
        @ '')\<newline>Recording: '' @ rec_human fh (b_recordings b)
        @ ''\<newline>Resyncs (total): '' @ u_text (b_stat_listener_resyncs b)
        @ ''\<newline>Events dropped: '' @ u_text (b_stat_events_dropped b) @ ''\<newline>'')"

definition b_api_info :: "copy_string \<Rightarrow> (usec \<Rightarrow> time_exp option) \<Rightarrow> rec_handle \<Rightarrow> usec \<Rightarrow> room \<Rightarrow> bool \<Rightarrow> string option" where
  "b_api_info cpy exp_lt fh now r json = do {
     sp \<leftarrow> speaker_strings cpy r;
     let created = b_fmt_utc_from_us cpy exp_lt 64 (b_created_at (rm_b r));
     Some (if json then info_json created fh now sp (rm_b r) else info_text created fh now sp (rm_b r)) }"

section \<open>Member ids, flags, durations\<close>

lemma dec_string_head: "\<exists>c cs. dec_string n = c # cs \<and> is_digit c"
proof -
  obtain c cs where "dec_string n = c # cs" using dec_string_ne [of n] by (cases "dec_string n") auto
  with dec_string_digits [of n] show ?thesis by simp
qed

lemma digit_not_m: "is_digit c \<Longrightarrow> to_lower c \<noteq> CHR ''m''"
  by (auto simp: is_digit_def to_lower_def Let_def)

lemma dec_string_no_prefix: "\<not> has_case_prefix ''m_'' (dec_string n)"
proof -
  obtain c cs where "dec_string n = c # cs" "is_digit c" using dec_string_head [of n] by auto
  moreover have "to_lower (CHR ''m'') = CHR ''m''" by code_simp
  ultimately show ?thesis using digit_not_m [of c] by (auto simp: has_case_prefix_def)
qed

lemma atoi_u32_dec: "atoi_u32 (dec_string (unat w)) = w"
  by (simp add: atoi_u32_def atoi_dec_string)

text \<open>
  A member id is read back from every form the reports and events print it in: with the prefix in either
  letter case, and without.
\<close>

theorem member_id_roundtrip:
  "b_parse_member_id (''m_'' @ u_text w) = w \<and> b_parse_member_id (''M_'' @ u_text w) = w \<and> b_parse_member_id (u_text w) = w"
proof -
  have "has_case_prefix ''m_'' (''m_'' @ s)" "has_case_prefix ''m_'' (''M_'' @ s)" for s
    by (simp_all add: has_case_prefix_def) code_simp
  then show ?thesis
    using dec_string_no_prefix [of "unat w"] dec_string_ne [of "unat w"] atoi_u32_dec [of w]
    by (simp add: b_parse_member_id_def u_text_def)
qed

text \<open>The flag word a label text stands for.\<close>

definition flags_of_text :: "string \<Rightarrow> u32" where
  "flags_of_text s =
     fold (\<lambda>(f, lbl) w. if lbl \<in> set (cut_all (CHR ''|'') [] s) then set_flag w f else w) cflag_labels 0"

lemma one_bit: "(cf :: u32) AND push_bit n 1 = (if has_flag cf (push_bit n 1) then push_bit n 1 else 0)"
proof -
  have "cf AND push_bit n 1 = (if bit cf n then push_bit n 1 else 0)"
    by (rule bit_eqI) (auto simp: bit_simps)
  then show ?thesis by (cases "bit cf n") (auto simp: has_flag_def)
qed

lemma low_flags:
  "(cf :: u32) AND 127 = (if has_flag cf BFLAG_RUNNING then BFLAG_RUNNING else 0) OR (if has_flag cf BFLAG_DESTRUCT then BFLAG_DESTRUCT else 0)
     OR (if has_flag cf BFLAG_LOCKED then BFLAG_LOCKED else 0) OR (if has_flag cf BFLAG_RECORDING then BFLAG_RECORDING else 0)
     OR (if has_flag cf BFLAG_PAUSE then BFLAG_PAUSE else 0) OR (if has_flag cf BFLAG_DYNAMIC then BFLAG_DYNAMIC else 0)
     OR (if has_flag cf BFLAG_PLAY_FILE then BFLAG_PLAY_FILE else 0)"
proof -
  have "(127 :: u32) = push_bit 0 1 OR push_bit 1 1 OR push_bit 2 1 OR push_bit 3 1 OR push_bit 4 1 OR push_bit 5 1 OR push_bit 6 1"
    by simp
  then show ?thesis
    unfolding bflag_defs one_bit [symmetric] by (simp only: bit.conj_disj_distrib)
qed

text \<open>
  The flags a report prints determine the flag word: read back from the text in the 128-byte buffer, exactly
  the seven defined bits that are set come out, so no label is cut.
\<close>

theorem flags_text_roundtrip: "flags_of_text (b_cflags_to_str 128 cf) = cf AND 127"
proof -
  have "flags_of_text (b_cflags_to_str 128 cf) = (if has_flag cf BFLAG_RUNNING then BFLAG_RUNNING else 0) OR (if has_flag cf BFLAG_DESTRUCT then BFLAG_DESTRUCT else 0)
     OR (if has_flag cf BFLAG_LOCKED then BFLAG_LOCKED else 0) OR (if has_flag cf BFLAG_RECORDING then BFLAG_RECORDING else 0)
     OR (if has_flag cf BFLAG_PAUSE then BFLAG_PAUSE else 0) OR (if has_flag cf BFLAG_DYNAMIC then BFLAG_DYNAMIC else 0)
     OR (if has_flag cf BFLAG_PLAY_FILE then BFLAG_PLAY_FILE else 0)"
    by (cases "has_flag cf BFLAG_RUNNING"; cases "has_flag cf BFLAG_DESTRUCT"; cases "has_flag cf BFLAG_LOCKED";
      cases "has_flag cf BFLAG_RECORDING"; cases "has_flag cf BFLAG_PAUSE"; cases "has_flag cf BFLAG_DYNAMIC";
      cases "has_flag cf BFLAG_PLAY_FILE")
      (simp_all add: flags_of_text_def b_cflags_to_str_def cflag_labels_def cf_add_def set_flag_def or.assoc)
  then show ?thesis by (simp only: low_flags)
qed

lemma pad2_length: "2 \<le> k \<Longrightarrow> n < 10 ^ k \<Longrightarrow> length (pad2 n) \<le> k"
  using dec_string_length [of k n] dec_string_length [of 1 n] by (auto simp: pad2_def)

lemma hms_fits: "length a \<le> 15 \<Longrightarrow> length b \<le> 2 \<Longrightarrow> length c \<le> 2 \<Longrightarrow> take (32 - 1) (a @ '':'' @ b @ '':'' @ c) = a @ '':'' @ b @ '':'' @ c"
  by (intro take_all) simp

lemma hms_sum: "3600 * (x div 3600) + 60 * (x mod 3600 div 60) + x mod 60 = x" for x :: nat
proof -
  have "x mod 60 = x mod 3600 mod 60" by (simp add: mod_mod_cancel)
  then have "60 * (x mod 3600 div 60) + x mod 60 = x mod 3600" by simp
  then show ?thesis using mult_div_mod_eq [of 3600 x] by linarith
qed

text \<open>
  A duration is printed as hours, minutes and seconds that add up to it, and fits its buffer of 32 bytes.
\<close>

theorem uptime_hms_exact:
  assumes d: "0 \<le> d" "d < 2 ^ 63"
  shows "\<exists>h m s. b_fmt_uptime_hms 32 d = pad2 h @ '':'' @ pad2 m @ '':'' @ pad2 s
      \<and> m < 60 \<and> s < 60 \<and> 3600 * h + 60 * m + s = nat (d div 1000000)"
proof -
  let ?t = "word_of_int (d sdiv 1000000) :: u64"
  have s: "d sdiv 1000000 = d div 1000000" using d(1) by (simp add: signed_divide_int_def sgn_if)
  have b: "0 \<le> d div 1000000" "d div 1000000 < 2 ^ 44" using d by auto
  have u: "unat ?t = nat (d div 1000000)"
    using b by (simp add: s unsigned_of_int nat_take_bit_eq take_bit_int_eq_self)
  have h: "unat (?t div 3600) = unat ?t div 3600" "unat ((?t mod 3600) div 60) = unat ?t mod 3600 div 60" "unat (?t mod 60) = unat ?t mod 60"
    by (simp_all add: unat_div unat_mod)
  have "unat ?t < 10 ^ 15" using b by (simp add: u)
  then have "length (pad2 (unat ?t div 3600)) \<le> 15" by (intro pad2_length) auto
  moreover have "length (pad2 (unat ?t mod 3600 div 60)) \<le> 2" "length (pad2 (unat ?t mod 60)) \<le> 2"
    by (intro pad2_length; simp add: div_less_iff_less_mult)+
  ultimately have "b_fmt_uptime_hms 32 d = pad2 (unat ?t div 3600) @ '':'' @ pad2 (unat ?t mod 3600 div 60) @ '':'' @ pad2 (unat ?t mod 60)"
    unfolding b_fmt_uptime_hms_def Let_def h by (rule hms_fits)
  moreover have "3600 * (unat ?t div 3600) + 60 * (unat ?t mod 3600 div 60) + unat ?t mod 60 = unat ?t"
    by (rule hms_sum)
  moreover have "unat ?t mod 3600 div 60 < 60" "unat ?t mod 60 < 60" by (simp_all add: div_less_iff_less_mult)
  ultimately show ?thesis unfolding u by blast
qed

theorem uptime_hms_exact_witness:
  "\<exists>h m s. b_fmt_uptime_hms 32 90061000000 = pad2 h @ '':'' @ pad2 m @ '':'' @ pad2 s
     \<and> m < 60 \<and> s < 60 \<and> 3600 * h + 60 * m + s = nat ((90061000000 :: int) div 1000000)"
  by (rule uptime_hms_exact) simp_all

text \<open>
  The instant labelled UTC is printed in local time: where the local conversion is that of another zone, it
  prints what a UTC conversion prints for the instant moved by the offset.
\<close>

theorem utc_label_is_local_time:
  assumes "exp_lt us = gmt (us + 1000000 * offset_sec)"
  shows "b_fmt_utc_from_us cpy exp_lt len us = b_fmt_utc_from_us cpy gmt len (us + 1000000 * offset_sec)"
  by (simp add: b_fmt_utc_from_us_def assms)

text \<open>The first day of 1970 in UTC.\<close>

definition day_one :: "usec \<Rightarrow> time_exp option" where
  "day_one us = (let s = nat (us div 1000000) in
     if us < 0 \<or> 86400 \<le> s then None
     else Some \<lparr>te_year = 70, te_mon = 0, te_mday = 1, te_hour = s div 3600, te_min = s mod 3600 div 60, te_sec = s mod 60\<rparr>)"

theorem utc_label_is_local_time_witness:
  "b_fmt_utc_from_us cut_copy (\<lambda>us. day_one (us + 1000000 * 18000)) 64 0 = ''1970-01-01 05:00:00 UTC''"
proof -
  have "b_fmt_utc_from_us cut_copy (\<lambda>us. day_one (us + 1000000 * 18000)) 64 0 = b_fmt_utc_from_us cut_copy day_one 64 (0 + 1000000 * 18000)"
    by (rule utc_label_is_local_time) simp
  also have "\<dots> = ''1970-01-01 05:00:00 UTC''"
  proof -
    have "dec_string 1970 = ''1970''" "dec_string 1 = ''1''" "dec_string 5 = ''5''" "dec_string 0 = ''0''" by code_simp+
    then show ?thesis by (simp add: b_fmt_utc_from_us_def day_one_def Let_def pad2_def dec_time_def)
  qed
  finally show ?thesis .
qed

section \<open>JSON\<close>

text \<open>A reference printer of JSON documents with the escapes of RFC 8259.\<close>

datatype json = JStr string | JNum int | JBool bool | JArr "json list" | JObj "(string \<times> json) list"

definition json_escape :: "char \<Rightarrow> string" where
  "json_escape c =
     (if c = CHR 0x22 \<or> c = CHR 0x5C then [CHR 0x5C, c]
      else if (of_char c :: nat) < 32 then CHR 0x5C # ''u00'' @ [hex_digit (of_char c div 16), hex_digit (of_char c mod 16)]
      else [c])"

definition json_string :: "string \<Rightarrow> string" where
  "json_string s = ''\"'' @ concat (map json_escape s) @ ''\"''"

fun json_text :: "json \<Rightarrow> string" and json_items :: "bool \<Rightarrow> json list \<Rightarrow> string"
  and json_fields :: "bool \<Rightarrow> (string \<times> json) list \<Rightarrow> string" where
  "json_text (JStr s) = json_string s"
| "json_text (JNum i) = dec_time i"
| "json_text (JBool v) = (if v then ''true'' else ''false'')"
| "json_text (JArr xs) = ''['' @ json_items True xs @ '']''"
| "json_text (JObj kvs) = ''{'' @ json_fields True kvs @ ''}''"
| "json_items first [] = []"
| "json_items first (x # xs) = (if first then [] else '','') @ json_text x @ json_items False xs"
| "json_fields first [] = []"
| "json_fields first ((k, v) # kvs) = (if first then [] else '','') @ json_string k @ '':'' @ json_text v @ json_fields False kvs"

text \<open>Strings that need no escape.\<close>

definition json_plain :: "string \<Rightarrow> bool" where
  "json_plain s \<longleftrightarrow> list_all (\<lambda>c. c \<noteq> CHR 0x22 \<and> c \<noteq> CHR 0x5C \<and> 32 \<le> (of_char c :: nat)) s"

lemma json_plain_string: "json_plain s \<Longrightarrow> json_string s = ''\"'' @ s @ ''\"''"
proof -
  assume "json_plain s"
  then have "concat (map json_escape s) = s"
    by (induction s) (auto simp: json_plain_def json_escape_def)
  then show ?thesis by (simp add: json_string_def)
qed

lemma u_text_num: "json_text (JNum (uint w)) = u_text w"
  by (simp add: dec_time_def u_text_def)

text \<open>The document of the list command: one object per selected broadcast, and their number.\<close>

definition entry_doc :: "room \<Rightarrow> json" where
  "entry_doc r =
     (let b = rm_b r in
      JObj [(''name'', JStr (b_name b)), (''uuid'', JStr (b_uuid_str b)), (''profile'', JStr (profile_name b)),
        (''listeners'', JNum (uint (b_listener_count b))), (''speaker_id'', JNum (uint (the (speaker_id r)))),
        (''recording'', JBool (has_flag (b_cflags b) BFLAG_RECORDING))])"

definition entry_plain :: "room \<Rightarrow> bool" where
  "entry_plain r \<longleftrightarrow> json_plain (b_name (rm_b r)) \<and> json_plain (b_uuid_str (rm_b r)) \<and> json_plain (profile_name (rm_b r))"

text \<open>
  What the module prints: the document with its strings put between quotes as they are. It is never longer
  than the escaped printing, and as long only when no string needs an escape.
\<close>

fun json_raw :: "json \<Rightarrow> string" and raw_items :: "bool \<Rightarrow> json list \<Rightarrow> string"
  and raw_fields :: "bool \<Rightarrow> (string \<times> json) list \<Rightarrow> string" where
  "json_raw (JStr s) = ''\"'' @ s @ ''\"''"
| "json_raw (JNum i) = dec_time i"
| "json_raw (JBool v) = (if v then ''true'' else ''false'')"
| "json_raw (JArr xs) = ''['' @ raw_items True xs @ '']''"
| "json_raw (JObj kvs) = ''{'' @ raw_fields True kvs @ ''}''"
| "raw_items first [] = []"
| "raw_items first (x # xs) = (if first then [] else '','') @ json_raw x @ raw_items False xs"
| "raw_fields first [] = []"
| "raw_fields first ((k, v) # kvs) = (if first then [] else '','') @ ''\"'' @ k @ ''\"'' @ '':'' @ json_raw v @ raw_fields False kvs"

fun doc_plain :: "json \<Rightarrow> bool" and items_plain :: "json list \<Rightarrow> bool" and fields_plain :: "(string \<times> json) list \<Rightarrow> bool" where
  "doc_plain (JStr s) = json_plain s"
| "doc_plain (JNum i) = True"
| "doc_plain (JBool v) = True"
| "doc_plain (JArr xs) = items_plain xs"
| "doc_plain (JObj kvs) = fields_plain kvs"
| "items_plain [] = True"
| "items_plain (x # xs) = (doc_plain x \<and> items_plain xs)"
| "fields_plain [] = True"
| "fields_plain ((k, v) # kvs) = (json_plain k \<and> doc_plain v \<and> fields_plain kvs)"

lemma items_plain_map: "items_plain xs = list_all doc_plain xs"
  by (induction xs) simp_all

lemma escape_length: "length s \<le> length (concat (map json_escape s)) \<and> (length (concat (map json_escape s)) = length s \<longrightarrow> json_plain s)"
proof (induction s)
  case (Cons c s)
  have "1 \<le> length (json_escape c)" "length (json_escape c) = 1 \<longrightarrow> json_plain [c]"
    by (auto simp: json_escape_def json_plain_def)
  moreover have "json_plain (c # s) \<longleftrightarrow> json_plain [c] \<and> json_plain s" by (auto simp: json_plain_def)
  ultimately show ?case using Cons.IH by auto
qed (simp add: json_plain_def)

lemma string_length: "length (json_string s) = length (''\"'' @ s @ ''\"'') \<longrightarrow> json_plain s"
  "length (''\"'' @ s @ ''\"'') \<le> length (json_string s)"
  using escape_length [of s] by (auto simp: json_string_def)

lemma raw_length:
  "length (json_raw d) \<le> length (json_text d) \<and> (length (json_text d) = length (json_raw d) \<longrightarrow> doc_plain d)"
  "length (raw_items first xs) \<le> length (json_items first xs) \<and> (length (json_items first xs) = length (raw_items first xs) \<longrightarrow> items_plain xs)"
  "length (raw_fields first kvs) \<le> length (json_fields first kvs)
     \<and> (length (json_fields first kvs) = length (raw_fields first kvs) \<longrightarrow> fields_plain kvs)"
proof (induction d and first xs and first kvs rule: json_text_json_items_json_fields.induct)
  case (9 first k v kvs)
  then show ?case using string_length [of k] by auto
qed (use string_length in auto)

lemma plain_raw:
  "doc_plain d \<Longrightarrow> json_text d = json_raw d"
  "items_plain xs \<Longrightarrow> json_items first xs = raw_items first xs"
  "fields_plain kvs \<Longrightarrow> json_fields first kvs = raw_fields first kvs"
  by (induction d and first xs and first kvs rule: json_text_json_items_json_fields.induct) (simp_all add: json_plain_string)

text \<open>So the two printings of a document agree exactly when no string in it needs an escape.\<close>

lemma raw_text_iff: "json_raw d = json_text d \<longleftrightarrow> doc_plain d"
  using raw_length(1) [of d] plain_raw(1) [of d] by auto

definition selected_rooms :: "registry \<Rightarrow> string option \<Rightarrow> (string \<times> baddr) list \<Rightarrow> room list" where
  "selected_rooms reg filt tbl = filter (list_selected filt) (map (\<lambda>(k, a). the (rg_store reg a)) tbl)"

lemma entry_text: "speaker_id r \<noteq> None \<Longrightarrow> list_entry True first r = Some ((if first then '','' else []) @ json_raw (entry_doc r))"
  by (auto simp: list_entry_def entry_doc_def Let_def u_text_num [simplified])

lemma entry_doc_plain: "doc_plain (entry_doc r) = entry_plain r"
  by (simp add: entry_doc_def Let_def entry_plain_def json_plain_def)

lemma list_walk_json:
  assumes "list_all (\<lambda>(k, a). rg_store reg a \<noteq> None) tbl" "list_all (\<lambda>r. speaker_id r \<noteq> None) (selected_rooms reg filt tbl)"
  shows "list_walk reg filt True comma tbl =
     Some (raw_items (\<not> comma) (map entry_doc (selected_rooms reg filt tbl)), of_nat (length (selected_rooms reg filt tbl)))"
  using assms
proof (induction tbl arbitrary: comma)
  case (Cons e tbl)
  obtain k a where e: "e = (k, a)" by (rule prod.exhaust)
  with Cons.prems(1) obtain r where r: "rg_store reg a = Some r" by auto
  show ?case
  proof (cases "list_selected filt r")
    case False
    with Cons e r show ?thesis by (simp add: selected_rooms_def)
  next
    case True
    with Cons e r have "list_walk reg filt True True tbl =
        Some (raw_items False (map entry_doc (selected_rooms reg filt tbl)), of_nat (length (selected_rooms reg filt tbl)))"
      "speaker_id r \<noteq> None" by (simp_all add: selected_rooms_def)
    with e r True show ?thesis by (simp add: entry_text selected_rooms_def)
  qed
qed (simp add: selected_rooms_def)

text \<open>
  C17. The JSON answer of \<open>list\<close>. For any names the answer is, character for character, the document that has one
  object for each broadcast the filter selects, in the order of the table, and their number, with its strings
  put between quotes as they are; and this is the escaped printing that JSON asks for exactly when no selected
  broadcast's name, uuid or profile name has a character that needs an escape.
\<close>

theorem list_json_document:
  assumes "list_all (\<lambda>(k, a). rg_store reg a \<noteq> None) (g_broadcast_hash (rg_g reg))"
    and "rs = selected_rooms reg filt (g_broadcast_hash (rg_g reg))" "list_all (\<lambda>r. speaker_id r \<noteq> None) rs"
    and "length (g_broadcast_hash (rg_g reg)) < 2 ^ 32"
    and "doc = JObj [(''command'', JStr ''list''), (''broadcasts'', JArr (map entry_doc rs)), (''count'', JNum (int (length rs)))]"
  shows "b_api_list reg filt True = Some (json_raw doc @ ''\<newline>'')
    \<and> (b_api_list reg filt True = Some (json_text doc @ ''\<newline>'') \<longleftrightarrow>
        list_all (\<lambda>r. json_plain (b_name (rm_b r)) \<and> json_plain (b_uuid_str (rm_b r)) \<and> json_plain (profile_name (rm_b r))) rs)"
proof -
  have "length rs < 2 ^ 32" using assms(2,4) length_filter_le unfolding selected_rooms_def
    by (metis (no_types, lifting) le_less_trans length_map)
  then have "unat (of_nat (length rs) :: u32) = length rs" by (simp add: unsigned_of_nat take_bit_nat_eq_self)
  then have n: "u_text (of_nat (length rs)) = dec_time (int (length rs))" by (simp add: u_text_def dec_time_def)
  have "list_walk reg filt True False (g_broadcast_hash (rg_g reg)) = Some (raw_items True (map entry_doc rs), of_nat (length rs))"
    using list_walk_json [OF assms(1), of filt False] assms(2,3) by simp
  then have raw: "b_api_list reg filt True = Some (json_raw doc @ ''\<newline>'')"
    by (simp add: b_api_list_def assms(5) n)
  have "doc_plain doc = list_all entry_plain rs"
    by (simp add: assms(5) items_plain_map list.pred_map comp_def entry_doc_plain) (simp add: json_plain_def)
  moreover have "entry_plain = (\<lambda>r. json_plain (b_name (rm_b r)) \<and> json_plain (b_uuid_str (rm_b r)) \<and> json_plain (profile_name (rm_b r)))"
    by (rule ext) (simp add: entry_plain_def)
  ultimately show ?thesis using raw raw_text_iff [of doc] by simp
qed

definition two_rooms :: registry where
  "two_rooms = \<lparr>rg_g = (rg_g empty_registry)\<lparr>g_broadcast_hash := [(''b'', 1), (''a'', 0)]\<rparr>,
     rg_store = [0 \<mapsto> \<lparr>rm_b = (zero_broadcast 4)\<lparr>b_name := ''a''\<rparr>, rm_heap = Map.empty, rm_served = 0\<rparr>,
                 1 \<mapsto> \<lparr>rm_b = (zero_broadcast 4)\<lparr>b_name := ''b''\<rparr>, rm_heap = Map.empty, rm_served = 0\<rparr>]\<rparr>"

text \<open>A name with a quote in it: the answer is not the document's printing.\<close>

definition quoted_room :: registry where
  "quoted_room = two_rooms\<lparr>rg_store := (rg_store two_rooms)(0 \<mapsto>
     \<lparr>rm_b = (zero_broadcast 4)\<lparr>b_name := ''a\"''\<rparr>, rm_heap = Map.empty, rm_served = 0\<rparr>)\<rparr>"

theorem list_json_document_witness:
  "(\<exists>doc. b_api_list two_rooms None True = Some (json_text doc @ ''\<newline>''))
    \<and> (\<exists>doc. b_api_list quoted_room None True = Some (json_raw doc @ ''\<newline>'') \<and> b_api_list quoted_room None True \<noteq> Some (json_text doc @ ''\<newline>''))"
proof
  note d = two_rooms_def quoted_room_def selected_rooms_def list_selected_def
  note f = json_plain_def profile_name_def speaker_id_def zero_broadcast_def
  define rs where "rs = selected_rooms two_rooms None (g_broadcast_hash (rg_g two_rooms))"
  have r: "list_all (\<lambda>r. speaker_id r \<noteq> None) rs"
    "list_all (\<lambda>r. json_plain (b_name (rm_b r)) \<and> json_plain (b_uuid_str (rm_b r)) \<and> json_plain (profile_name (rm_b r))) rs"
    by (simp_all add: rs_def d) (simp_all add: f)
  have t: "list_all (\<lambda>(k, a). rg_store two_rooms a \<noteq> None) (g_broadcast_hash (rg_g two_rooms))"
    "length (g_broadcast_hash (rg_g two_rooms)) < 2 ^ 32" by (simp_all add: two_rooms_def)
  show "\<exists>doc. b_api_list two_rooms None True = Some (json_text doc @ ''\<newline>'')"
    using list_json_document [OF t(1) rs_def r(1) t(2) refl] r(2) by blast
next
  note d = two_rooms_def quoted_room_def selected_rooms_def list_selected_def
  note f = json_plain_def profile_name_def speaker_id_def zero_broadcast_def
  define rs where "rs = selected_rooms quoted_room None (g_broadcast_hash (rg_g quoted_room))"
  have r: "list_all (\<lambda>r. speaker_id r \<noteq> None) rs"
    "\<not> list_all (\<lambda>r. json_plain (b_name (rm_b r)) \<and> json_plain (b_uuid_str (rm_b r)) \<and> json_plain (profile_name (rm_b r))) rs"
    by (simp_all add: rs_def d) (simp_all add: f)
  have t: "list_all (\<lambda>(k, a). rg_store quoted_room a \<noteq> None) (g_broadcast_hash (rg_g quoted_room))"
    "length (g_broadcast_hash (rg_g quoted_room)) < 2 ^ 32" by (simp_all add: two_rooms_def quoted_room_def)
  show "\<exists>doc. b_api_list quoted_room None True = Some (json_raw doc @ ''\<newline>'') \<and> b_api_list quoted_room None True \<noteq> Some (json_text doc @ ''\<newline>'')"
    using list_json_document [OF t(1) rs_def r(1) t(2) refl] r(2) by blast
qed

lemma list_walk_text:
  assumes "list_all (\<lambda>(k, a). rg_store reg a \<noteq> None) tbl"
  shows "list_walk reg filt False comma tbl =
     Some (concat (map (\<lambda>r. b_name (rm_b r) @ ''  listeners='' @ u_text (b_listener_count (rm_b r)) @ ''\<newline>'') (selected_rooms reg filt tbl)),
       of_nat (length (selected_rooms reg filt tbl)))"
  using assms
proof (induction tbl arbitrary: comma)
  case (Cons e tbl)
  obtain k a where e: "e = (k, a)" by (rule prod.exhaust)
  with Cons.prems(1) obtain r where "rg_store reg a = Some r" by auto
  with Cons e show ?case by (simp add: selected_rooms_def list_entry_def Let_def)
qed (simp add: selected_rooms_def)

section \<open>The list of listeners\<close>

lemma list_members_dll: "dll h pr p xs lst None \<Longrightarrow> list_members h p = Some (map (\<lambda>x. the (h x)) xs)"
proof (induction xs arbitrary: pr p)
  case Nil
  then show ?case by (subst list_members.simps) simp
next
  case (Cons x xs)
  then obtain m where m: "p = Some x" "h x = Some m" "dll h (Some x) (m_next m) xs lst None" by (auto simp: lk_Some)
  from Cons.IH [OF m(3)] m(1,2) show ?case by (subst list_members.simps) simp
qed

definition listener_doc :: "usec \<Rightarrow> u64 \<Rightarrow> member_obj \<Rightarrow> json" where
  "listener_doc now pseq m =
     JObj [(''id'', JNum (uint (m_id m))), (''uuid'', JStr (printed (m_uuid m))), (''lag'', JNum (uint (lag_of pseq (m_consumer_seq m)))),
       (''resync'', JNum (uint (m_resync_count m))), (''last_tick_ms_ago'', JNum (tick_ms_ago now (m_last_seen_seq_advance m)))]"

lemma listener_lines_json:
  assumes "list_all (\<lambda>m. json_plain (printed (m_uuid m))) ms"
  shows "listener_lines now pseq True first ms = json_items first (map (listener_doc now pseq) ms)"
  using assms
proof (induction ms arbitrary: first)
  case (Cons m ms)
  have k: "json_string ''id'' = ''\"id\"''" "json_string ''uuid'' = ''\"uuid\"''" "json_string ''lag'' = ''\"lag\"''"
    "json_string ''resync'' = ''\"resync\"''" "json_string ''last_tick_ms_ago'' = ''\"last_tick_ms_ago\"''"
    by (simp_all add: json_plain_string json_plain_def)
  have n: "dec_time (uint w) = u64_text w" for w by (simp add: dec_time_def u64_text_def)
  from Cons show ?case
    by (simp add: listener_line_def listener_doc_def Let_def k n json_plain_string u_text_num [simplified])
qed simp

text \<open>
  The JSON answer of \<open>listeners\<close> is the printing of a document with one object for each member on the list, newest
  first, each with its lag behind the producer; for uuids that need no escape.
\<close>

theorem listeners_json_document:
  assumes "listener_rep r xs" "list_all (\<lambda>x. json_plain (printed (m_uuid (the (rm_heap r x))))) xs"
  shows "b_api_listeners now r True = Some (json_text (JObj [(''command'', JStr ''listeners''),
      (''members'', JArr (map (\<lambda>x. listener_doc now (b_producer_seq (rm_b r)) (the (rm_heap r x))) xs))]) @ ''\<newline>'')"
proof -
  obtain lst where "dll (rm_heap r) None (b_listener_head (rm_b r)) xs lst None"
    using assms(1) by (auto simp: listener_rep_def)
  from list_members_dll [OF this] have m: "list_members (rm_heap r) (b_listener_head (rm_b r)) = Some (map (\<lambda>x. the (rm_heap r x)) xs)" .
  have k: "json_string ''command'' = ''\"command\"''" "json_string ''listeners'' = ''\"listeners\"''"
    "json_string ''members'' = ''\"members\"''" by (simp_all add: json_plain_string json_plain_def)
  have "list_all (\<lambda>m. json_plain (printed (m_uuid m))) (map (\<lambda>x. the (rm_heap r x)) xs)"
    using assms(2) by (simp add: list_all_iff)
  from listener_lines_json [OF this] show ?thesis by (simp add: b_api_listeners_def m k comp_def)
qed

theorem listeners_json_document_witness:
  "b_api_listeners 9 two_member_room True = Some (json_text (JObj [(''command'', JStr ''listeners''), (''members'', JArr [])]) @ ''\<newline>'')"
  by (subst listeners_json_document [where xs = "[]"]) (simp_all add: two_member_room_rep)

section \<open>The list of recordings\<close>

definition rec_doc :: "rec_handle \<Rightarrow> rec_consumer \<Rightarrow> json" where
  "rec_doc fh rec = JObj [(''path'', JStr (rc_target rec)), (''bytes_approx'', JNum (uint (bytes_approx fh rec)))]"

lemma rec_doc_text:
  "json_plain (rc_target rec) \<Longrightarrow>
   ''{\"path\":\"'' @ rc_target rec @ ''\",\"bytes_approx\":'' @ u64_text (bytes_approx fh rec) @ ''}'' = json_text (rec_doc fh rec)"
proof -
  assume p: "json_plain (rc_target rec)"
  have "json_string ''path'' = ''\"path\"''" "json_string ''bytes_approx'' = ''\"bytes_approx\"''"
    by (simp_all add: json_plain_string json_plain_def)
  with p show ?thesis by (simp add: rec_doc_def json_plain_string dec_time_def u64_text_def)
qed

lemma rec_json_add_bound: "length s \<le> 1535 \<Longrightarrow> length (rec_json_add fh rec s) \<le> 1535"
proof -
  assume s: "length s \<le> 1535"
  have "length u \<le> 1535 \<Longrightarrow> length (u @ take (1536 - length u - 1) v) \<le> 1535" for u v :: string by simp
  moreover have "length (if 1 < length s \<and> length s + 2 < 1536 then s @ '','' else s) \<le> 1535" using s by simp
  ultimately show ?thesis unfolding rec_json_add_def Let_def by blast
qed

lemma rec_json_fold_bound: "length s \<le> 1535 \<Longrightarrow> length (fold (rec_json_add fh) recs s) \<le> 1535"
  by (induction recs arbitrary: s) (simp_all add: rec_json_add_bound)

lemma rec_json_fold:
  assumes "list_all (\<lambda>rec. json_plain (rc_target rec)) recs" "s \<noteq> []"
    and "length (s @ json_items (length s = 1) (map (rec_doc fh) recs)) \<le> 1533"
  shows "fold (rec_json_add fh) recs s = s @ json_items (length s = 1) (map (rec_doc fh) recs)"
  using assms
proof (induction recs arbitrary: s)
  case (Cons rec recs)
  let ?t = "json_text (rec_doc fh rec)"
  have p: "json_plain (rc_target rec)" using Cons.prems(1) by simp
  have t: "?t \<noteq> []" by (simp add: rec_doc_def)
  have c: "length s \<le> 1533" using Cons.prems(3) by simp
  have add: "rec_json_add fh rec s = s @ (if length s = 1 then [] else '','') @ ?t"
  proof (cases "length s = 1")
    case True
    with Cons.prems(3) show ?thesis unfolding rec_json_add_def rec_doc_text [OF p] by (simp add: Let_def)
  next
    case False
    with Cons.prems(2) have "1 < length s" by (cases s) auto
    with False Cons.prems(3) c show ?thesis unfolding rec_json_add_def rec_doc_text [OF p] by (simp add: Let_def)
  qed
  have "length (s @ (if length s = 1 then [] else '','') @ ?t) \<noteq> 1" using t Cons.prems(2) by (cases s; cases ?t) auto
  with Cons.IH [of "rec_json_add fh rec s"] Cons.prems add show ?case by (simp add: add)
qed simp

text \<open>
  C36. The recordings in the JSON answer of \<open>info\<close> never overflow their buffer of 1536 bytes; they are the printing of the array with
  path and size of each recording whenever that printing has at most 1534 characters; and a single path
  of 1536 characters or more leaves the array cut off, with no closing bracket.
\<close>

theorem recordings_json_cut:
  "length (recordings_json fh recs) < 1536
   \<and> (list_all (\<lambda>rec. json_plain (rc_target rec)) recs \<and> length (json_text (JArr (map (rec_doc fh) recs))) \<le> 1534 \<longrightarrow>
        recordings_json fh recs = json_text (JArr (map (rec_doc fh) recs)))
   \<and> (1536 \<le> length (rc_target rec) \<longrightarrow> recordings_json fh [rec] = ''[{\"path\":\"'' @ take 1525 (rc_target rec))"
proof (intro conjI impI)
  show "length (recordings_json fh recs) < 1536"
    using rec_json_fold_bound [of "''[''" fh recs] by (simp add: recordings_json_def Let_def)
next
  assume p: "list_all (\<lambda>rec. json_plain (rc_target rec)) recs \<and> length (json_text (JArr (map (rec_doc fh) recs))) \<le> 1534"
  then have "fold (rec_json_add fh) recs ''['' = ''['' @ json_items True (map (rec_doc fh) recs)"
    using rec_json_fold [of recs "''[''" fh] by simp
  with p show "recordings_json fh recs = json_text (JArr (map (rec_doc fh) recs))" by (simp add: recordings_json_def Let_def)
next
  assume "1536 \<le> length (rc_target rec)"
  then show "recordings_json fh [rec] = ''[{\"path\":\"'' @ take 1525 (rc_target rec)"
    by (simp add: recordings_json_def rec_json_add_def Let_def)
qed

theorem recordings_json_cut_witness:
  "recordings_json (\<lambda>rec. (8000, 1)) [rec_new ''/tmp/a.wav'' live_broadcast] =
     json_text (JArr [rec_doc (\<lambda>rec. (8000, 1)) (rec_new ''/tmp/a.wav'' live_broadcast)])
   \<and> recordings_json (\<lambda>rec. (8000, 1)) [rec_new (replicate 1536 (CHR ''a'')) live_broadcast] =
     ''[{\"path\":\"'' @ take 1525 (replicate 1536 (CHR ''a''))"
proof -
  let ?fh = "\<lambda>rec :: rec_consumer. (8000 :: u64, 1 :: u32)"
  let ?a = "rec_new ''/tmp/a.wav'' live_broadcast"
  have p: "json_plain (rc_target ?a)" by (simp add: rec_new_def json_plain_def)
  have "length (dec_string 16000) \<le> 5" by (intro dec_string_length) simp_all
  moreover have "u64_text (bytes_approx ?fh ?a) = dec_string 16000" by (simp add: bytes_approx_def u64_text_def u64_of_def)
  ultimately have "length (json_text (JArr (map (rec_doc ?fh) [?a]))) \<le> 1534"
    by (simp add: rec_doc_text [OF p, symmetric]) (simp add: rec_new_def)
  with p recordings_json_cut [of ?fh "[?a]" "rec_new (replicate 1536 (CHR ''a'')) live_broadcast"] show ?thesis
    by (simp add: rec_new_def)
qed

end
