(* ===== verification/Api.thy ===== *)
theory Api
  imports Api_Report
begin

text \<open>
  The command side of broadcast_api.c: finding and pinning the member a command names, the commands on one
  broadcast, the global ones, and the dispatcher. An answer is what is written to the stream. \<open>None\<close> is an
  access to a freed object, or a wait still going on.
\<close>

section \<open>What a command gets from outside\<close>

text \<open>
  The clock and the core's conversions; which sessions can be located; what other threads do between the
  pinning of a session and the second lookup; the polls of a promotion; the outcomes of recording
  and of opening a file to play, with the handle it was allocated; the calls of a teardown and of a reload.
\<close>

record api_io =
  ap_now :: usec
  ap_exp_lt :: "usec \<Rightarrow> time_exp option"
  ap_handle :: rec_handle
  ap_locate :: "string \<Rightarrow> bool"
  ap_malloc :: bool
  ap_pinned :: "room \<Rightarrow> room"
  ap_polls :: "(usec \<times> (room \<Rightarrow> room)) list"
  ap_prep :: prep_io
  ap_rec_pool :: bool
  ap_rec_fopen :: "string \<Rightarrow> u8 \<Rightarrow> u32 \<Rightarrow> switch_status"
  ap_rec_thread :: bool
  ap_play_fh :: nat
  ap_play_fopen :: "string \<Rightarrow> u8 \<Rightarrow> u32 \<Rightarrow> switch_status"
  ap_destroy :: destroy_io
  ap_config_pool :: bool
  ap_config :: "xcfg option"

text \<open>What a command on a broadcast leaves: its answer, the room, the sessions hung up and the digits sent to sessions.\<close>

record api_effect =
  ae_text :: string
  ae_room :: room
  ae_hangups :: "hangup list"
  ae_digits :: "(maddr \<times> string) list"

definition answer :: "string \<Rightarrow> room \<Rightarrow> api_effect" where
  "answer t r = \<lparr>ae_text = t, ae_room = r, ae_hangups = [], ae_digits = []\<rparr>"

abbreviation "OK_TEXT \<equiv> ''+OK\<newline>''"
abbreviation "ERR_TEXT \<equiv> ''-ERR\<newline>''"

section \<open>Pinning a member\<close>

text \<open>The uuid of the member with that id, copied under the list's lock or else the speaker's.\<close>

definition pinned_uuid :: "copy_string \<Rightarrow> room \<Rightarrow> u32 \<Rightarrow> string option" where
  "pinned_uuid cpy r i = do {
     found \<leftarrow> list_find (\<lambda>x m. m_id m = i) (rm_heap r) (b_listener_head (rm_b r));
     u \<leftarrow> (case found of None \<Rightarrow> Some [] | Some x \<Rightarrow> map_option (\<lambda>m. copied cpy 64 (m_uuid m)) (rm_heap r x));
     (if u \<noteq> [] then Some u
      else
        (case b_current_speaker (rm_b r) of
           None \<Rightarrow> Some []
         | Some s \<Rightarrow> map_option (\<lambda>m. if m_id m = i then copied cpy 64 (m_uuid m) else []) (rm_heap r s))) }"

text \<open>The member, with its session pinned, and the room as the other threads have left it by then.\<close>

definition b_find_member_pinned :: "copy_string \<Rightarrow> api_io \<Rightarrow> room \<Rightarrow> string \<Rightarrow> (maddr option \<times> room) option" where
  "b_find_member_pinned cpy io r sid =
     (let i = b_parse_member_id sid in
      if i = 0 then Some (None, r)
      else do {
        u \<leftarrow> pinned_uuid cpy r i;
        (if u = [] \<or> \<not> ap_locate io u then Some (None, r)
         else do { found \<leftarrow> b_find_member_by_id_str (ap_pinned io r) sid; Some (found, ap_pinned io r) }) })"

section \<open>Commands on a broadcast\<close>

text \<open>What the words after the broadcast's name ask for.\<close>

datatype api_cmd =
    CmdInfo | CmdListeners | CmdStats | CmdHistogram | CmdProducer | CmdListener string
  | CmdSetSpeaker string | CmdPromote string | CmdClearSpeaker | CmdKick string | CmdKickAll
  | CmdLock | CmdUnlock | CmdPause | CmdResume | CmdRecord string | CmdNoRecord
  | CmdDestroy u32 "string option" | CmdDtmf string string | CmdPlay string | CmdStopPlay | CmdUnknown

definition api_command :: "string list \<Rightarrow> api_cmd" where
  "api_command argv =
     (let n = length argv; w = argv ! 1 in
      if strcaseeq w ''info'' then CmdInfo
      else if strcaseeq w ''listeners'' then CmdListeners
      else if strcaseeq w ''stats'' then CmdStats
      else if strcaseeq w ''producer'' \<and> 3 \<le> n \<and> strcaseeq (argv ! 2) ''histogram'' then CmdHistogram
      else if strcaseeq w ''producer'' then CmdProducer
      else if strcaseeq w ''listener'' \<and> 3 \<le> n then CmdListener (argv ! 2)
      else if strcaseeq w ''set_speaker'' \<and> 3 \<le> n then CmdSetSpeaker (argv ! 2)
      else if strcaseeq w ''promote_listener'' \<and> 3 \<le> n then CmdPromote (argv ! 2)
      else if strcaseeq w ''clear_speaker'' then CmdClearSpeaker
      else if strcaseeq w ''kick'' \<and> 3 \<le> n then CmdKick (argv ! 2)
      else if strcaseeq w ''kick_all'' then CmdKickAll
      else if strcaseeq w ''lock'' then CmdLock
      else if strcaseeq w ''unlock'' then CmdUnlock
      else if strcaseeq w ''pause'' then CmdPause
      else if strcaseeq w ''resume'' then CmdResume
      else if strcaseeq w ''record'' \<and> 3 \<le> n then CmdRecord (argv ! 2)
      else if strcaseeq w ''norecord'' then CmdNoRecord
      else if strcaseeq w ''destroy'' then
        CmdDestroy (if 3 \<le> n then atoi_u32 (argv ! 2) else 0) (if 4 \<le> n then Some (argv ! 3) else None)
      else if strcaseeq w ''dtmf'' \<and> 4 \<le> n then CmdDtmf (argv ! 2) (argv ! 3)
      else if strcaseeq w ''play'' \<and> 3 \<le> n then CmdPlay (argv ! 2)
      else if strcaseeq w ''stop_play'' then CmdStopPlay
      else CmdUnknown)"

definition api_report :: "copy_string \<Rightarrow> api_io \<Rightarrow> bool \<Rightarrow> api_cmd \<Rightarrow> room \<Rightarrow> string option" where
  "api_report cpy io json cmd r =
     (case cmd of
        CmdInfo \<Rightarrow> b_api_info cpy (ap_exp_lt io) (ap_handle io) (ap_now io) r json
      | CmdListeners \<Rightarrow> b_api_listeners (ap_now io) r json
      | CmdStats \<Rightarrow> Some (b_api_stats (rm_b r) json)
      | CmdHistogram \<Rightarrow> Some (b_api_producer_histogram json)
      | CmdProducer \<Rightarrow> Some (b_api_producer (rm_b r) json)
      | CmdListener sid \<Rightarrow> b_api_listener_detail cpy (ap_now io) r sid json
      | _ \<Rightarrow> None)"

text \<open>set_speaker and promote_listener, whose bodies are the same.\<close>

definition api_promote :: "copy_string \<Rightarrow> api_io \<Rightarrow> string \<Rightarrow> room \<Rightarrow> api_effect option" where
  "api_promote cpy io sid r = do {
     (found, r) \<leftarrow> b_find_member_pinned cpy io r sid;
     (case found of
        None \<Rightarrow> Some (answer ERR_TEXT r)
      | Some a \<Rightarrow> do {
          (st, r) \<leftarrow> broadcast_request_promotion cpy (ap_now io) (ap_now io) (ap_now io) (ap_polls io) a r;
          Some (answer (if st = ST_SUCCESS then OK_TEXT else ERR_TEXT) r) }) }"

definition api_clear_speaker :: "api_io \<Rightarrow> room \<Rightarrow> api_effect option" where
  "api_clear_speaker io r = do {
     (st, r, evs) \<leftarrow> broadcast_clear_speaker (ap_prep io) (ap_now io) r;
     Some (answer OK_TEXT r) }"

definition api_kick :: "copy_string \<Rightarrow> api_io \<Rightarrow> string \<Rightarrow> room \<Rightarrow> api_effect option" where
  "api_kick cpy io sid r = do {
     (found, r) \<leftarrow> b_find_member_pinned cpy io r sid;
     (case found of
        None \<Rightarrow> Some (answer ERR_TEXT r)
      | Some a \<Rightarrow> do {
          m \<leftarrow> rm_heap r a;
          (if m_role m = BMEMBER_ROLE_LISTENER then do {
             (r, hs, chan) \<leftarrow> broadcast_kick_listener cpy (ap_now io) (ap_locate io) ''kicked'' a r;
             Some ((answer OK_TEXT r)\<lparr>ae_hangups := hs\<rparr>) }
           else Some (answer ERR_TEXT r)) }) }"

definition api_kick_all :: "copy_string \<Rightarrow> api_io \<Rightarrow> room \<Rightarrow> api_effect option" where
  "api_kick_all cpy io r = do {
     (r, hs) \<leftarrow> broadcast_kick_all_listeners cpy (ap_now io) (ap_locate io) (ap_malloc io) r;
     Some ((answer OK_TEXT r)\<lparr>ae_hangups := hs\<rparr>) }"

text \<open>lock, unlock, pause, resume: the flag and the event.\<close>

definition api_flag :: "copy_string \<Rightarrow> usec \<Rightarrow> (u32 \<Rightarrow> u32) \<Rightarrow> bevt_type \<Rightarrow> room \<Rightarrow> api_effect" where
  "api_flag cpy now f ev r =
     answer OK_TEXT (upd_b (\<lambda>b. broadcast_enqueue_event cpy now (b\<lparr>b_cflags := f (b_cflags b)\<rparr>) ev 0 None) r)"

definition api_record :: "copy_string \<Rightarrow> api_io \<Rightarrow> string \<Rightarrow> room \<Rightarrow> api_effect" where
  "api_record cpy io path r =
     (case broadcast_record_start cpy (ap_now io) None (ap_rec_pool io) (ap_rec_fopen io) (ap_rec_thread io) (rm_b r) (Some path) of
        (st, b) \<Rightarrow> answer (if st = ST_SUCCESS then OK_TEXT else ERR_TEXT) (r\<lparr>rm_b := b\<rparr>))"

definition api_norecord :: "copy_string \<Rightarrow> api_io \<Rightarrow> room \<Rightarrow> api_effect" where
  "api_norecord cpy io r =
     (case broadcast_record_stop cpy (ap_now io) (rm_b r) None of (st, b, stopped) \<Rightarrow> answer OK_TEXT (r\<lparr>rm_b := b\<rparr>))"

definition api_dtmf :: "copy_string \<Rightarrow> api_io \<Rightarrow> string \<Rightarrow> string \<Rightarrow> room \<Rightarrow> api_effect option" where
  "api_dtmf cpy io sid digits r = do {
     (found, r) \<leftarrow> b_find_member_pinned cpy io r sid;
     (case found of
        None \<Rightarrow> Some (answer ERR_TEXT r)
      | Some a \<Rightarrow> do {
          m \<leftarrow> rm_heap r a;
          Some (if m_session m then (answer OK_TEXT r)\<lparr>ae_digits := [(a, digits)]\<rparr> else answer ERR_TEXT r) }) }"

text \<open>The handle is allocated and stored before the file is opened, and stays when that fails.\<close>

definition api_play :: "api_io \<Rightarrow> string \<Rightarrow> room \<Rightarrow> api_effect" where
  "api_play io path r =
     (let b = (rm_b r)\<lparr>b_play_fh := Some (ap_play_fh io)\<rparr> in
      if ap_play_fopen io path (b_channels b) (b_rate b) = ST_SUCCESS
      then answer OK_TEXT (r\<lparr>rm_b := b\<lparr>b_cflags := set_flag (b_cflags b) BFLAG_PLAY_FILE\<rparr>\<rparr>)
      else answer ERR_TEXT (r\<lparr>rm_b := b\<rparr>))"

definition api_room_command :: "copy_string \<Rightarrow> api_io \<Rightarrow> bool \<Rightarrow> api_cmd \<Rightarrow> room \<Rightarrow> api_effect option" where
  "api_room_command cpy io json cmd r =
     (case cmd of
        CmdSetSpeaker sid \<Rightarrow> api_promote cpy io sid r
      | CmdPromote sid \<Rightarrow> api_promote cpy io sid r
      | CmdClearSpeaker \<Rightarrow> api_clear_speaker io r
      | CmdKick sid \<Rightarrow> api_kick cpy io sid r
      | CmdKickAll \<Rightarrow> api_kick_all cpy io r
      | CmdLock \<Rightarrow> Some (api_flag cpy (ap_now io) (\<lambda>w. set_flag w BFLAG_LOCKED) BEVT_LOCK r)
      | CmdUnlock \<Rightarrow> Some (api_flag cpy (ap_now io) (\<lambda>w. clr_flag w BFLAG_LOCKED) BEVT_UNLOCK r)
      | CmdPause \<Rightarrow> Some (api_flag cpy (ap_now io) (\<lambda>w. set_flag w BFLAG_PAUSE) BEVT_PAUSE r)
      | CmdResume \<Rightarrow> Some (api_flag cpy (ap_now io) (\<lambda>w. clr_flag w BFLAG_PAUSE) BEVT_RESUME r)
      | CmdRecord path \<Rightarrow> Some (api_record cpy io path r)
      | CmdNoRecord \<Rightarrow> Some (api_norecord cpy io r)
      | CmdDtmf sid digits \<Rightarrow> api_dtmf cpy io sid digits r
      | CmdPlay path \<Rightarrow> Some (api_play io path r)
      | CmdStopPlay \<Rightarrow> Some (answer OK_TEXT (upd_b stop_play r))
      | CmdUnknown \<Rightarrow> Some (answer ''-ERR unknown subcommand\<newline>'' r)
      | CmdDestroy grace ann \<Rightarrow> None
      | _ \<Rightarrow> map_option (\<lambda>t. answer t r) (api_report cpy io json cmd r))"

section \<open>The dispatcher\<close>

text \<open>The answer, the table, the sessions hung up, the digits sent.\<close>

record api_result =
  ar_text :: string
  ar_reg :: registry
  ar_hangups :: "hangup list"
  ar_digits :: "(maddr \<times> string) list"

definition reply :: "string \<Rightarrow> registry \<Rightarrow> api_result" where
  "reply t reg = \<lparr>ar_text = t, ar_reg = reg, ar_hangups = [], ar_digits = []\<rparr>"

text \<open>A command on a broadcast, under a reference of its own, which the teardown takes over.\<close>

definition api_broadcast :: "copy_string \<Rightarrow> api_io \<Rightarrow> bool \<Rightarrow> string list \<Rightarrow> registry \<Rightarrow> api_result option" where
  "api_broadcast cpy io json argv reg = do {
     (found, reg) \<leftarrow> broadcast_find_and_ref (Some (argv ! 0)) reg;
     (case found of
        None \<Rightarrow> Some (reply (if json then ''{\"result\":\"error\",\"detail\":\"no such broadcast\"}\<newline>'' else ''-ERR no such broadcast\<newline>'') reg)
      | Some a \<Rightarrow>
          (case api_command argv of
             CmdDestroy grace ann \<Rightarrow>
               (case broadcast_destroy_ex cpy (ap_destroy io) a grace ann reg of
                  Destroyed d \<Rightarrow> Some ((reply OK_TEXT (ds_reg d))\<lparr>ar_hangups := ds_hangups d\<rparr>)
                | UseAfterFree \<Rightarrow> None | Waiting \<Rightarrow> None)
           | cmd \<Rightarrow> do {
               r \<leftarrow> fetch_room a reg;
               e \<leftarrow> api_room_command cpy io json cmd r;
               reg \<leftarrow> broadcast_release (Some a) (store_room a (ae_room e) reg);
               Some \<lparr>ar_text = ae_text e, ar_reg = reg, ar_hangups = ae_hangups e, ar_digits = ae_digits e\<rparr> })) }"

definition api_reload :: "copy_string \<Rightarrow> (string \<Rightarrow> bool) \<Rightarrow> api_io \<Rightarrow> bool \<Rightarrow> registry \<Rightarrow> api_result" where
  "api_reload cpy strue io json reg =
     (case broadcast_config_reload cpy strue (ap_config_pool io) (ap_config io) (rg_g reg) of (st, g) \<Rightarrow>
        reply (if st = ST_SUCCESS then (if json then ''{\"command\":\"reload\",\"result\":\"ok\"}\<newline>'' else OK_TEXT)
               else (if json then ''{\"command\":\"reload\",\"result\":\"error\"}\<newline>'' else ERR_TEXT)) (reg\<lparr>rg_g := g\<rparr>))"

definition api_words :: "copy_string \<Rightarrow> (string \<Rightarrow> bool) \<Rightarrow> api_io \<Rightarrow> bool \<Rightarrow> string list \<Rightarrow> registry \<Rightarrow> api_result option" where
  "api_words cpy strue io json argv reg =
     (if argv = [] \<or> argv ! 0 = [] then
        Some (reply (if json then ''{\"command\":\"\",\"result\":\"error\",\"detail\":\"usage\"}\<newline>'' else ''-ERR usage\<newline>'') reg)
      else if strcaseeq (argv ! 0) ''version'' then
        Some (reply (if json then ''{\"command\":\"version\",\"version\":\"'' @ BROADCAST_MODULE_VERSION @ ''\"}\<newline>''
                     else BROADCAST_MODULE_VERSION @ ''\<newline>'') reg)
      else if strcaseeq (argv ! 0) ''reload'' then Some (api_reload cpy strue io json reg)
      else if strcaseeq (argv ! 0) ''list'' then
        map_option (\<lambda>t. reply t reg) (b_api_list reg (if 1 < length argv then Some (argv ! 1) else None) json)
      else if strcaseeq (argv ! 0) ''stats'' then map_option (\<lambda>t. reply t reg) (b_api_module_stats (ap_now io) reg json)
      else if length argv < 2 then Some (reply ERR_TEXT reg)
      else api_broadcast cpy io json argv reg)"

definition broadcast_api_dispatch ::
  "copy_string \<Rightarrow> separate \<Rightarrow> (string \<Rightarrow> bool) \<Rightarrow> api_io \<Rightarrow> string option \<Rightarrow> bool \<Rightarrow> registry \<Rightarrow> api_result option" where
  "broadcast_api_dispatch cpy sep strue io cmd json reg =
     (if zstr cmd then Some (reply ERR_TEXT reg)
      else
        let p = dropWhile (\<lambda>c. c = CHR '' '') (the cmd);
            p = (if has_case_prefix ''broadcast '' p then drop 10 p else p);
            json_mode = (json \<or> has_case_prefix ''--json '' p);
            p = (if has_case_prefix ''--json '' p then drop 7 p else p)
        in api_words cpy strue io json_mode (sep (cpy p 4096) (CHR '' '') 31) reg)"

section \<open>Lemmas on lookup\<close>

definition api_calm :: "api_io \<Rightarrow> bool" where
  "api_calm io \<longleftrightarrow> keeps_tag (ap_pinned io) \<and> list_all (\<lambda>(t, f). keeps_tag f) (ap_polls io)"

lemma list_find_hit: "list_find P h p = Some (Some x) \<Longrightarrow> \<exists>m. h x = Some m \<and> P x m"
proof -
  assume "list_find P h p = Some (Some x)"
  then have "(case ((P, h), p) of ((P, h), p) \<Rightarrow> \<lambda>res. \<forall>x. res = Some x \<longrightarrow> (\<exists>m. h x = Some m \<and> P x m)) (Some x)"
  proof (rule list_find.raw_induct [rotated])
    fix self P h p res
    assume ih: "\<And>P h p res. self P h p = Some res \<Longrightarrow>
        (case ((P, h), p) of ((P, h), p) \<Rightarrow> \<lambda>res. \<forall>x. res = Some x \<longrightarrow> (\<exists>m. h x = Some m \<and> P x m)) res"
      and r: "(case p of None \<Rightarrow> Some None | Some x \<Rightarrow> Option.bind (h x) (\<lambda>m. if P x m then Some (Some x) else self P h (m_next m))) = Some res"
    show "(case ((P, h), p) of ((P, h), p) \<Rightarrow> \<lambda>res. \<forall>x. res = Some x \<longrightarrow> (\<exists>m. h x = Some m \<and> P x m)) res"
    proof (cases p)
      case None
      with r show ?thesis by simp
    next
      case (Some y)
      with r obtain m where m: "h y = Some m" "(if P y m then Some (Some y) else self P h (m_next m)) = Some res"
        by (auto simp: bind_eq_Some_conv)
      with ih [of P h "m_next m" res] show ?thesis by (cases "P y m") auto
    qed
  qed
  then show ?thesis by simp
qed

lemma find_by_id_hit:
  assumes "b_find_member_by_id_str r sid = Some (Some a)"
  shows "\<exists>m. rm_heap r a = Some m \<and> m_id m = b_parse_member_id sid"
  using assms list_find_hit [of "\<lambda>x m. m_id m = b_parse_member_id sid" "rm_heap r" "b_listener_head (rm_b r)" a]
  by (auto simp: b_find_member_by_id_str_def Let_def bind_eq_Some_conv split: if_splits option.splits)

lemma find_pinned_room: "b_find_member_pinned cpy io r sid = Some (found, r') \<Longrightarrow> r' = r \<or> r' = ap_pinned io r"
  by (auto simp: b_find_member_pinned_def Let_def bind_eq_Some_conv split: if_splits)

lemma find_pinned_hit:
  assumes "b_find_member_pinned cpy io r sid = Some (Some a, r')"
  shows "r' = ap_pinned io r" "\<exists>m. rm_heap r' a = Some m \<and> m_id m = b_parse_member_id sid" "b_parse_member_id sid \<noteq> 0"
    "\<exists>u. pinned_uuid cpy r (b_parse_member_id sid) = Some u \<and> u \<noteq> [] \<and> ap_locate io u"
  using assms find_by_id_hit [of "ap_pinned io r" sid a]
  by (auto simp: b_find_member_pinned_def Let_def bind_eq_Some_conv split: if_splits)

section \<open>Lemmas on references\<close>

lemma find_pinned_tag: "b_find_member_pinned cpy io r sid = Some (found, r') \<Longrightarrow> api_calm io \<Longrightarrow> room_tag r' = room_tag r"
  by (auto simp: api_calm_def dest: find_pinned_room)

lemma answer_sel [simp]: "ae_room (answer t r) = r" "ae_text (answer t r) = t" "ae_hangups (answer t r) = []"
  by (simp_all add: answer_def)

lemma api_promote_tag: "api_promote cpy io sid r = Some e \<Longrightarrow> api_calm io \<Longrightarrow> room_tag (ae_room e) = room_tag r"
proof -
  assume a: "api_promote cpy io sid r = Some e" "api_calm io"
  then obtain found r1 where f: "b_find_member_pinned cpy io r sid = Some (found, r1)"
    by (auto simp: api_promote_def bind_eq_Some_conv)
  note t = find_pinned_tag [OF f a(2)]
  from a(2) have "list_all (\<lambda>(t, f). keeps_tag f) (ap_polls io)" by (simp add: api_calm_def)
  with a(1) f t show ?thesis
    by (cases found) (auto simp: api_promote_def bind_eq_Some_conv dest!: request_promotion_tag)
qed

lemma api_clear_tag: "api_clear_speaker io r = Some e \<Longrightarrow> room_tag (ae_room e) = room_tag r"
  by (auto simp: api_clear_speaker_def bind_eq_Some_conv dest!: clear_speaker_tag)

lemma api_kick_tag: "api_kick cpy io sid r = Some e \<Longrightarrow> api_calm io \<Longrightarrow> room_tag (ae_room e) = room_tag r"
proof -
  assume a: "api_kick cpy io sid r = Some e" "api_calm io"
  then obtain found r1 where f: "b_find_member_pinned cpy io r sid = Some (found, r1)"
    by (auto simp: api_kick_def bind_eq_Some_conv)
  from a(1) f find_pinned_tag [OF f a(2)] show ?thesis
    by (cases found) (auto simp: api_kick_def bind_eq_Some_conv split: if_splits dest!: kick_listener_tag)
qed

lemma api_kick_all_tag: "api_kick_all cpy io r = Some e \<Longrightarrow> room_tag (ae_room e) = room_tag r"
  by (auto simp: api_kick_all_def bind_eq_Some_conv dest!: kick_all_tag)

lemma api_dtmf_tag: "api_dtmf cpy io sid ds r = Some e \<Longrightarrow> api_calm io \<Longrightarrow> room_tag (ae_room e) = room_tag r"
proof -
  assume a: "api_dtmf cpy io sid ds r = Some e" "api_calm io"
  then obtain found r1 where f: "b_find_member_pinned cpy io r sid = Some (found, r1)"
    by (auto simp: api_dtmf_def bind_eq_Some_conv)
  from a(1) f find_pinned_tag [OF f a(2)] show ?thesis
    by (cases found) (auto simp: api_dtmf_def bind_eq_Some_conv)
qed

lemma api_local_tag:
  "room_tag (ae_room (api_flag cpy now f ev r)) = room_tag r" "room_tag (ae_room (api_record cpy io path r)) = room_tag r"
  "room_tag (ae_room (api_norecord cpy io r)) = room_tag r" "room_tag (ae_room (api_play io path r)) = room_tag r"
  "room_tag (upd_b stop_play r) = room_tag r"
  by (auto simp: api_flag_def api_record_def api_norecord_def api_play_def room_tag_def stop_play_def Let_def split: prod.split
      dest: record_start_tag record_stop_tag)

lemma api_room_tag: "api_room_command cpy io json cmd r = Some e \<Longrightarrow> api_calm io \<Longrightarrow> room_tag (ae_room e) = room_tag r"
proof (cases cmd)
  case (CmdDestroy grace ann)
  assume "api_room_command cpy io json cmd r = Some e"
  with CmdDestroy show ?thesis by (simp add: api_room_command_def)
qed (auto simp: api_room_command_def api_local_tag dest: api_promote_tag api_clear_tag api_kick_tag api_kick_all_tag api_dtmf_tag)

definition is_destroy :: "api_cmd \<Rightarrow> bool" where
  "is_destroy cmd = (case cmd of CmdDestroy grace ann \<Rightarrow> True | _ \<Rightarrow> False)"

lemma api_broadcast_parts:
  assumes "api_broadcast cpy io json argv reg = Some res" "\<not> is_destroy (api_command argv)"
    and "broadcast_find_and_ref (Some (argv ! 0)) reg = Some (Some a, reg1)"
  obtains r e where "fetch_room a reg1 = Some r" "api_room_command cpy io json (api_command argv) r = Some e"
    "broadcast_release (Some a) (store_room a (ae_room e) reg1) = Some (ar_reg res)" "ar_text res = ae_text e"
  using assms by (cases "api_command argv") (auto simp: api_broadcast_def is_destroy_def bind_eq_Some_conv)

lemma find_and_ref_parts:
  assumes "broadcast_find_and_ref name reg = Some (found, reg1)"
  obtains (none) "found = None" "reg1 = reg"
    | (some) a r where "found = Some a" "rg_store reg a = Some r"
      "reg1 = reg\<lparr>rg_store := (rg_store reg)(a \<mapsto> upd_b (\<lambda>b. b\<lparr>b_live_refs := b_live_refs b + 1\<rparr>) r)\<rparr>"
      "\<not> zstr name" "hash_lookup reg (the name) = Some a"
  using assms by (auto simp: broadcast_find_and_ref_def bind_eq_Some_conv split: if_splits option.splits)

lemma release_max:
  "broadcast_release (Some a) (store_room a r reg) = Some reg' \<Longrightarrow> g_max_broadcasts (rg_g reg') = g_max_broadcasts (rg_g reg)"
  by (auto simp: broadcast_release_def store_room_def)

text \<open>The table's invariant depends on names and counters only.\<close>

lemma rg_inv_tags:
  assumes "rg_inv reg" "\<And>x. map_option room_tag (rg_store reg' x) = map_option room_tag (rg_store reg x)"
    and "g_broadcast_hash (rg_g reg') = g_broadcast_hash (rg_g reg)" "g_active_broadcasts (rg_g reg') = g_active_broadcasts (rg_g reg)"
    and "g_max_broadcasts (rg_g reg') = g_max_broadcasts (rg_g reg)"
  shows "rg_inv reg'"
proof -
  have "(\<exists>r. rg_store reg' x = Some r \<and> b_name (rm_b r) = k) = (\<exists>r. rg_store reg x = Some r \<and> b_name (rm_b r) = k)" for x k
    using assms(2) [of x] by (cases "rg_store reg x"; cases "rg_store reg' x") (auto simp: room_tag_def)
  with assms show ?thesis by (simp add: rg_inv_def)
qed

section \<open>Examples\<close>

definition calm_api :: api_io where
  "calm_api = \<lparr>ap_now = 9, ap_exp_lt = day_one, ap_handle = (\<lambda>rec. (8000, 1)), ap_locate = (\<lambda>u. True), ap_malloc = True,
     ap_pinned = (\<lambda>r. r), ap_polls = [], ap_prep = calm_prep, ap_rec_pool = True, ap_rec_fopen = (\<lambda>p c h. ST_SUCCESS),
     ap_rec_thread = True, ap_play_fh = 5, ap_play_fopen = (\<lambda>p c h. ST_FALSE), ap_destroy = quiet_destroy,
     ap_config_pool = True, ap_config = None\<rparr>"

lemma calm_api_calm: "api_calm calm_api"
  by (simp add: api_calm_def calm_api_def)

text \<open>A room with one member, whose id is 1, on the list.\<close>

definition named_room :: room where
  "named_room = \<lparr>rm_b = (zero_broadcast 4)\<lparr>b_name := ''a'', b_profile := Some zero_profile, b_listener_head := Some 3,
     b_listener_count := 1, b_stat_peak_listeners := 1, b_cflags := BFLAG_PLAY_FILE\<rparr>,
     rm_heap = [3 \<mapsto> (zero_member ''aa'')\<lparr>m_id := 1\<rparr>], rm_served = 1\<rparr>"

lemma named_room_rep: "listener_rep named_room [3]"
  by (simp add: listener_rep_def named_room_def zero_broadcast_def zero_profile_def zero_member_def lk_def)

lemma named_room_pinned: "b_find_member_pinned cut_copy calm_api named_room ''m_1'' = Some (Some 3, named_room)"
proof -
  have "b_parse_member_id ''m_1'' = 1" by code_simp
  then show ?thesis
    by (simp add: b_find_member_pinned_def pinned_uuid_def b_find_member_by_id_str_def list_find.simps named_room_def
        calm_api_def zero_broadcast_def zero_member_def copied_def cut_copy_def Let_def)
qed

definition named_registry :: registry where
  "named_registry = \<lparr>rg_g = (rg_g empty_registry)\<lparr>g_broadcast_hash := [(''a'', 0)], g_active_broadcasts := 1\<rparr>, rg_store = [0 \<mapsto> named_room]\<rparr>"

lemma named_registry_inv: "rg_inv named_registry"
  by (auto simp: rg_inv_def named_registry_def named_room_def empty_registry_def split: if_splits)

section \<open>Theorems\<close>

text \<open>
  The member an id names is found alive. When a member is returned, its object exists with the id that was asked for, an id of zero
  names nobody, and the session that was located before is that of a member with this id.
\<close>

theorem pinned_member_valid:
  assumes "b_find_member_pinned cpy io r sid = Some (Some a, r')"
  shows "b_parse_member_id sid \<noteq> 0 \<and> (\<exists>m. rm_heap r' a = Some m \<and> m_id m = b_parse_member_id sid)
    \<and> (\<exists>u. pinned_uuid cpy r (b_parse_member_id sid) = Some u \<and> u \<noteq> [] \<and> ap_locate io u)"
  using find_pinned_hit [OF assms] by simp

theorem pinned_member_valid_witness:
  "b_parse_member_id ''m_1'' \<noteq> 0 \<and> (\<exists>m. rm_heap named_room 3 = Some m \<and> m_id m = b_parse_member_id ''m_1'')
    \<and> (\<exists>u. pinned_uuid cut_copy named_room (b_parse_member_id ''m_1'') = Some u \<and> u \<noteq> [] \<and> ap_locate calm_api u)"
  by (rule pinned_member_valid [OF named_room_pinned])

text \<open>
  C12. Every command but destroy gives back the reference it took: whatever it answers, each broadcast in the table keeps its name
  and its reference count, and the table keeps its entries, its counter and its invariant.
\<close>

theorem api_keeps_references:
  assumes "api_broadcast cpy io json argv reg = Some res" "\<not> is_destroy (api_command argv)" "api_calm io" "rg_inv reg"
  shows "(\<forall>x. map_option room_tag (rg_store (ar_reg res) x) = map_option room_tag (rg_store reg x))
    \<and> g_broadcast_hash (rg_g (ar_reg res)) = g_broadcast_hash (rg_g reg) \<and> rg_inv (ar_reg res)"
proof -
  obtain found reg1 where f: "broadcast_find_and_ref (Some (argv ! 0)) reg = Some (found, reg1)"
    using assms(1) by (auto simp: api_broadcast_def bind_eq_Some_conv)
  have "(\<forall>x. map_option room_tag (rg_store (ar_reg res) x) = map_option room_tag (rg_store reg x))
    \<and> g_broadcast_hash (rg_g (ar_reg res)) = g_broadcast_hash (rg_g reg)
    \<and> g_active_broadcasts (rg_g (ar_reg res)) = g_active_broadcasts (rg_g reg)
    \<and> g_max_broadcasts (rg_g (ar_reg res)) = g_max_broadcasts (rg_g reg)"
  using f proof (cases rule: find_and_ref_parts)
    case none
    with assms(1) f have "res = reply (if json then ''{\"result\":\"error\",\"detail\":\"no such broadcast\"}\<newline>'' else ''-ERR no such broadcast\<newline>'') reg"
      by (auto simp: api_broadcast_def)
    then show ?thesis by (simp add: reply_def)
  next
    case (some a r)
    from assms(1,2) f some(1) obtain r1 e where
      p: "fetch_room a reg1 = Some r1" "api_room_command cpy io json (api_command argv) r1 = Some e"
      "broadcast_release (Some a) (store_room a (ae_room e) reg1) = Some (ar_reg res)"
      by (auto elim: api_broadcast_parts)
    have "room_tag (ae_room e) = (b_name (rm_b r), b_live_refs (rm_b r) + 1)"
      using api_room_tag [OF p(2) assms(3)] p(1) some(3) by (auto simp: fetch_room_def room_tag_def)
    moreover have "rg_store (ar_reg res) = (rg_store reg)(a \<mapsto> upd_b (\<lambda>b. b\<lparr>b_live_refs := b_live_refs b - 1\<rparr>) (ae_room e))"
      using release_store(1) [OF p(3)] some(3) by simp
    moreover have "g_max_broadcasts (rg_g (ar_reg res)) = g_max_broadcasts (rg_g reg)"
      using release_max [OF p(3)] some(3) by simp
    ultimately show ?thesis using release_store(2,3) [OF p(3)] some(2,3) by (simp add: room_tag_def upd_b_def)
  qed
  with rg_inv_tags [OF assms(4), of "ar_reg res"] show ?thesis by blast
qed

theorem api_keeps_references_witness:
  "\<exists>res. api_broadcast cut_copy calm_api False [''a'', ''lock''] named_registry = Some res
    \<and> map_option room_tag (rg_store (ar_reg res) 0) = Some (''a'', 0) \<and> rg_inv (ar_reg res)"
proof -
  have c: "api_command [''a'', ''lock''] = CmdLock" by code_simp
  then obtain res where r: "api_broadcast cut_copy calm_api False [''a'', ''lock''] named_registry = Some res"
    by (auto simp: api_broadcast_def broadcast_find_and_ref_def hash_lookup_def named_registry_def named_room_def zero_broadcast_def
        fetch_room_def api_room_command_def broadcast_release_def store_room_def has_flag_def bflag_defs)
  have "\<not> is_destroy (api_command [''a'', ''lock''])" by (simp add: c is_destroy_def)
  note k = api_keeps_references [OF r this calm_api_calm named_registry_inv]
  have "map_option room_tag (rg_store named_registry 0) = Some (''a'', 0)"
    by (simp add: named_registry_def named_room_def room_tag_def zero_broadcast_def)
  with k r show ?thesis by metis
qed

text \<open>
  lock and unlock gate the joins. After lock no one is let in, whatever the room's state, and a join changes nothing; after unlock a
  join is let in exactly when the broadcast is not destroyed and not full.
\<close>

theorem api_lock_gates_joins:
  assumes "listener_rep r xs"
  shows "broadcast_listener_add cpy now now' a (ae_room (api_flag cpy t (\<lambda>w. set_flag w BFLAG_LOCKED) BEVT_LOCK r))
      = Some (ST_FALSE, ae_room (api_flag cpy t (\<lambda>w. set_flag w BFLAG_LOCKED) BEVT_LOCK r))
    \<and> (listener_admits (ae_room (api_flag cpy t (\<lambda>w. clr_flag w BFLAG_LOCKED) BEVT_UNLOCK r)) \<longleftrightarrow>
        \<not> b_destroyed (rm_b r) \<and> (\<exists>prof. b_profile (rm_b r) = Some prof \<and> b_listener_count (rm_b r) < p_max_listeners prof))"
proof -
  let ?l = "ae_room (api_flag cpy t (\<lambda>w. set_flag w BFLAG_LOCKED) BEVT_LOCK r)"
  have "listener_rep ?l xs" using assms by (simp add: api_flag_def listener_rep_def)
  moreover have "\<not> listener_admits ?l" by (simp add: listener_admits_def api_flag_def flag_simps)
  ultimately have "broadcast_listener_add cpy now now' a ?l = Some (ST_FALSE, ?l)" by (rule llist.add_refused)
  then show ?thesis by (simp add: listener_admits_def api_flag_def flag_simps)
qed

theorem api_lock_gates_joins_witness:
  "broadcast_listener_add cut_copy 5 6 2 (ae_room (api_flag cut_copy 9 (\<lambda>w. set_flag w BFLAG_LOCKED) BEVT_LOCK two_member_room))
      = Some (ST_FALSE, ae_room (api_flag cut_copy 9 (\<lambda>w. set_flag w BFLAG_LOCKED) BEVT_LOCK two_member_room))
    \<and> listener_admits (ae_room (api_flag cut_copy 9 (\<lambda>w. clr_flag w BFLAG_LOCKED) BEVT_UNLOCK two_member_room))"
  using api_lock_gates_joins [OF two_member_room_rep, of cut_copy 5 6 2 9]
  by (simp add: two_member_room_def zero_broadcast_def zero_profile_def)

text \<open>
  The commands that change something answer in plain text only: JSON mode makes no difference to them, and each answer is one of three lines.
\<close>

theorem control_answers_plain:
  assumes "cmd \<notin> {CmdInfo, CmdListeners, CmdStats, CmdHistogram, CmdProducer}" "\<And>sid. cmd \<noteq> CmdListener sid"
  shows "api_room_command cpy io True cmd r = api_room_command cpy io False cmd r
    \<and> (\<forall>e. api_room_command cpy io json cmd r = Some e \<longrightarrow> ae_text e \<in> {OK_TEXT, ERR_TEXT, ''-ERR unknown subcommand\<newline>''})"
  using assms
  by (cases cmd) (auto simp: api_room_command_def api_promote_def api_clear_speaker_def api_kick_def api_kick_all_def api_flag_def
      api_record_def api_norecord_def api_dtmf_def api_play_def Let_def bind_eq_Some_conv split: option.splits if_splits prod.splits)

theorem control_answers_plain_witness:
  "api_room_command cut_copy calm_api True CmdLock named_room = api_room_command cut_copy calm_api False CmdLock named_room"
  using control_answers_plain [of CmdLock cut_copy calm_api named_room] by simp

text \<open>
  A broadcast whose name is one of the global commands, in any letter case, cannot be commanded: a command line that starts with such a
  name never reaches a broadcast, kicks nobody, and leaves all rooms and the table's entries as they are.
\<close>

theorem reserved_names_unreachable:
  assumes "argv \<noteq> []" "w \<in> {''version'', ''reload'', ''list'', ''stats''}" "strcaseeq (argv ! 0) w"
    and "api_words cpy strue io json argv reg = Some res"
  shows "rg_store (ar_reg res) = rg_store reg \<and> g_broadcast_hash (rg_g (ar_reg res)) = g_broadcast_hash (rg_g reg)
    \<and> ar_hangups res = [] \<and> ar_digits res = []"
proof -
  have reload: "g_broadcast_hash (snd (broadcast_config_reload cpy strue ok doc g)) = g_broadcast_hash g" for ok doc g
    using load_hash [of cpy strue doc "g\<lparr>g_profiles := [], g_control_groups := [], g_default_profile_name := None, g_config_loaded := False, g_config_pool := False\<rparr>"]
    by (auto simp: broadcast_config_reload_def Let_def split: prod.split)
  have "strcaseeq (argv ! 0) ''version'' \<or> strcaseeq (argv ! 0) ''reload'' \<or> strcaseeq (argv ! 0) ''list'' \<or> strcaseeq (argv ! 0) ''stats''"
    using assms(2,3) by auto
  moreover have "argv ! 0 \<noteq> []" using assms(2,3) strcaseeq_length [OF assms(3)] by auto
  ultimately show ?thesis
    using assms(1,4) reload [of "ap_config_pool io" "ap_config io" "rg_g reg"]
    by (auto simp: api_words_def api_reload_def reply_def split: if_splits prod.splits)
qed

theorem reserved_names_unreachable_witness:
  "\<exists>res. api_words cut_copy (\<lambda>s. True) calm_api False [''List'', ''destroy''] named_registry = Some res \<and> rg_store (ar_reg res) = rg_store named_registry"
proof -
  have w: "strcaseeq ([''List'', ''destroy''] ! 0) ''list''" "\<not> strcaseeq ''List'' ''version''" "\<not> strcaseeq ''List'' ''reload''" by code_simp+
  then obtain res where r: "api_words cut_copy (\<lambda>s. True) calm_api False [''List'', ''destroy''] named_registry = Some res"
    using list_walk_text [of named_registry "[(''a'', 0)]" "Some ''destroy''" False]
    by (auto simp: api_words_def b_api_list_def named_registry_def)
  from reserved_names_unreachable [OF _ _ w(1) r] r show ?thesis by simp
qed

text \<open>
  A play command that fails leaves the broadcast playing from a file that was never opened: if a file was playing, the flag stays up and the
  handle is the new one, from which the producer's next tick reads.
\<close>

theorem failed_play_is_read:
  assumes "ap_play_fopen io path (b_channels (rm_b r)) (b_rate (rm_b r)) \<noteq> ST_SUCCESS" "has_flag (b_cflags (rm_b r)) BFLAG_PLAY_FILE"
  shows "ae_text (api_play io path r) = ERR_TEXT
    \<and> played_bytes tio (rm_b (ae_room (api_play io path r))) =
        (case ti_file_read tio (ap_play_fh io) (unat (b_samples_per_frame (rm_b r))) of
           (st, k, bs) \<Rightarrow> if st = ST_SUCCESS \<and> k = unat (b_samples_per_frame (rm_b r)) then Some bs else None)"
  using assms by (simp add: api_play_def played_bytes_def Let_def)

theorem failed_play_is_read_witness:
  "ae_text (api_play calm_api ''/tmp/b.wav'' named_room) = ERR_TEXT"
  using failed_play_is_read [of calm_api "''/tmp/b.wav''" named_room]
  by (simp add: calm_api_def named_room_def flag_simps)

text \<open>
  C27. A report never touches freed memory: with a well-formed list of listeners and a live speaker, each report command answers, and changes nothing.
\<close>

theorem reports_answer:
  assumes "listener_rep r xs" "case b_current_speaker (rm_b r) of None \<Rightarrow> True | Some s \<Rightarrow> rm_heap r s \<noteq> None"
    and "cmd \<in> {CmdInfo, CmdListeners, CmdStats, CmdHistogram, CmdProducer, CmdListener sid}"
  shows "\<exists>t. api_room_command cpy io json cmd r = Some (answer t r)"
proof -
  obtain lst where d: "dll (rm_heap r) None (b_listener_head (rm_b r)) xs lst None" using assms(1) by (auto simp: listener_rep_def)
  have members: "list_members (rm_heap r) (b_listener_head (rm_b r)) \<noteq> None" using list_members_dll [OF d] by simp
  have found: "b_find_member_by_id_str r sid \<noteq> None"
    using list_find_dll [OF d, of "\<lambda>x m. m_id m = b_parse_member_id sid"] assms(2)
    by (auto simp: b_find_member_by_id_str_def Let_def split: option.splits)
  have detail: "b_api_listener_detail cpy now r sid json \<noteq> None" for now
  proof (cases "b_find_member_by_id_str r sid")
    case (Some p)
    then show ?thesis using find_by_id_hit [of r sid] by (cases p) (auto simp: b_api_listener_detail_def)
  qed (use found in simp)
  have sp: "speaker_strings cpy r \<noteq> None" using assms(2) by (auto simp: speaker_strings_def split: option.splits)
  from assms(3) show ?thesis
    using members detail [of "ap_now io"] sp
    by (auto simp: api_room_command_def api_report_def b_api_info_def b_api_listeners_def Let_def)
qed

theorem reports_answer_witness:
  "\<exists>t. api_room_command cut_copy calm_api True (CmdListener ''m_1'') named_room = Some (answer t named_room)"
  by (rule reports_answer [OF named_room_rep, where sid = "''m_1''"]) (simp_all add: named_room_def zero_broadcast_def)

text \<open>
  Promotion is for listeners only: for a member that is not in the listener's loop, the current speaker among them, both
  commands answer with an error and change nothing of the room.
\<close>

theorem promote_listeners_only:
  assumes "b_find_member_pinned cpy io r sid = Some (Some a, r')" "rm_heap r' a = Some m" "\<not> m_in_listener_bridge m"
  shows "api_room_command cpy io json (CmdSetSpeaker sid) r = Some (answer ERR_TEXT r')
    \<and> api_room_command cpy io json (CmdPromote sid) r = Some (answer ERR_TEXT r')"
  using assms by (simp add: api_room_command_def api_promote_def broadcast_request_promotion_def promotion_begin_def)

theorem promote_listeners_only_witness:
  "api_room_command cut_copy calm_api False (CmdSetSpeaker ''m_1'') named_room = Some (answer ERR_TEXT named_room)"
  using promote_listeners_only [OF named_room_pinned, of "(zero_member ''aa'')\<lparr>m_id := 1\<rparr>" False]
  by (simp add: named_room_def zero_member_def)

text \<open>
  C26. The command \<open>destroy\<close>, with any grace period and announcement and with or without a speaker, ends, with \<open>+OK\<close>,
  when its waits run out, the listener list is well formed at the end of the grace period and the speaker installed
  then stays allocated while the drain loop polls. The broadcast is gone from the table, which
  stays well-formed, and every later command on that name answers that there is no such broadcast.
\<close>

theorem api_destroy_gone:
  assumes "rg_inv reg" "rg_store reg a = Some r" "b_name (rm_b r) = argv ! 0"
    and "argv ! 0 \<noteq> []" "\<not> b_destroyed (rm_b r)" "\<not> has_flag (b_cflags (rm_b r)) BFLAG_DESTRUCT"
    and "api_command argv = CmdDestroy grace ann" "destroy_calm (ap_destroy io)" "destroy_expires (ap_destroy io)"
    and "q = grace_over cpy (ap_destroy io) grace ann (upd_b (\<lambda>b. b\<lparr>b_live_refs := b_live_refs b + 1\<rparr>) r)" "listener_rep q xs"
    and "\<And>s. b_current_speaker (rm_b q) = Some s \<Longrightarrow> rm_heap q s \<noteq> None \<and> keeps_member s (di_drain (ap_destroy io))"
  shows "\<exists>res. api_broadcast cpy io json argv reg = Some res \<and> ar_text res = OK_TEXT \<and> rg_inv (ar_reg res)
    \<and> rg_store (ar_reg res) = (rg_store reg)(a := None)
    \<and> (\<forall>io' argv'. argv' ! 0 = argv ! 0 \<longrightarrow>
         api_broadcast cpy io' False argv' (ar_reg res) = Some (reply ''-ERR no such broadcast\<newline>'' (ar_reg res)))"
proof -
  let ?r = "upd_b (\<lambda>b. b\<lparr>b_live_refs := b_live_refs b + 1\<rparr>) r"
  let ?reg = "reg\<lparr>rg_store := (rg_store reg)(a \<mapsto> ?r)\<rparr>"
  have l: "hash_lookup reg (argv ! 0) = Some a" using rg_lookup_store [OF assms(1,2)] assms(3) by simp
  have f: "broadcast_find_and_ref (Some (argv ! 0)) reg = Some (Some a, ?reg)"
    using l assms(2,4-6) by (simp add: broadcast_find_and_ref_def)
  have inv: "rg_inv ?reg" by (rule rg_inv_refs [OF assms(1,2)])
  have st: "rg_store ?reg a = Some ?r" by simp
  have old: "old_stays (b_current_speaker (rm_b q)) (di_drain (ap_destroy io)) q" using assms(12) by (simp add: old_stays_def)
  have ex: "expires (di_drain_from (ap_destroy io) + 10000000) (di_drain (ap_destroy io))"
    "expires (di_refs_from (ap_destroy io) + 10000000) (di_refs (ap_destroy io))"
    using assms(9) by (simp_all add: destroy_expires_def)
  from destroy_ok [OF inv st assms(10,11) old assms(8) ex] obtain d where
    d: "broadcast_destroy_ex cpy (ap_destroy io) a grace ann ?reg = Destroyed d" "rg_inv (ds_reg d)" "hash_lookup (ds_reg d) (b_name (rm_b ?r)) = None"
    "rg_store (ds_reg d) = (rg_store ?reg)(a := None)"
    by blast
  have "broadcast_find_and_ref (Some (argv ! 0)) (ds_reg d) = Some (None, ds_reg d)"
    using d(3) assms(3) by (simp add: broadcast_find_and_ref_def)
  then have "api_broadcast cpy io' False argv' (ds_reg d) = Some (reply ''-ERR no such broadcast\<newline>'' (ds_reg d))"
    if "argv' ! 0 = argv ! 0" for io' argv' using that by (simp add: api_broadcast_def)
  with f d(1,2,4) assms(7) show ?thesis by (simp add: api_broadcast_def reply_def)
qed

text \<open>Destroying, with five seconds of grace, a broadcast that has a speaker and a listener.\<close>

theorem api_destroy_gone_witness:
  "\<exists>res. api_broadcast cut_copy calm_api False [''live'', ''destroy'', ''5000''] busy_registry = Some res \<and> ar_text res = OK_TEXT
    \<and> rg_store (ar_reg res) 7 = None
    \<and> api_broadcast cut_copy calm_api False [''live'', ''info''] (ar_reg res) = Some (reply ''-ERR no such broadcast\<newline>'' (ar_reg res))"
proof -
  let ?q = "grace_over cut_copy (ap_destroy calm_api) 5000 None (upd_b (\<lambda>b. b\<lparr>b_live_refs := b_live_refs b + 1\<rparr>) busy_room)"
  have c: "api_command [''live'', ''destroy'', ''5000''] = CmdDestroy 5000 None" by code_simp
  have st: "rg_store busy_registry 7 = Some busy_room" by (simp add: busy_registry_def)
  have io: "ap_destroy calm_api = quiet_destroy" by (simp add: calm_api_def)
  have e: "destroy_calm (ap_destroy calm_api)" "destroy_expires (ap_destroy calm_api)"
    using quiet_destroy_calm quiet_expires by (simp_all add: io destroy_expires_def)
  have q: "rm_heap ?q = rm_heap busy_room" "b_current_speaker (rm_b ?q) = Some 2" "b_listener_head (rm_b ?q) = Some 1"
    "b_listener_count (rm_b ?q) = 1" "b_profile (rm_b ?q) = Some zero_profile" "b_stat_peak_listeners (rm_b ?q) = 1"
    by (simp_all add: io grace_over_def destroy_grace_def clamp_grace_def grace_announce_def quiet_destroy_def stop_play_def
        destroy_mark_def busy_room_def Let_def)
  have rep: "listener_rep ?q [1]"
    unfolding listener_rep_def q by (simp add: busy_room_def zero_member_def zero_profile_def lk_def)
  have sp: "rm_heap ?q s \<noteq> None \<and> keeps_member s (di_drain (ap_destroy calm_api))" if "b_current_speaker (rm_b ?q) = Some s" for s
  proof -
    have "s = 2" using that q(2) by simp
    then show ?thesis unfolding q(1) using quiet_keeps_member by (simp add: busy_room_def io)
  qed
  have "\<exists>res. api_broadcast cut_copy calm_api False [''live'', ''destroy'', ''5000''] busy_registry = Some res \<and> ar_text res = OK_TEXT
    \<and> rg_inv (ar_reg res) \<and> rg_store (ar_reg res) = (rg_store busy_registry)(7 := None)
    \<and> (\<forall>io' argv'. argv' ! 0 = [''live'', ''destroy'', ''5000''] ! 0 \<longrightarrow>
         api_broadcast cut_copy io' False argv' (ar_reg res) = Some (reply ''-ERR no such broadcast\<newline>'' (ar_reg res)))"
    by (rule api_destroy_gone [OF busy_registry_inv st _ _ _ _ c e refl rep sp]) (simp_all add: busy_room_def flag_simps)
  then show ?thesis by auto
qed

end
