(* ===== verification/Histogram.thy ===== *)
theory Histogram
  imports Api_Report
begin

text \<open>
  The tick histogram of builds with \<open>BROADCAST_ENABLE_HISTOGRAM\<close>: eight counters beside the producer's other
  statistics, one of which every tick adds to by the time its work took, and their report. The theorems
  give each counter as the number of ticks of its class, and the JSON report as the printing of its document.
\<close>

record tick_hist =
  bucket_us_50 :: u64
  bucket_us_100 :: u64
  bucket_us_200 :: u64
  bucket_us_500 :: u64
  bucket_us_1000 :: u64
  bucket_us_5000 :: u64
  bucket_us_20000 :: u64
  bucket_us_over :: u64

text \<open>The object is allocated zeroed.\<close>

definition zero_hist :: tick_hist where
  "zero_hist = \<lparr>bucket_us_50 = 0, bucket_us_100 = 0, bucket_us_200 = 0, bucket_us_500 = 0, bucket_us_1000 = 0,
     bucket_us_5000 = 0, bucket_us_20000 = 0, bucket_us_over = 0\<rparr>"

definition hist_tick :: "usec \<Rightarrow> tick_hist \<Rightarrow> tick_hist" where
  "hist_tick d h =
     (if d \<le> 50 then h\<lparr>bucket_us_50 := bucket_us_50 h + 1\<rparr>
      else if d \<le> 100 then h\<lparr>bucket_us_100 := bucket_us_100 h + 1\<rparr>
      else if d \<le> 200 then h\<lparr>bucket_us_200 := bucket_us_200 h + 1\<rparr>
      else if d \<le> 500 then h\<lparr>bucket_us_500 := bucket_us_500 h + 1\<rparr>
      else if d \<le> 1000 then h\<lparr>bucket_us_1000 := bucket_us_1000 h + 1\<rparr>
      else if d \<le> 5000 then h\<lparr>bucket_us_5000 := bucket_us_5000 h + 1\<rparr>
      else if d \<le> 20000 then h\<lparr>bucket_us_20000 := bucket_us_20000 h + 1\<rparr>
      else h\<lparr>bucket_us_over := bucket_us_over h + 1\<rparr>)"

definition histogram_report :: "tick_hist \<Rightarrow> bool \<Rightarrow> string" where
  "histogram_report h json =
     (if json then
        ''{\"command\":\"producer_histogram\",\"b50\":'' @ u64_text (bucket_us_50 h) @ '',\"b100\":'' @ u64_text (bucket_us_100 h)
        @ '',\"b200\":'' @ u64_text (bucket_us_200 h) @ '',\"b500\":'' @ u64_text (bucket_us_500 h)
        @ '',\"b1000\":'' @ u64_text (bucket_us_1000 h) @ '',\"b5000\":'' @ u64_text (bucket_us_5000 h)
        @ '',\"b20000\":'' @ u64_text (bucket_us_20000 h) @ '',\"b_over\":'' @ u64_text (bucket_us_over h) @ ''}\<newline>''
      else
        ''hist_us: <=50='' @ u64_text (bucket_us_50 h) @ '' <=100='' @ u64_text (bucket_us_100 h)
        @ '' <=200='' @ u64_text (bucket_us_200 h) @ '' <=500='' @ u64_text (bucket_us_500 h)
        @ '' <=1k='' @ u64_text (bucket_us_1000 h) @ '' <=5k='' @ u64_text (bucket_us_5000 h)
        @ '' <=20k='' @ u64_text (bucket_us_20000 h) @ '' over='' @ u64_text (bucket_us_over h) @ ''\<newline>'')"

section \<open>Reference\<close>

text \<open>The class of a duration among the limits, and the counters in their order.\<close>

definition hist_limits :: "usec list" where
  "hist_limits = [50, 100, 200, 500, 1000, 5000, 20000]"

definition hist_class :: "usec \<Rightarrow> nat" where
  "hist_class d = length (filter (\<lambda>l. l < d) hist_limits)"

definition buckets :: "tick_hist \<Rightarrow> u64 list" where
  "buckets h = [bucket_us_50 h, bucket_us_100 h, bucket_us_200 h, bucket_us_500 h, bucket_us_1000 h, bucket_us_5000 h,
     bucket_us_20000 h, bucket_us_over h]"

definition class_counts :: "usec list \<Rightarrow> nat list" where
  "class_counts ds = map (\<lambda>i. length (filter (\<lambda>d. hist_class d = i) ds)) [0..<8]"

lemma hist_class_less: "hist_class d < 8"
  unfolding hist_class_def by (rule le_less_trans [OF length_filter_le]) (simp add: hist_limits_def)

lemma hist_tick_class: "buckets (hist_tick d h) = (buckets h)[hist_class d := buckets h ! hist_class d + 1]"
  by (simp add: hist_tick_def buckets_def hist_class_def hist_limits_def)

lemma buckets_fold:
  "buckets (fold hist_tick ds h) = map (\<lambda>i. buckets h ! i + of_nat (length (filter (\<lambda>d. hist_class d = i) ds))) [0..<8]"
proof (induction ds arbitrary: h)
  case Nil
  show ?case by (rule nth_equalityI) (simp_all add: buckets_def)
next
  case (Cons d ds)
  show ?case using hist_class_less [of d] unfolding fold.simps comp_def Cons.IH
    by (auto simp: hist_tick_class nth_list_update buckets_def [THEN arg_cong, of length] ac_simps)
qed

section \<open>Theorems\<close>

text \<open>After any ticks each counter holds the number of ticks of its class, modulo the counter's width.\<close>

theorem histogram_counts: "buckets (fold hist_tick ds zero_hist) = map of_nat (class_counts ds)"
  unfolding buckets_fold class_counts_def by (simp add: buckets_def zero_hist_def upt_rec)

text \<open>Together the counters hold the number of ticks.\<close>

lemma class_counts_sum: "sum_list (class_counts ds) = length ds"
proof (induction ds)
  case (Cons d ds)
  have "class_counts (d # ds) = (class_counts ds)[hist_class d := Suc (class_counts ds ! hist_class d)]"
    using hist_class_less [of d] unfolding class_counts_def by (intro nth_equalityI) (auto simp: nth_list_update)
  then show ?case using Cons hist_class_less [of d] by (simp add: sum_list_update class_counts_def)
qed (simp add: class_counts_def)

theorem histogram_total: "sum_list (buckets (fold hist_tick ds zero_hist)) = of_nat (length ds)"
proof -
  have "sum_list (map of_nat ns) = (of_nat (sum_list ns) :: u64)" for ns by (induction ns) simp_all
  then show ?thesis by (simp add: histogram_counts class_counts_sum)
qed

definition histogram_doc :: "tick_hist \<Rightarrow> json" where
  "histogram_doc h = JObj ((''command'', JStr ''producer_histogram'') #
     zip [''b50'', ''b100'', ''b200'', ''b500'', ''b1000'', ''b5000'', ''b20000'', ''b_over''] (map (\<lambda>w. JNum (uint w)) (buckets h)))"

text \<open>The JSON report is the printing of the document of the counters.\<close>

theorem histogram_json_document: "histogram_report h True = json_text (histogram_doc h) @ ''\<newline>''"
proof -
  have k: "json_string s = ''\"'' @ s @ ''\"''"
    if "s \<in> {''command'', ''producer_histogram'', ''b50'', ''b100'', ''b200'', ''b500'', ''b1000'', ''b5000'', ''b20000'', ''b_over''}" for s
    using that by (intro json_plain_string) (auto simp: json_plain_def)
  have n: "dec_time (uint w) = u64_text w" for w by (simp add: dec_time_def u64_text_def)
  show ?thesis by (simp add: histogram_report_def histogram_doc_def buckets_def k n)
qed

end
