(* ===== verification/Lock_Order.thy ===== *)
theory Lock_Order
  imports Bcast_Prelude
begin

text \<open>
  Threads that take locks. A thread is described by its lock skeleton: which locks it takes, in which
  mode, what it touches under them and where it waits, with every branch of the code as a choice and
  every loop as any number of rounds. The theory gives the skeletons their runs, puts any family of
  threads side by side under the rules of readers-writer locks (with waiting writers ahead of new
  readers, or not), and states the discipline - locks in ascending rank, data under their lock, and
  while sleeping or joining only locks that no joined thread ever takes - from which the locale \<open>lock_order\<close> derives
  that no state is a deadlock, that all threads finish, and that no two threads touch the same guarded data at once.
  The module's skeletons are in \<open>Locks\<close>, with the interpretation.
\<close>

section \<open>Skeletons and their runs\<close>

datatype access = Shared | Excl

text \<open>
  What a thread does between taking and releasing locks. \<open>Touch\<close> reads or changes shared data,
  \<open>Outside\<close> is a call into the core, a session or a file that returns, \<open>Join\<close> waits for the end of a thread.
\<close>

datatype ('d, 't) act = Touch access 'd | Sleep | Join 't | Outside

datatype ('l, 'd, 't) instr = Acquire access 'l | Release 'l | Act "('d, 't) act"

datatype ('l, 'd, 't) skel =
    Skip
  | Do "('d, 't) act"
  | Locked access 'l "('l, 'd, 't) skel"
  | Then "('l, 'd, 't) skel" "('l, 'd, 't) skel"
  | Either "('l, 'd, 't) skel" "('l, 'd, 't) skel"
  | Repeat "('l, 'd, 't) skel"

fun in_turn :: "('l, 'd, 't) skel list \<Rightarrow> ('l, 'd, 't) skel" where
  "in_turn [] = Skip"
| "in_turn (p # ps) = Then p (in_turn ps)"

fun one_of :: "('l, 'd, 't) skel list \<Rightarrow> ('l, 'd, 't) skel" where
  "one_of [] = Skip"
| "one_of [p] = p"
| "one_of (p # ps) = Either p (one_of ps)"

abbreviation maybe :: "('l, 'd, 't) skel \<Rightarrow> ('l, 'd, 't) skel" where
  "maybe p \<equiv> Either p Skip"

inductive runs :: "('l, 'd, 't) skel \<Rightarrow> ('l, 'd, 't) instr list \<Rightarrow> bool" where
  run_skip: "runs Skip []"
| run_do: "runs (Do a) [Act a]"
| run_locked: "runs p is \<Longrightarrow> runs (Locked m l p) (Acquire m l # is @ [Release l])"
| run_then: "runs p is \<Longrightarrow> runs q js \<Longrightarrow> runs (Then p q) (is @ js)"
| run_left: "runs p is \<Longrightarrow> runs (Either p q) is"
| run_right: "runs q is \<Longrightarrow> runs (Either p q) is"
| run_stop: "runs (Repeat p) []"
| run_again: "runs p is \<Longrightarrow> runs (Repeat p) js \<Longrightarrow> runs (Repeat p) (is @ js)"

inductive_cases runs_cases [elim!]:
  "runs Skip is" "runs (Do a) is" "runs (Locked m l p) is" "runs (Then p q) is" "runs (Either p q) is"

text \<open>The actions that a skeleton contains, whichever branches are taken.\<close>

fun acts :: "('l, 'd, 't) skel \<Rightarrow> ('d, 't) act set" where
  "acts Skip = {}"
| "acts (Do a) = {a}"
| "acts (Locked m l p) = acts p"
| "acts (Then p q) = acts p \<union> acts q"
| "acts (Either p q) = acts p \<union> acts q"
| "acts (Repeat p) = acts p"

text \<open>The locks that it takes on one of its branches.\<close>

fun locks_in :: "('l, 'd, 't) skel \<Rightarrow> 'l set" where
  "locks_in Skip = {}"
| "locks_in (Do a) = {}"
| "locks_in (Locked m l p) = insert l (locks_in p)"
| "locks_in (Then p q) = locks_in p \<union> locks_in q"
| "locks_in (Either p q) = locks_in p \<union> locks_in q"
| "locks_in (Repeat p) = locks_in p"

lemma locks_in_in_turn [simp]: "locks_in (in_turn ps) = (\<Union>p \<in> set ps. locks_in p)"
  by (induction ps) auto

lemma locks_in_one_of [simp]: "locks_in (one_of ps) = (\<Union>p \<in> set ps. locks_in p)"
  by (induction ps rule: one_of.induct) auto

lemma runs_locks: "runs p is \<Longrightarrow> Acquire m l \<in> set is \<Longrightarrow> l \<in> locks_in p"
  by (induction arbitrary: m l rule: runs.induct) auto

text \<open>A property of all actions, as a test.\<close>

fun all_acts :: "(('d, 't) act \<Rightarrow> bool) \<Rightarrow> ('l, 'd, 't) skel \<Rightarrow> bool" where
  "all_acts P Skip = True"
| "all_acts P (Do a) = P a"
| "all_acts P (Locked m l p) = all_acts P p"
| "all_acts P (Then p q) = (all_acts P p \<and> all_acts P q)"
| "all_acts P (Either p q) = (all_acts P p \<and> all_acts P q)"
| "all_acts P (Repeat p) = all_acts P p"

lemma all_acts_in_turn [simp]: "all_acts P (in_turn ps) = list_all (all_acts P) ps"
  by (induction ps) auto

lemma all_acts_one_of [simp]: "all_acts P (one_of ps) = list_all (all_acts P) ps"
  by (induction ps rule: one_of.induct) auto

lemma all_actsD: "all_acts P p \<Longrightarrow> a \<in> acts p \<Longrightarrow> P a"
  by (induction p) auto

lemma runs_acts: "runs p is \<Longrightarrow> Act a \<in> set is \<Longrightarrow> a \<in> acts p"
  by (induction arbitrary: a rule: runs.induct) auto

section \<open>Threads side by side\<close>

type_synonym ('l, 'd, 't) thr = "(access \<times> 'l) list \<times> ('l, 'd, 't) instr list"
type_synonym ('l, 'd, 't) threads = "'t \<Rightarrow> ('l, 'd, 't) thr"

abbreviation held :: "('l, 'd, 't) threads \<Rightarrow> 't \<Rightarrow> (access \<times> 'l) list" where
  "held s t \<equiv> fst (s t)"

abbreviation todo :: "('l, 'd, 't) threads \<Rightarrow> 't \<Rightarrow> ('l, 'd, 't) instr list" where
  "todo s t \<equiv> snd (s t)"

fun give_back :: "'l \<Rightarrow> (access \<times> 'l) list \<Rightarrow> (access \<times> 'l) list" where
  "give_back l [] = []"
| "give_back l ((m, x) # hs) = (if x = l then hs else (m, x) # give_back l hs)"

text \<open>
  When a lock is granted. With \<open>wp\<close> a reader also waits for the writers that are waiting for the lock,
  as the native locks may do; without it only for the holders. No lock is re-entered by its holder in
  write mode, nor taken in write mode by one of its readers.
\<close>

definition grants :: "bool \<Rightarrow> ('l, 'd, 't) threads \<Rightarrow> 't \<Rightarrow> access \<Rightarrow> 'l \<Rightarrow> bool" where
  "grants wp s t m l \<longleftrightarrow>
     (case m of
        Excl \<Rightarrow> \<forall>u x. (x, l) \<notin> set (held s u)
      | Shared \<Rightarrow> (\<forall>u. (Excl, l) \<notin> set (held s u)) \<and> (wp \<longrightarrow> (\<forall>u is. u \<noteq> t \<longrightarrow> todo s u \<noteq> Acquire Excl l # is)))"

definition may_act :: "('l, 'd, 't) threads \<Rightarrow> ('d, 't) act \<Rightarrow> bool" where
  "may_act s a \<longleftrightarrow> (case a of Join u \<Rightarrow> todo s u = [] | _ \<Rightarrow> True)"

inductive steps_to :: "bool \<Rightarrow> ('l, 'd, 't) threads \<Rightarrow> ('l, 'd, 't) threads \<Rightarrow> bool" for wp :: bool where
  step_acquire: "s t = (hs, Acquire m l # is) \<Longrightarrow> grants wp s t m l \<Longrightarrow> steps_to wp s (s(t := ((m, l) # hs, is)))"
| step_release: "s t = (hs, Release l # is) \<Longrightarrow> steps_to wp s (s(t := (give_back l hs, is)))"
| step_act: "s t = (hs, Act a # is) \<Longrightarrow> may_act s a \<Longrightarrow> steps_to wp s (s(t := (hs, is)))"

inductive_cases steps_to_cases [elim]: "steps_to wp s s'"

definition stuck :: "bool \<Rightarrow> ('l, 'd, 't) threads \<Rightarrow> bool" where
  "stuck wp s \<longleftrightarrow> (\<exists>t. todo s t \<noteq> []) \<and> (\<forall>s'. \<not> steps_to wp s s')"

text \<open>A thread that waits to write what it holds itself waits for ever.\<close>

lemma self_blocked:
  assumes "s t = (hs, Acquire Excl l # is)" "(x, l) \<in> set hs" "\<And>u. u \<noteq> t \<Longrightarrow> todo s u = []"
  shows "stuck wp s"
proof -
  have "\<not> steps_to wp s s'" for s'
  proof
    assume "steps_to wp s s'"
    then show False
    proof cases
      case (step_acquire u gs m k js)
      with assms(3) have "u = t" by force
      with step_acquire assms(1) have "grants wp s t Excl l" by simp
      with assms(1,2) show False by (auto simp: grants_def dest: spec [of _ t])
    next
      case (step_release u gs k js)
      with assms(1,3) show False by (cases "u = t") force+
    next
      case (step_act u gs a js)
      with assms(1,3) show False by (cases "u = t") force+
    qed
  qed
  with assms(1) show ?thesis unfolding stuck_def by (metis list.distinct(1) snd_conv)
qed

section \<open>The discipline\<close>

fun covers :: "(access \<times> 'l) list \<Rightarrow> access \<Rightarrow> 'l \<Rightarrow> bool" where
  "covers hs Excl l = ((Excl, l) \<in> set hs)"
| "covers hs Shared l = (l \<in> snd ` set hs)"

text \<open>
  \<open>guard\<close> names the lock of guarded data; data without a lock of its own may be touched at any time. \<open>outer\<close>
  are the locks that may be kept while sleeping or joining.
\<close>

fun act_ok :: "('d \<Rightarrow> 'l option) \<Rightarrow> ('l \<Rightarrow> bool) \<Rightarrow> (access \<times> 'l) list \<Rightarrow> ('d, 't) act \<Rightarrow> bool" where
  "act_ok guard outer hs (Touch m d) = (case guard d of None \<Rightarrow> True | Some l \<Rightarrow> covers hs m l)"
| "act_ok guard outer hs Sleep = list_all (\<lambda>(m, x). outer x) hs"
| "act_ok guard outer hs (Join u) = list_all (\<lambda>(m, x). outer x) hs"
| "act_ok guard outer hs Outside = True"

definition above :: "('l \<Rightarrow> 'r::linorder) \<Rightarrow> 'l \<Rightarrow> (access \<times> 'l) list \<Rightarrow> bool" where
  "above rank l hs \<longleftrightarrow> list_all (\<lambda>(m, x). rank x < rank l) hs"

lemma above_simps [simp]: "above rank l []" "above rank l ((m, x) # hs) \<longleftrightarrow> rank x < rank l \<and> above rank l hs"
  by (simp_all add: above_def)

text \<open>On a skeleton, by its structure, with the locks already held.\<close>

fun disciplined :: "('l \<Rightarrow> 'r::linorder) \<Rightarrow> ('d \<Rightarrow> 'l option) \<Rightarrow> ('l \<Rightarrow> bool) \<Rightarrow> (access \<times> 'l) list \<Rightarrow> ('l, 'd, 't) skel \<Rightarrow> bool" where
  "disciplined rank guard outer hs Skip = True"
| "disciplined rank guard outer hs (Do a) = act_ok guard outer hs a"
| "disciplined rank guard outer hs (Locked m l p) = (above rank l hs \<and> disciplined rank guard outer ((m, l) # hs) p)"
| "disciplined rank guard outer hs (Then p q) = (disciplined rank guard outer hs p \<and> disciplined rank guard outer hs q)"
| "disciplined rank guard outer hs (Either p q) = (disciplined rank guard outer hs p \<and> disciplined rank guard outer hs q)"
| "disciplined rank guard outer hs (Repeat p) = disciplined rank guard outer hs p"

lemma disciplined_in_turn [simp]: "disciplined rank guard outer hs (in_turn ps) = list_all (disciplined rank guard outer hs) ps"
  by (induction ps) auto

lemma disciplined_one_of [simp]: "disciplined rank guard outer hs (one_of ps) = list_all (disciplined rank guard outer hs) ps"
  by (induction ps rule: one_of.induct) auto

text \<open>On what a thread still has to do.\<close>

fun orderly :: "('l \<Rightarrow> 'r::linorder) \<Rightarrow> ('d \<Rightarrow> 'l option) \<Rightarrow> ('l \<Rightarrow> bool) \<Rightarrow> (access \<times> 'l) list \<Rightarrow> ('l, 'd, 't) instr list \<Rightarrow> bool" where
  "orderly rank guard outer hs [] = (hs = [])"
| "orderly rank guard outer hs (Acquire m l # is) = (above rank l hs \<and> orderly rank guard outer ((m, l) # hs) is)"
| "orderly rank guard outer hs (Release l # is) =
     (case hs of [] \<Rightarrow> False | (m, x) # hs' \<Rightarrow> x = l \<and> orderly rank guard outer hs' is)"
| "orderly rank guard outer hs (Act a # is) = (act_ok guard outer hs a \<and> orderly rank guard outer hs is)"

lemma runs_orderly:
  "runs p is \<Longrightarrow> disciplined rank guard outer hs p \<Longrightarrow> orderly rank guard outer hs js \<Longrightarrow> orderly rank guard outer hs (is @ js)"
  by (induction arbitrary: hs js rule: runs.induct) auto

lemma covers_held: "covers hs m l \<Longrightarrow> \<exists>x. (x, l) \<in> set hs \<and> (m = Excl \<longrightarrow> x = Excl)"
  by (cases m) auto

lemma orderly_holding:
  assumes "orderly rank guard outer hs is" "(x, l) \<in> set hs"
  shows "\<exists>i js. is = i # js \<and> (\<forall>u. i = Act (Join u) \<longrightarrow> outer l) \<and> (\<forall>m k. i = Acquire m k \<longrightarrow> rank l < rank k)"
proof (cases "is")
  case Nil
  with assms show ?thesis by simp
next
  case (Cons i js)
  with assms show ?thesis by (cases i) (auto simp: above_def list_all_iff)
qed

text \<open>Only the order that the ranks give matters.\<close>

lemma disciplined_same_order:
  "(\<And>l hs. above r l hs = above r' l hs) \<Longrightarrow> disciplined r guard outer hs p = disciplined r' guard outer hs p"
  by (induction p arbitrary: hs) auto

section \<open>The interface\<close>

text \<open>How a family of threads begins: nothing held, and each either absent or about to run one of its skeletons.\<close>

definition begins :: "('t \<Rightarrow> ('l, 'd, 't) skel \<Rightarrow> bool) \<Rightarrow> ('l, 'd, 't) threads \<Rightarrow> bool" where
  "begins plays s \<longleftrightarrow> (\<forall>t. held s t = [] \<and> (todo s t = [] \<or> (\<exists>p. plays t p \<and> runs p (todo s t))))"

definition exclusive :: "('l, 'd, 't) threads \<Rightarrow> bool" where
  "exclusive s \<longleftrightarrow> (\<forall>t u x l. t \<noteq> u \<longrightarrow> (Excl, l) \<in> set (held s t) \<longrightarrow> (x, l) \<notin> set (held s u))"

text \<open>Only workers are joined; they join nobody and take no outer lock.\<close>

definition workers_apart :: "('l \<Rightarrow> bool) \<Rightarrow> ('t \<Rightarrow> bool) \<Rightarrow> ('l, 'd, 't) threads \<Rightarrow> bool" where
  "workers_apart outer worker s \<longleftrightarrow>
     (\<forall>t u. Act (Join u) \<in> set (todo s t) \<longrightarrow> worker u \<and> \<not> worker t)
     \<and> (\<forall>t m l. worker t \<longrightarrow> Acquire m l \<in> set (todo s t) \<longrightarrow> \<not> outer l)"

definition safe :: "('l \<Rightarrow> 'r::linorder) \<Rightarrow> ('d \<Rightarrow> 'l option) \<Rightarrow> ('l \<Rightarrow> bool) \<Rightarrow> ('t \<Rightarrow> bool) \<Rightarrow> ('l, 'd, 't) threads \<Rightarrow> bool" where
  "safe rank guard outer worker s \<longleftrightarrow>
     (\<forall>t. orderly rank guard outer (held s t) (todo s t)) \<and> exclusive s \<and> workers_apart outer worker s"

lemma safe_orderly: "safe rank guard outer worker s \<Longrightarrow> s t = (hs, is) \<Longrightarrow> orderly rank guard outer hs is"
  unfolding safe_def by (metis fst_conv snd_conv)

lemma give_back_subset: "set (give_back l hs) \<subseteq> set hs"
  by (induction l hs rule: give_back.induct) auto

lemma exclusive_shrink: "exclusive s \<Longrightarrow> set hs \<subseteq> set (held s t) \<Longrightarrow> exclusive (s(t := (hs, is)))"
  unfolding exclusive_def by (auto split: if_splits)

lemma exclusive_grant:
  assumes "exclusive s" "s t = (hs, js)" "grants wp s t m l"
  shows "exclusive (s(t := ((m, l) # hs, is)))"
proof -
  have "\<And>u. (Excl, l) \<notin> set (held s u)" using assms(3) by (cases m) (auto simp: grants_def)
  moreover have "(x, l) \<notin> set (held s u)" if "m = Excl" for u x using that assms(3) by (simp add: grants_def)
  ultimately show ?thesis using assms(1,2) unfolding exclusive_def by (cases m) (auto split: if_splits, (metis fst_conv)+)
qed

lemma workers_apart_tail:
  "workers_apart outer worker s \<Longrightarrow> set is \<subseteq> set (todo s t) \<Longrightarrow> workers_apart outer worker (s(t := (hs, is)))"
  unfolding workers_apart_def by (auto split: if_splits)

lemma safe_step:
  assumes "steps_to wp s s'" "safe rank guard outer worker s"
  shows "safe rank guard outer worker s'"
  using assms(1)
proof cases
  case (step_acquire t hs m l "is")
  have "orderly rank guard outer hs (Acquire m l # is)" by (rule safe_orderly [OF assms(2) step_acquire(2)])
  moreover have "exclusive s'" "workers_apart outer worker s'"
    using assms(2) step_acquire exclusive_grant [of s t hs _ wp m l "is"] workers_apart_tail [of outer worker s "is" t]
    unfolding safe_def by auto
  ultimately show ?thesis using assms(2) step_acquire(1) by (auto simp: safe_def)
next
  case (step_release t hs l "is")
  have "orderly rank guard outer hs (Release l # is)" by (rule safe_orderly [OF assms(2) step_release(2)])
  moreover have "exclusive s'" "workers_apart outer worker s'"
    using assms(2) step_release give_back_subset [of l hs] exclusive_shrink [of s "give_back l hs" t] workers_apart_tail [of outer worker s "is" t]
    unfolding safe_def by auto
  ultimately show ?thesis using assms(2) step_release(1) by (auto simp: safe_def split: list.splits)
next
  case (step_act t hs a "is")
  have "orderly rank guard outer hs (Act a # is)" by (rule safe_orderly [OF assms(2) step_act(2)])
  moreover have "exclusive s'" "workers_apart outer worker s'"
    using assms(2) step_act exclusive_shrink [of s hs t] workers_apart_tail [of outer worker s "is" t]
    unfolding safe_def by auto
  ultimately show ?thesis using assms(2) step_act(1) by (auto simp: safe_def)
qed

lemma safe_reach: "(steps_to wp)\<^sup>*\<^sup>* s s' \<Longrightarrow> safe rank guard outer worker s \<Longrightarrow> safe rank guard outer worker s'"
  by (induction rule: rtranclp_induct) (auto intro: safe_step)

locale lock_order =
  fixes rank :: "'l \<Rightarrow> 'r::linorder" and guard :: "'d \<Rightarrow> 'l option" and outer :: "'l \<Rightarrow> bool"
    and plays :: "'t \<Rightarrow> ('l, 'd, 't) skel \<Rightarrow> bool" and worker :: "'t \<Rightarrow> bool"
  assumes finite_ranks: "finite (range rank)"
    and outer_below: "outer l \<Longrightarrow> \<not> outer k \<Longrightarrow> rank l < rank k"
    and in_order: "plays t p \<Longrightarrow> disciplined rank guard outer [] p"
    and joins: "plays t p \<Longrightarrow> Join u \<in> acts p \<Longrightarrow> worker u \<and> \<not> worker t"
    and inner: "plays t p \<Longrightarrow> worker t \<Longrightarrow> l \<in> locks_in p \<Longrightarrow> \<not> outer l"
begin

lemma begins_safe:
  assumes "begins plays s"
  shows "safe rank guard outer worker s"
proof -
  have h: "held s t = []" for t using assms by (simp add: begins_def)
  have c: "todo s t = [] \<or> (\<exists>p. plays t p \<and> runs p (todo s t))" for t using assms by (simp add: begins_def)
  have "orderly rank guard outer (held s t) (todo s t)" for t
    using c [of t] in_order runs_orderly [of _ "todo s t" rank guard outer "[]" "[]"] by (auto simp: h)
  moreover have "worker u \<and> \<not> worker t" if "Act (Join u) \<in> set (todo s t)" for t u
    using c [of t] that runs_acts joins by fastforce
  moreover have "\<not> outer l" if "worker t" "Acquire m l \<in> set (todo s t)" for t m l
    using c [of t] that runs_locks inner by fastforce
  ultimately show ?thesis by (simp add: safe_def exclusive_def workers_apart_def h)
qed

lemma reach_safe: "begins plays s0 \<Longrightarrow> (steps_to wp)\<^sup>*\<^sup>* s0 s \<Longrightarrow> safe rank guard outer worker s"
  by (rule safe_reach [OF _ begins_safe])

end

text \<open>What a stuck thread waits for.\<close>

lemma stuck_head:
  assumes "stuck wp s" "s t = (hs, i # is)"
  shows "(\<exists>m l. i = Acquire m l \<and> \<not> grants wp s t m l) \<or> (\<exists>u. i = Act (Join u) \<and> todo s u \<noteq> [])"
proof (rule ccontr)
  assume n: "\<not> ?thesis"
  have "\<exists>s'. steps_to wp s s'"
  proof (cases i)
    case (Act a)
    with n have "may_act s a" by (auto simp: may_act_def split: act.splits)
    with assms(2) Act show ?thesis by (blast intro: step_act)
  qed (use n assms(2) in \<open>blast intro: step_acquire step_release\<close>)+
  with assms(1) show False by (simp add: stuck_def)
qed

text \<open>A refused lock is held by somebody, or a writer that waits for it is itself refused.\<close>

lemma refused_holder:
  assumes "stuck wp s" "\<not> grants wp s t m l"
  shows "\<exists>u x. (x, l) \<in> set (held s u)"
proof (cases "\<exists>u. (Excl, l) \<in> set (held s u) \<or> m = Excl")
  case True
  with assms(2) show ?thesis by (cases m) (auto simp: grants_def)
next
  case False
  with assms(2) obtain u "is" where u: "todo s u = Acquire Excl l # is" by (cases m) (auto simp: grants_def)
  then have "\<not> grants wp s u Excl l" using stuck_head [OF assms(1), of u "held s u" "Acquire Excl l" "is"] by (metis instr.distinct(3) instr.inject(1) prod.collapse)
  then show ?thesis by (auto simp: grants_def)
qed

text \<open>A thread that can go on with nothing but the end of another waits, in the end, for a refused lock of a worker.\<close>

lemma stuck_worker:
  assumes "stuck wp s" "workers_apart outer worker s" "worker t" "todo s t \<noteq> []"
  shows "\<exists>m l is. todo s t = Acquire m l # is \<and> \<not> grants wp s t m l \<and> \<not> outer l"
proof -
  obtain i "is" where t: "todo s t = i # is" using assms(4) by (meson neq_Nil_conv)
  have "\<not> (\<exists>u. i = Act (Join u))" using assms(2,3) t unfolding workers_apart_def by (metis list.set_intros(1))
  with stuck_head [OF assms(1), of t "held s t" i "is"] t obtain m l where
    i: "i = Acquire m l" "\<not> grants wp s t m l" by (metis prod.collapse)
  moreover have "\<not> outer l" using assms(2,3) t i(1) unfolding workers_apart_def by (metis list.set_intros(1))
  ultimately show ?thesis using t by blast
qed

lemma stuck_refused:
  assumes "stuck wp s" "workers_apart outer worker s"
  shows "\<exists>t m l is. todo s t = Acquire m l # is \<and> \<not> grants wp s t m l"
proof -
  obtain t i "is" where t: "todo s t = i # is" using assms(1) by (metis stuck_def neq_Nil_conv)
  consider m l where "i = Acquire m l" "\<not> grants wp s t m l" | u where "i = Act (Join u)" "todo s u \<noteq> []"
    using stuck_head [OF assms(1), of t "held s t" i "is"] t by (metis prod.collapse)
  then show ?thesis
  proof cases
    case 2
    then have "worker u" using assms(2) t unfolding workers_apart_def by (metis list.set_intros(1))
    from stuck_worker [OF assms this 2(2)] show ?thesis by blast
  qed (use t in blast)
qed

lemma refused_higher:
  assumes "stuck wp s" "safe rank guard outer worker s" "\<And>l k. outer l \<Longrightarrow> \<not> outer k \<Longrightarrow> rank l < rank k" "\<not> grants wp s t m l"
  shows "\<exists>u k n is. todo s u = Acquire n k # is \<and> \<not> grants wp s u n k \<and> rank l < rank k"
proof -
  obtain u x where u: "(x, l) \<in> set (held s u)" using refused_holder [OF assms(1,4)] by blast
  moreover have "orderly rank guard outer (held s u) (todo s u)" and ap: "workers_apart outer worker s"
    using assms(2) by (simp_all add: safe_def)
  ultimately obtain i js where i: "todo s u = i # js" "\<And>v. i = Act (Join v) \<Longrightarrow> outer l" "\<And>n k. i = Acquire n k \<Longrightarrow> rank l < rank k"
    by (metis orderly_holding)
  consider n k where "i = Acquire n k" "\<not> grants wp s u n k" | v where "i = Act (Join v)" "todo s v \<noteq> []"
    using stuck_head [OF assms(1), of u "held s u" i js] i(1) by (metis prod.collapse)
  then show ?thesis
  proof cases
    case 2
    then have "worker v" using ap i(1) unfolding workers_apart_def by (metis list.set_intros(1))
    from stuck_worker [OF assms(1) ap this 2(2)] show ?thesis using assms(3) i(2) [OF 2(1)] by blast
  qed (use i in blast)
qed

section \<open>What the discipline gives\<close>

context lock_order
begin

lemma not_stuck:
  assumes "begins plays s0" "(steps_to wp)\<^sup>*\<^sup>* s0 s"
  shows "\<not> stuck wp s"
proof
  assume st: "stuck wp s"
  have sf: "safe rank guard outer worker s" by (rule reach_safe [OF assms])
  let ?P = "\<lambda>r. \<exists>t m l is. todo s t = Acquire m l # is \<and> \<not> grants wp s t m l \<and> rank l = r"
  have fin: "finite {r. ?P r}" by (rule finite_subset [OF _ finite_ranks]) auto
  have ne: "{r. ?P r} \<noteq> {}" using stuck_refused [OF st, of outer worker] sf unfolding safe_def by blast
  obtain t m l "is" where t: "todo s t = Acquire m l # is" "\<not> grants wp s t m l" "rank l = Max {r. ?P r}"
    using Max_in [OF fin ne] by blast
  obtain u n k js where u: "todo s u = Acquire n k # js" "\<not> grants wp s u n k" "rank l < rank k"
    using refused_higher [OF st sf outer_below t(2)] by blast
  then have "rank k \<le> Max {r. ?P r}" by (intro Max_ge [OF fin]) blast
  with u(3) t(3) show False by simp
qed

lemma never_together:
  assumes "begins plays s0" "(steps_to wp)\<^sup>*\<^sup>* s0 s" "guard d = Some l" "t \<noteq> u"
    and "todo s t = Act (Touch m d) # is" "todo s u = Act (Touch n d) # js"
  shows "m = Shared \<and> n = Shared"
proof -
  have sf: "safe rank guard outer worker s" by (rule reach_safe [OF assms(1,2)])
  have "orderly rank guard outer (held s v) (todo s v)" for v using sf by (simp add: safe_def)
  from this [of t] this [of u] have "covers (held s t) m l" "covers (held s u) n l"
    by (simp_all add: assms(3,5,6))
  then obtain x y where h: "(x, l) \<in> set (held s t)" "m = Excl \<longrightarrow> x = Excl" "(y, l) \<in> set (held s u)" "n = Excl \<longrightarrow> y = Excl"
    using covers_held by metis
  have ex: "(Excl, l) \<in> set (held s v) \<Longrightarrow> v \<noteq> w \<Longrightarrow> (z, l) \<notin> set (held s w)" for v w z
    using sf unfolding safe_def exclusive_def by blast
  have "m \<noteq> Excl" using h(1,2,3) ex [of t u y] assms(4) by auto
  moreover have "n \<noteq> Excl" using h(1,3,4) ex [of u t x] assms(4) by auto
  ultimately show ?thesis by (cases m; cases n) auto
qed

lemma waits_free:
  assumes "begins plays s0" "(steps_to wp)\<^sup>*\<^sup>* s0 s" "todo s t = Act a # is" "a = Sleep \<or> a = Join u" "(m, l) \<in> set (held s t)"
  shows "outer l"
proof -
  have "orderly rank guard outer (held s t) (todo s t)" using reach_safe [OF assms(1,2)] by (simp add: safe_def)
  with assms(3-5) show ?thesis by (auto simp: list_all_iff)
qed

end

text \<open>Every step consumes an instruction, so a family with finitely many active threads finishes.\<close>

definition active :: "('l, 'd, 't) threads \<Rightarrow> 't set" where
  "active s = {t. todo s t \<noteq> []}"

definition work :: "('l, 'd, 't) threads \<Rightarrow> nat" where
  "work s = (\<Sum>t \<in> active s. length (todo s t))"

lemma work_on: "finite A \<Longrightarrow> active s \<subseteq> A \<Longrightarrow> work s = (\<Sum>t \<in> A. length (todo s t))"
  unfolding work_def by (rule sum.mono_neutral_left) (auto simp: active_def)

lemma work_update:
  assumes "finite (active s)" "s t = (hs, i # is)"
  shows "finite (active (s(t := (hs', is)))) \<and> work (s(t := (hs', is))) < work s"
proof -
  let ?s = "s(t := (hs', is))"
  have sub: "active ?s \<subseteq> active s" and t: "t \<in> active s" using assms(2) by (auto simp: active_def split: if_splits)
  have "work ?s = (\<Sum>x \<in> active s. length (todo ?s x))" by (rule work_on [OF assms(1) sub])
  also have "\<dots> < work s" unfolding work_def
    by (rule sum_strict_mono_ex1 [OF assms(1)]) (use t assms(2) in \<open>auto intro: bexI [of _ t]\<close>)
  finally show ?thesis using finite_subset [OF sub assms(1)] by simp
qed

lemma work_step:
  assumes "steps_to wp s s'" "finite (active s)"
  shows "finite (active s') \<and> work s' < work s"
  using assms(1)
proof cases
  case step_acquire
  then show ?thesis using work_update [OF assms(2) step_acquire(2)] by simp
next
  case step_release
  then show ?thesis using work_update [OF assms(2) step_release(2)] by simp
next
  case step_act
  then show ?thesis using work_update [OF assms(2) step_act(2)] by simp
qed

context lock_order
begin

lemma can_finish:
  assumes "begins plays s0" "finite (active s0)" "(steps_to wp)\<^sup>*\<^sup>* s0 s"
  shows "\<exists>s'. (steps_to wp)\<^sup>*\<^sup>* s s' \<and> (\<forall>t. s' t = ([], []))"
proof -
  have "finite (active s)" using assms(3,2) by (induction rule: rtranclp_induct) (auto dest: work_step)
  with assms(3) show ?thesis
  proof (induction "work s" arbitrary: s rule: less_induct)
    case less
    show ?case
    proof (cases "\<exists>t. todo s t \<noteq> []")
      case True
      then obtain s1 where s1: "steps_to wp s s1" using not_stuck [OF assms(1) less(2)] unfolding stuck_def by blast
      from work_step [OF this less(3)] less(1) [of s1] less(2) s1 show ?thesis
        by (meson converse_rtranclp_into_rtranclp rtranclp.rtrancl_into_rtrancl)
    next
      case False
      then have "s t = ([], [])" for t using reach_safe [OF assms(1) less(2)] unfolding safe_def by (metis orderly.simps(1) prod.collapse)
      then show ?thesis by blast
    qed
  qed
qed

end

text \<open>No schedule is longer than the work there was.\<close>

lemma run_length: "finite (active s0) \<Longrightarrow> (steps_to wp ^^ n) s0 s \<Longrightarrow> finite (active s) \<and> work s + n \<le> work s0"
proof (induction n arbitrary: s)
  case (Suc n)
  then obtain s1 where s1: "(steps_to wp ^^ n) s0 s1" "steps_to wp s1 s" by auto
  with Suc.IH [OF Suc.prems(1) s1(1)] work_step [OF s1(2)] show ?case by linarith
qed auto

text \<open>A run of every skeleton: the first branch of a choice, one round of a loop.\<close>

fun first_run :: "('l, 'd, 't) skel \<Rightarrow> ('l, 'd, 't) instr list" where
  "first_run Skip = []"
| "first_run (Do a) = [Act a]"
| "first_run (Locked m l p) = Acquire m l # first_run p @ [Release l]"
| "first_run (Then p q) = first_run p @ first_run q"
| "first_run (Either p q) = first_run p"
| "first_run (Repeat p) = first_run p"

lemma runs_first_run: "runs p (first_run p)"
proof (induction p)
  case (Repeat p)
  from run_again [OF this run_stop] show ?case by simp
qed (auto intro: runs.intros)

end
