(* ===== verification/Locks.thy ===== *)
theory Locks
  imports Lock_Order Bcast_Types
begin

text \<open>
  The locks of the module, who takes them and in which order. Every function of the module that takes
  a lock, waits, or touches data that a lock guards has its skeleton here, with its branches and
  loops and with the calls it makes, in the source's order; functions that do none of this are \<open>Skip\<close> where
  they are called. The interpretations show that the skeletons keep the documented lock order, touch
  guarded data under its lock and hold nothing while they sleep or join, as long as no application bound to a
  key calls the module; and that without that condition they still cannot deadlock, as long as such an
  application does not take \<open>config_rwlock\<close> again.
\<close>

section \<open>Locks, data and threads\<close>

text \<open>The locks of \<open>broadcast_obj\<close>, \<open>member_obj\<close> and the module's globals, outermost first.\<close>

datatype lock_kind = HashL | ConfigL | ControlL | SpeakerL | ListenerL | RecordingL | AudioInL | PlayL | MohL | IdL | EventL

text \<open>
  The order documented in mod_broadcast.h, \<open>hash > config_rwlock > control > speaker > listener > recording > audio_in_mutex\<close>;
  the four mutexes that are documented to rank below \<open>listener_lock\<close> follow.
\<close>

fun lock_rank :: "lock_kind \<Rightarrow> nat" where
  "lock_rank HashL = 0"
| "lock_rank ConfigL = 1"
| "lock_rank ControlL = 2"
| "lock_rank SpeakerL = 3"
| "lock_rank ListenerL = 4"
| "lock_rank RecordingL = 5"
| "lock_rank AudioInL = 6"
| "lock_rank PlayL = 7"
| "lock_rank MohL = 8"
| "lock_rank IdL = 9"
| "lock_rank EventL = 10"

lemma lock_rank_inj: "lock_rank x = lock_rank y \<Longrightarrow> x = y"
  by (cases x; cases y) auto

instantiation lock_kind :: linorder
begin

definition less_eq_lock_kind :: "lock_kind \<Rightarrow> lock_kind \<Rightarrow> bool" where
  "less_eq_lock_kind x y = (lock_rank x \<le> lock_rank y)"

definition less_lock_kind :: "lock_kind \<Rightarrow> lock_kind \<Rightarrow> bool" where
  "less_lock_kind x y = (lock_rank x < lock_rank y)"

instance
  by standard (auto simp: less_eq_lock_kind_def less_lock_kind_def intro: lock_rank_inj)

end

lemma finite_lock_kinds: "finite (UNIV :: lock_kind set)"
proof -
  have "UNIV = {HashL, ConfigL, ControlL, SpeakerL, ListenerL, RecordingL, AudioInL, PlayL, MohL, IdL, EventL}"
    using lock_kind.exhaust by blast
  then show ?thesis by (metis finite.emptyI finite_insert)
qed

text \<open>
  A lock is a kind and its owner: a broadcast, a member for \<open>audio_in_mutex\<close>, 0 for the two global ones.
  The shared data, with the same owners. Three kinds have no lock of their own, because the code touches
  them without one: the settings of the configuration (\<open>default_profile_name\<close>, \<open>max_broadcasts\<close>,
  \<open>event_ring_size\<close>; written under \<open>config_rwlock\<close>, read also without it), the counter \<open>listener_count\<close>
  (written under \<open>listener_lock\<close>, read also without it) and the state of a recording that its writer thread
  changes (the file handle and \<open>running\<close>; owned by the thread, read and changed by others under \<open>recording_lock\<close>).
\<close>

type_synonym lock_id = "lock_kind \<times> nat"

datatype shared_data = BroadcastTable | Profiles | CurrentSpeaker | ListenerList | Recordings | AudioBuffer | PlayFile | MohFile
  | NextId | EventRing | Settings | ListenerCount | RecorderState

type_synonym data_id = "shared_data \<times> nat"

fun guard_kind :: "shared_data \<Rightarrow> lock_kind option" where
  "guard_kind BroadcastTable = Some HashL"
| "guard_kind Profiles = Some ConfigL"
| "guard_kind CurrentSpeaker = Some SpeakerL"
| "guard_kind ListenerList = Some ListenerL"
| "guard_kind Recordings = Some RecordingL"
| "guard_kind AudioBuffer = Some AudioInL"
| "guard_kind PlayFile = Some PlayL"
| "guard_kind MohFile = Some MohL"
| "guard_kind NextId = Some IdL"
| "guard_kind EventRing = Some EventL"
| "guard_kind Settings = None"
| "guard_kind ListenerCount = None"
| "guard_kind RecorderState = None"

definition guard_of :: "data_id \<Rightarrow> lock_id option" where
  "guard_of d = map_option (\<lambda>k. (k, snd d)) (guard_kind (fst d))"

text \<open>The threads: one producer per broadcast, one writer per recording, one input thread per speaker, and the callers.\<close>

datatype thread_id = ProducerThread baddr | WriterThread nat | InputThread maddr | EmitterThread | RuntimeThread
  | SessionThread maddr | ApiThread nat | UnloadThread

fun is_worker :: "thread_id \<Rightarrow> bool" where
  "is_worker (ProducerThread b) = True"
| "is_worker (WriterThread w) = True"
| "is_worker (InputThread m) = True"
| "is_worker EmitterThread = True"
| "is_worker _ = False"

type_synonym lskel = "(lock_id, data_id, thread_id) skel"

abbreviation rd :: "lock_kind \<Rightarrow> nat \<Rightarrow> lskel \<Rightarrow> lskel" where
  "rd k i p \<equiv> Locked Shared (k, i) p"

abbreviation wr :: "lock_kind \<Rightarrow> nat \<Rightarrow> lskel \<Rightarrow> lskel" where
  "wr k i p \<equiv> Locked Excl (k, i) p"

abbreviation look :: "shared_data \<Rightarrow> nat \<Rightarrow> lskel" where
  "look d i \<equiv> Do (Touch Shared (d, i))"

abbreviation change :: "shared_data \<Rightarrow> nat \<Rightarrow> lskel" where
  "change d i \<equiv> Do (Touch Excl (d, i))"

abbreviation change_config :: lskel where
  "change_config \<equiv> Then (change Profiles 0) (change Settings 0)"

named_theorems skeletons

section \<open>Events\<close>

definition broadcast_enqueue_event_locks :: "baddr \<Rightarrow> lskel" where
  [skeletons]: "broadcast_enqueue_event_locks b =
     maybe (wr EventL b (Then (look EventRing b) (maybe (change EventRing b))))"

definition b_find_member_by_id_locks :: "baddr \<Rightarrow> lskel" where
  [skeletons]: "b_find_member_by_id_locks b =
     Then (rd ListenerL b (look ListenerList b)) (maybe (rd SpeakerL b (look CurrentSpeaker b)))"

text \<open>The \<open>Listener-Count\<close> header reads the counter without the lock.\<close>

definition b_fire_evt_msg_locks :: "baddr \<Rightarrow> lskel" where
  [skeletons]: "b_fire_evt_msg_locks b =
     maybe (in_turn [
       one_of [in_turn [b_find_member_by_id_locks b, look ListenerCount b], b_find_member_by_id_locks b, Skip],
       Do Outside])"

definition broadcast_fire_critical_event_locks :: "baddr \<Rightarrow> lskel" where
  [skeletons]: "broadcast_fire_critical_event_locks b = b_fire_evt_msg_locks b"

text \<open>The emitter: the ring's mutex is given back while one event is fired, the table's lock is kept. The table may be different in the next pass.\<close>

definition emitter_pass_locks :: "baddr list \<Rightarrow> lskel" where
  [skeletons]: "emitter_pass_locks bs =
     rd HashL 0 (Then (look BroadcastTable 0) (in_turn (map (\<lambda>b.
       maybe (Then
         (Repeat (Then (wr EventL b (Then (look EventRing b) (change EventRing b))) (b_fire_evt_msg_locks b)))
         (wr EventL b (look EventRing b)))) bs)))"

definition broadcast_event_emitter_run_locks :: "baddr list list \<Rightarrow> lskel" where
  [skeletons]: "broadcast_event_emitter_run_locks passes =
     in_turn (map (\<lambda>bs. Then (emitter_pass_locks bs) (maybe (Do Sleep))) passes)"

definition broadcast_event_emitter_stop_locks :: lskel where
  [skeletons]: "broadcast_event_emitter_stop_locks = maybe (Do (Join EmitterThread))"

section \<open>Configuration\<close>

definition broadcast_config_load_locks :: lskel where
  [skeletons]: "broadcast_config_load_locks = Then (Do Outside) (maybe change_config)"

definition broadcast_config_unload_locks :: lskel where
  [skeletons]: "broadcast_config_unload_locks = wr ConfigL 0 change_config"

definition broadcast_config_reload_locks :: lskel where
  [skeletons]: "broadcast_config_reload_locks =
     wr ConfigL 0 (Then change_config (maybe (Then broadcast_config_load_locks (maybe change_config))))"

definition broadcast_config_clone_profile_locks :: lskel where
  [skeletons]: "broadcast_config_clone_profile_locks = rd ConfigL 0 (Then (maybe (look Settings 0)) (look Profiles 0))"

section \<open>Members and the listener list\<close>

definition broadcast_member_next_id_locks :: "baddr \<Rightarrow> lskel" where
  [skeletons]: "broadcast_member_next_id_locks b = wr IdL b (change NextId b)"

definition broadcast_listener_add_locks :: "baddr \<Rightarrow> lskel" where
  [skeletons]: "broadcast_listener_add_locks b =
     maybe (Either
       (wr ListenerL b (Then (look ListenerList b) (look ListenerCount b)))
       (Then
         (wr ListenerL b (in_turn [look ListenerList b, look ListenerCount b, maybe (broadcast_member_next_id_locks b),
            change ListenerList b, change ListenerCount b]))
         (maybe (broadcast_enqueue_event_locks b))))"

definition broadcast_listener_unlink_for_promotion_locks :: "baddr \<Rightarrow> lskel" where
  [skeletons]: "broadcast_listener_unlink_for_promotion_locks b =
     maybe (wr ListenerL b (Then (look ListenerList b) (maybe (Then (change ListenerList b) (change ListenerCount b)))))"

definition broadcast_listener_del_locks :: "baddr \<Rightarrow> lskel" where
  [skeletons]: "broadcast_listener_del_locks b =
     maybe (wr ListenerL b (Then (look ListenerList b)
       (maybe (in_turn [change ListenerList b, change ListenerCount b, maybe (broadcast_enqueue_event_locks b)]))))"

section \<open>Recording\<close>

text \<open>The writer \<open>w\<close> writes to and closes its file, and clears \<open>running\<close> on an error, without a lock.\<close>

definition broadcast_record_writer_run_locks :: "baddr \<Rightarrow> nat \<Rightarrow> lskel" where
  [skeletons]: "broadcast_record_writer_run_locks b w =
     maybe (in_turn [
       Repeat (in_turn [look RecorderState w, Do Sleep, Repeat (Then (look RecorderState w) (maybe (change RecorderState w)))]),
       maybe (broadcast_enqueue_event_locks b),
       change RecorderState w])"

definition broadcast_record_start_locks :: "baddr \<Rightarrow> lskel" where
  [skeletons]: "broadcast_record_start_locks b =
     maybe (Then (Do Outside) (maybe (Then
       (wr RecordingL b (Then (look Recordings b) (change Recordings b)))
       (Either (Then (wr RecordingL b (change Recordings b)) (Do Outside)) (broadcast_enqueue_event_locks b)))))"

definition broadcast_record_stop_locks :: "baddr \<Rightarrow> nat list \<Rightarrow> lskel" where
  [skeletons]: "broadcast_record_stop_locks b ws =
     Then (wr RecordingL b (in_turn [look Recordings b, maybe (change Recordings b),
         in_turn (map (\<lambda>w. maybe (change RecorderState w)) ws)]))
       (in_turn (map (\<lambda>w. maybe (Then (maybe (Do (Join (WriterThread w)))) (broadcast_enqueue_event_locks b))) ws))"

section \<open>Producer\<close>

definition b_apply_silence_policy_locks :: "baddr \<Rightarrow> lskel" where
  [skeletons]: "b_apply_silence_policy_locks b = maybe (wr MohL b (Then (look MohFile b) (maybe (change MohFile b))))"

text \<open>\<open>ms\<close>: the members that may be speaker while the thread runs.\<close>

definition broadcast_producer_run_locks :: "baddr \<Rightarrow> maddr list \<Rightarrow> lskel" where
  [skeletons]: "broadcast_producer_run_locks b ms =
     Repeat (in_turn [
       Do Sleep,
       maybe (broadcast_enqueue_event_locks b),
       wr PlayL b (Then (look PlayFile b) (maybe (Then (Do Outside) (maybe (change PlayFile b))))),
       rd SpeakerL b (Then (look CurrentSpeaker b)
         (one_of (Skip # map (\<lambda>m. wr AudioInL m (change AudioBuffer m)) ms))),
       maybe (b_apply_silence_policy_locks b)])"

section \<open>Speaker\<close>

definition broadcast_speaker_input_run_locks :: "baddr \<Rightarrow> maddr \<Rightarrow> lskel" where
  [skeletons]: "broadcast_speaker_input_run_locks b m =
     maybe (Repeat (Then (Do Outside)
       (maybe (Then (maybe (broadcast_enqueue_event_locks b)) (wr AudioInL m (change AudioBuffer m))))))"

definition broadcast_speaker_stop_input_locks :: "maddr list \<Rightarrow> lskel" where
  [skeletons]: "broadcast_speaker_stop_input_locks ms = one_of (Skip # map (\<lambda>m. Do (Join (InputThread m))) ms)"

definition broadcast_request_promotion_locks :: "baddr \<Rightarrow> lskel" where
  [skeletons]: "broadcast_request_promotion_locks b =
     maybe (Then (broadcast_listener_unlink_for_promotion_locks b)
       (maybe (Then (Repeat (Do Sleep)) (maybe (broadcast_listener_add_locks b)))))"

definition broadcast_set_speaker_locks :: "baddr \<Rightarrow> maddr list \<Rightarrow> lskel" where
  [skeletons]: "broadcast_set_speaker_locks b ms =
     maybe (Either
       (wr SpeakerL b (look CurrentSpeaker b))
       (in_turn [
         wr SpeakerL b (Then (look CurrentSpeaker b) (change CurrentSpeaker b)),
         broadcast_fire_critical_event_locks b,
         maybe (broadcast_speaker_stop_input_locks ms)]))"

definition broadcast_clear_speaker_locks :: "baddr \<Rightarrow> maddr list \<Rightarrow> lskel" where
  [skeletons]: "broadcast_clear_speaker_locks b ms = broadcast_set_speaker_locks b ms"

definition broadcast_clear_speaker_if_current_locks :: "baddr \<Rightarrow> maddr \<Rightarrow> lskel" where
  [skeletons]: "broadcast_clear_speaker_if_current_locks b m =
     maybe (Then
       (wr SpeakerL b (Then (look CurrentSpeaker b) (maybe (change CurrentSpeaker b))))
       (maybe (broadcast_speaker_stop_input_locks [m])))"

section \<open>Caller controls\<close>

text \<open>\<open>script\<close>: what the application bound to a key does.\<close>

definition b_listener_dispatch_control_locks :: "baddr \<Rightarrow> lskel \<Rightarrow> lskel" where
  [skeletons]: "b_listener_dispatch_control_locks b script = one_of [Do Outside, Skip, broadcast_enqueue_event_locks b, script]"

definition b_listener_match_controls_locks :: "baddr \<Rightarrow> lskel \<Rightarrow> lskel" where
  [skeletons]: "b_listener_match_controls_locks b script =
     maybe (rd ConfigL 0 (Then (look Profiles 0) (maybe (b_listener_dispatch_control_locks b script))))"

definition broadcast_listener_handle_dtmf_locks :: "baddr \<Rightarrow> lskel \<Rightarrow> lskel" where
  [skeletons]: "broadcast_listener_handle_dtmf_locks b script = maybe (b_listener_match_controls_locks b script)"

definition broadcast_listener_run_locks :: "baddr \<Rightarrow> lskel \<Rightarrow> lskel" where
  [skeletons]: "broadcast_listener_run_locks b script =
     maybe (Repeat (in_turn [
       Either (Do Outside) (Do Sleep),
       Repeat (broadcast_listener_handle_dtmf_locks b script),
       maybe (broadcast_enqueue_event_locks b),
       maybe (Do Outside)]))"

definition broadcast_speaker_main_wait_locks :: "baddr \<Rightarrow> maddr list \<Rightarrow> lskel \<Rightarrow> lskel" where
  [skeletons]: "broadcast_speaker_main_wait_locks b ms script =
     Then
       (Repeat (in_turn [
          Repeat (broadcast_listener_handle_dtmf_locks b script),
          rd SpeakerL b (look CurrentSpeaker b),
          maybe (Do Sleep)]))
       (Then (rd SpeakerL b (look CurrentSpeaker b)) (maybe (broadcast_clear_speaker_locks b ms)))"

section \<open>The table of broadcasts\<close>

definition broadcast_find_locks :: lskel where
  [skeletons]: "broadcast_find_locks = maybe (rd HashL 0 (look BroadcastTable 0))"

definition broadcast_find_and_ref_locks :: lskel where
  [skeletons]: "broadcast_find_and_ref_locks = maybe (rd HashL 0 (look BroadcastTable 0))"

text \<open>
  Creation reads \<open>event_ring_size\<close> and, under the table's lock, \<open>max_broadcasts\<close>, which the configuration
  writes under its own lock.
\<close>

definition create_auto_record_locks :: "baddr \<Rightarrow> lskel" where
  [skeletons]: "create_auto_record_locks b =
     maybe (Then (Do Outside) (Either
       (Then (broadcast_record_start_locks b) (maybe (broadcast_enqueue_event_locks b)))
       (broadcast_enqueue_event_locks b)))"

definition broadcast_create_locks :: "baddr \<Rightarrow> lskel" where
  [skeletons]: "broadcast_create_locks b =
     maybe (Then broadcast_config_clone_profile_locks (maybe (Then (look Settings 0) (one_of [
       wr HashL 0 (look BroadcastTable 0),
       wr HashL 0 (Then (look BroadcastTable 0) (look Settings 0)),
       in_turn [
         wr HashL 0 (in_turn [look BroadcastTable 0, look Settings 0, change BroadcastTable 0]),
         broadcast_fire_critical_event_locks b,
         create_auto_record_locks b]]))))"

definition b_hangup_listener_session_by_uuid_locks :: lskel where
  [skeletons]: "b_hangup_listener_session_by_uuid_locks = maybe (Do Outside)"

definition broadcast_kick_listener_locks :: "baddr \<Rightarrow> lskel" where
  [skeletons]: "broadcast_kick_listener_locks b =
     maybe (Then (maybe (broadcast_enqueue_event_locks b))
       (Either b_hangup_listener_session_by_uuid_locks (maybe (Do Outside))))"

definition broadcast_kick_all_listeners_locks :: "baddr \<Rightarrow> lskel" where
  [skeletons]: "broadcast_kick_all_listeners_locks b =
     maybe (Then
       (wr ListenerL b (Then (look ListenerList b) (Repeat (broadcast_enqueue_event_locks b))))
       (Repeat b_hangup_listener_session_by_uuid_locks))"

definition destroy_grace_locks :: "baddr \<Rightarrow> lskel" where
  [skeletons]: "destroy_grace_locks b =
     in_turn [
       broadcast_enqueue_event_locks b,
       maybe (wr PlayL b (in_turn [look PlayFile b, change PlayFile b, Do Outside])),
       Do Sleep,
       wr PlayL b (Then (look PlayFile b) (maybe (change PlayFile b)))]"

text \<open>\<open>ms\<close> the members that may be speaker, \<open>ws\<close> the writer threads of the recordings.\<close>

definition broadcast_destroy_ex_locks :: "baddr \<Rightarrow> maddr list \<Rightarrow> nat list \<Rightarrow> lskel" where
  [skeletons]: "broadcast_destroy_ex_locks b ms ws =
     maybe (in_turn [
       wr ControlL b Skip,
       maybe (destroy_grace_locks b),
       wr ControlL b Skip,
       wr PlayL b (Then (look PlayFile b) (maybe (change PlayFile b))),
       wr MohL b (Then (look MohFile b) (maybe (change MohFile b))),
       broadcast_record_stop_locks b ws,
       wr SpeakerL b (Then (look CurrentSpeaker b) (maybe (change CurrentSpeaker b))),
       maybe (broadcast_speaker_stop_input_locks ms),
       rd ListenerL b (look ListenerList b),
       Repeat b_hangup_listener_session_by_uuid_locks,
       Repeat (in_turn [rd ListenerL b (look ListenerCount b), rd SpeakerL b (look CurrentSpeaker b), maybe (Do Sleep)]),
       Repeat (Do Sleep),
       maybe (Do (Join (ProducerThread b))),
       wr HashL 0 (change BroadcastTable 0),
       broadcast_fire_critical_event_locks b])"

definition broadcast_destroy_all_locks :: "baddr list \<Rightarrow> (baddr \<Rightarrow> maddr list) \<Rightarrow> (baddr \<Rightarrow> nat list) \<Rightarrow> lskel" where
  [skeletons]: "broadcast_destroy_all_locks bs ms ws =
     Then
       (in_turn (map (\<lambda>b. Then (wr HashL 0 (look BroadcastTable 0)) (broadcast_destroy_ex_locks b (ms b) (ws b))) bs))
       (wr HashL 0 (look BroadcastTable 0))"

text \<open>Housekeeping: the heartbeat's texts read \<open>listener_count\<close> outside the lock.\<close>

definition housekeeping_heartbeat_locks :: "baddr \<Rightarrow> lskel" where
  [skeletons]: "housekeeping_heartbeat_locks b =
     maybe (in_turn [rd SpeakerL b (look CurrentSpeaker b), look ListenerCount b, broadcast_enqueue_event_locks b])"

definition broadcast_runtime_housekeeping_locks :: "baddr list \<Rightarrow> lskel" where
  [skeletons]: "broadcast_runtime_housekeeping_locks bs =
     rd HashL 0 (Then (look BroadcastTable 0) (in_turn (map (\<lambda>b.
       maybe (in_turn [
         housekeeping_heartbeat_locks b,
         wr ListenerL b (look ListenerList b),
         Repeat b_hangup_listener_session_by_uuid_locks])) bs)))"

section \<open>API commands\<close>

definition b_find_member_by_id_str_locks :: "baddr \<Rightarrow> lskel" where
  [skeletons]: "b_find_member_by_id_str_locks b =
     maybe (Then (rd ListenerL b (look ListenerList b)) (maybe (rd SpeakerL b (look CurrentSpeaker b))))"

definition b_find_member_pinned_locks :: "baddr \<Rightarrow> lskel" where
  [skeletons]: "b_find_member_pinned_locks b =
     maybe (in_turn [
       rd ListenerL b (look ListenerList b),
       maybe (rd SpeakerL b (look CurrentSpeaker b)),
       maybe (Then (Do Outside) (maybe (b_find_member_by_id_str_locks b)))])"

text \<open>The list of broadcasts reads each \<open>listener_count\<close> outside its lock.\<close>

definition b_api_list_locks :: "baddr list \<Rightarrow> lskel" where
  [skeletons]: "b_api_list_locks bs =
     rd HashL 0 (Then (look BroadcastTable 0) (in_turn (map (\<lambda>b.
       maybe (Then (maybe (rd SpeakerL b (look CurrentSpeaker b))) (look ListenerCount b))) bs)))"

definition b_api_module_stats_locks :: "baddr list \<Rightarrow> lskel" where
  [skeletons]: "b_api_module_stats_locks bs =
     rd HashL 0 (Then (look BroadcastTable 0) (in_turn (map (\<lambda>b. maybe (rd ListenerL b (look ListenerCount b))) bs)))"

definition b_api_listener_detail_locks :: "baddr \<Rightarrow> lskel" where
  [skeletons]: "b_api_listener_detail_locks b =
     maybe (Then (rd ListenerL b (look ListenerList b)) (maybe (rd SpeakerL b (look CurrentSpeaker b))))"

text \<open>The report walks the recordings under their lock and reads what their writers count.\<close>

definition b_api_info_locks :: "baddr \<Rightarrow> nat list \<Rightarrow> lskel" where
  [skeletons]: "b_api_info_locks b ws =
     in_turn [
       rd SpeakerL b (look CurrentSpeaker b),
       rd RecordingL b (Then (look Recordings b) (in_turn (map (\<lambda>w. maybe (look RecorderState w)) ws))),
       rd SpeakerL b (look CurrentSpeaker b),
       look ListenerCount b]"

definition b_api_listeners_locks :: "baddr \<Rightarrow> lskel" where
  [skeletons]: "b_api_listeners_locks b = rd ListenerL b (look ListenerList b)"

text \<open>The subcommands of one broadcast, in the dispatcher's order; the statistics and producer reports take no lock.\<close>

definition api_room_command_locks :: "baddr \<Rightarrow> maddr list \<Rightarrow> nat list \<Rightarrow> lskel" where
  [skeletons]: "api_room_command_locks b ms ws =
     one_of [
       b_api_info_locks b ws,
       b_api_listeners_locks b,
       Skip,
       b_api_listener_detail_locks b,
       Then (b_find_member_pinned_locks b) (maybe (broadcast_request_promotion_locks b)),
       broadcast_clear_speaker_locks b ms,
       Then (b_find_member_pinned_locks b) (maybe (broadcast_kick_listener_locks b)),
       broadcast_kick_all_listeners_locks b,
       Then (wr ControlL b Skip) (broadcast_enqueue_event_locks b),
       broadcast_record_start_locks b,
       broadcast_record_stop_locks b ws,
       Then (b_find_member_pinned_locks b) (maybe (Do Outside)),
       wr PlayL b (in_turn [look PlayFile b, change PlayFile b, Do Outside]),
       wr PlayL b (Then (look PlayFile b) (maybe (change PlayFile b)))]"

definition broadcast_api_dispatch_locks :: "baddr list \<Rightarrow> baddr \<Rightarrow> maddr list \<Rightarrow> nat list \<Rightarrow> lskel" where
  [skeletons]: "broadcast_api_dispatch_locks bs b ms ws =
     one_of [
       Skip,
       broadcast_config_reload_locks,
       b_api_list_locks bs,
       b_api_module_stats_locks bs,
       Then broadcast_find_and_ref_locks
         (maybe (Either (api_room_command_locks b ms ws) (broadcast_destroy_ex_locks b ms ws)))]"

section \<open>The dialplan application and the module's own threads\<close>

definition app_speaker_locks :: "baddr \<Rightarrow> maddr \<Rightarrow> maddr list \<Rightarrow> lskel \<Rightarrow> lskel" where
  [skeletons]: "app_speaker_locks b m ms script =
     Then (rd SpeakerL b (look CurrentSpeaker b)) (Either (Do Outside) (in_turn [
       broadcast_member_next_id_locks b,
       broadcast_set_speaker_locks b ms,
       maybe (Then (broadcast_speaker_main_wait_locks b ms script) (broadcast_clear_speaker_if_current_locks b m))]))"

definition app_listener_locks :: "baddr \<Rightarrow> maddr \<Rightarrow> maddr list \<Rightarrow> lskel \<Rightarrow> lskel" where
  [skeletons]: "app_listener_locks b m ms script =
     Then (broadcast_listener_add_locks b) (Either (Do Outside) (in_turn [
       broadcast_listener_run_locks b script,
       Either
         (Then (broadcast_set_speaker_locks b ms) (maybe (broadcast_speaker_main_wait_locks b ms script)))
         (broadcast_listener_del_locks b),
       broadcast_clear_speaker_if_current_locks b m]))"

text \<open>The name of the default profile is read without the configuration's lock.\<close>

definition broadcast_app_function_locks :: "baddr \<Rightarrow> maddr \<Rightarrow> maddr list \<Rightarrow> lskel \<Rightarrow> lskel" where
  [skeletons]: "broadcast_app_function_locks b m ms script =
     maybe (Then broadcast_find_and_ref_locks (one_of [
       Do Outside,
       Then (look Settings 0) (broadcast_create_locks b),
       Then (maybe (Then (maybe (look Settings 0)) (broadcast_create_locks b)))
         (maybe (Either (app_speaker_locks b m ms script) (app_listener_locks b m ms script)))]))"

definition mod_broadcast_shutdown_locks :: "baddr list \<Rightarrow> (baddr \<Rightarrow> maddr list) \<Rightarrow> (baddr \<Rightarrow> nat list) \<Rightarrow> lskel" where
  [skeletons]: "mod_broadcast_shutdown_locks bs ms ws =
     in_turn [
       Repeat (Do Sleep),
       broadcast_event_emitter_stop_locks,
       broadcast_destroy_all_locks bs ms ws,
       broadcast_config_unload_locks]"

text \<open>One pass of the runtime thread; the table may be different in the next.\<close>

definition mod_broadcast_runtime_locks :: "baddr list list \<Rightarrow> lskel" where
  [skeletons]: "mod_broadcast_runtime_locks passes =
     in_turn (map (\<lambda>bs. Then (Repeat (Do Sleep)) (maybe (broadcast_runtime_housekeeping_locks bs))) passes)"

section \<open>The module's threads\<close>

text \<open>
  What an application bound to a key may do and leave \<open>config_rwlock\<close> alone: anything outside the module, and any
  command of the module but \<open>reload\<close>, in any order, choice and repetition. It runs inside the session's hold on
  \<open>config_rwlock\<close>.
\<close>

inductive key_script :: "lskel \<Rightarrow> bool" where
  key_outside: "key_script (Do Outside)"
| key_list: "key_script (b_api_list_locks bs)"
| key_stats: "key_script (b_api_module_stats_locks bs)"
| key_room: "key_script (Then broadcast_find_and_ref_locks (maybe (api_room_command_locks b ms ws)))"
| key_destroy: "key_script (Then broadcast_find_and_ref_locks (maybe (broadcast_destroy_ex_locks b ms ws)))"
| key_then: "key_script p \<Longrightarrow> key_script q \<Longrightarrow> key_script (Then p q)"
| key_either: "key_script p \<Longrightarrow> key_script q \<Longrightarrow> key_script (Either p q)"
| key_repeat: "key_script p \<Longrightarrow> key_script (Repeat p)"

text \<open>What each thread runs, for any addresses, when \<open>scripts\<close> are what applications bound to keys may do.\<close>

inductive plays :: "(lskel \<Rightarrow> bool) \<Rightarrow> thread_id \<Rightarrow> lskel \<Rightarrow> bool" for scripts where
  plays_producer: "plays scripts (ProducerThread b) (broadcast_producer_run_locks b ms)"
| plays_writer: "plays scripts (WriterThread w) (broadcast_record_writer_run_locks b w)"
| plays_input: "plays scripts (InputThread m) (broadcast_speaker_input_run_locks b m)"
| plays_emitter: "plays scripts EmitterThread (broadcast_event_emitter_run_locks passes)"
| plays_runtime: "plays scripts RuntimeThread (mod_broadcast_runtime_locks passes)"
| plays_session: "scripts q \<Longrightarrow> plays scripts (SessionThread m) (broadcast_app_function_locks b m ms q)"
| plays_api: "plays scripts (ApiThread n) (broadcast_api_dispatch_locks bs b ms ws)"
| plays_unload: "plays scripts UnloadThread (mod_broadcast_shutdown_locks bs ms ws)"

lemma plays_mono: "plays scripts t p \<Longrightarrow> (\<And>q. scripts q \<Longrightarrow> scripts' q) \<Longrightarrow> plays scripts' t p"
  by (induction rule: plays.induct) (auto intro: plays.intros)

lemma begins_mono:
  assumes "begins (plays scripts) s" "\<And>q. scripts q \<Longrightarrow> scripts' q"
  shows "begins (plays scripts') s"
proof -
  have "plays scripts' t p" if "plays scripts t p" for t p by (rule plays_mono [OF that assms(2)])
  with assms(1) show ?thesis unfolding begins_def by blast
qed

section \<open>The discipline holds\<close>

text \<open>
  Two orders are checked at once: the documented one, with no lock kept in a wait (\<open>wait = False\<close>), and the one
  in which threads can wait for each other (\<open>wait = True\<close>): there \<open>config_rwlock\<close> is outermost, since an
  application bound to a key runs under it, and may be kept while sleeping or joining.
\<close>

definition lock_level :: "bool \<Rightarrow> lock_id \<Rightarrow> nat" where
  "lock_level wait l = (if wait then (if fst l = ConfigL then 0 else Suc (lock_rank (fst l))) else lock_rank (fst l))"

definition kept_waiting :: "bool \<Rightarrow> lock_id \<Rightarrow> bool" where
  "kept_waiting wait l \<longleftrightarrow> wait \<and> fst l = ConfigL"

lemmas level_simps [simp] = lock_level_def kept_waiting_def

abbreviation tidy :: "bool \<Rightarrow> (access \<times> lock_id) list \<Rightarrow> lskel \<Rightarrow> bool" where
  "tidy wait \<equiv> disciplined (lock_level wait) guard_of (kept_waiting wait)"

lemma guard_of_simp [simp]: "guard_of (d, i) = map_option (\<lambda>k. (k, i)) (guard_kind d)"
  by (simp add: guard_of_def)

text \<open>What a thread holds when it calls the module: nothing, or the configuration's lock around a key's action.\<close>

definition outermost :: "bool \<Rightarrow> (access \<times> lock_id) list \<Rightarrow> bool" where
  "outermost wait hs \<longleftrightarrow> hs = [] \<or> wait \<and> hs = [(Shared, (ConfigL, 0))]"

lemma outermost_nil [simp]: "outermost wait []"
  by (simp add: outermost_def)

lemma above_outermost [simp]: "outermost wait hs \<Longrightarrow> k \<noteq> ConfigL \<Longrightarrow> above (lock_level wait) (k, i) hs"
  by (auto simp: outermost_def)

lemma kept_outermost [simp]: "outermost wait hs \<Longrightarrow> list_all (\<lambda>(m, x). kept_waiting wait x) hs"
  by (auto simp: outermost_def)

lemma kept_outermost_set [simp]: "outermost wait hs \<Longrightarrow> \<forall>(m, x) \<in> set hs. kept_waiting wait x"
  by (auto simp: outermost_def)

declare level_simps [simp del]

lemma level_less [simp]:
  "k \<noteq> ConfigL \<Longrightarrow> k' \<noteq> ConfigL \<Longrightarrow> lock_level wait (k, i) < lock_level wait (k', j) \<longleftrightarrow> lock_rank k < lock_rank k'"
  by (simp add: level_simps)

lemma level_config [simp]: "k \<noteq> ConfigL \<Longrightarrow> k \<noteq> HashL \<Longrightarrow> lock_level wait (ConfigL, i) < lock_level wait (k, j)"
  by (cases k) (simp_all add: level_simps)

text \<open>The parts that are called from many places, below whatever locks their callers hold.\<close>

lemma enqueue_tidy [simp]: "above (lock_level wait) (EventL, b) hs \<Longrightarrow> tidy wait hs (broadcast_enqueue_event_locks b)"
  by (simp add: skeletons)

lemma fire_tidy [simp]:
  "above (lock_level wait) (SpeakerL, b) hs \<Longrightarrow> above (lock_level wait) (ListenerL, b) hs \<Longrightarrow> tidy wait hs (b_fire_evt_msg_locks b)"
  by (simp add: skeletons)

lemma record_tidy [simp]:
  assumes "outermost wait hs"
  shows "tidy wait hs (broadcast_record_start_locks b)" "tidy wait hs (broadcast_record_stop_locks b ws)"
  using assms by (simp_all add: broadcast_record_start_locks_def broadcast_record_stop_locks_def list_all_iff)

lemma stop_input_tidy [simp]: "outermost wait hs \<Longrightarrow> tidy wait hs (broadcast_speaker_stop_input_locks ms)"
  by (simp add: broadcast_speaker_stop_input_locks_def list_all_iff)

lemma set_speaker_tidy [simp]: "outermost wait hs \<Longrightarrow> tidy wait hs (broadcast_set_speaker_locks b ms)"
  by (simp add: broadcast_set_speaker_locks_def broadcast_fire_critical_event_locks_def)

lemma find_tidy [simp]: "outermost wait hs \<Longrightarrow> tidy wait hs broadcast_find_and_ref_locks"
  by (simp add: broadcast_find_and_ref_locks_def)

lemma destroy_tidy [simp]: "outermost wait hs \<Longrightarrow> tidy wait hs (broadcast_destroy_ex_locks b ms ws)"
  by (simp add: broadcast_destroy_ex_locks_def destroy_grace_locks_def b_hangup_listener_session_by_uuid_locks_def
      broadcast_fire_critical_event_locks_def)

lemma listener_add_tidy [simp]: "outermost wait hs \<Longrightarrow> tidy wait hs (broadcast_listener_add_locks b)"
  by (simp add: broadcast_listener_add_locks_def broadcast_member_next_id_locks_def)

lemma room_command_tidy [simp]: "outermost wait hs \<Longrightarrow> tidy wait hs (api_room_command_locks b ms ws)"
  by (simp add: api_room_command_locks_def b_api_info_locks_def b_api_listeners_locks_def b_api_listener_detail_locks_def
      b_find_member_pinned_locks_def b_find_member_by_id_str_locks_def broadcast_request_promotion_locks_def
      broadcast_listener_unlink_for_promotion_locks_def broadcast_clear_speaker_locks_def broadcast_kick_listener_locks_def
      broadcast_kick_all_listeners_locks_def b_hangup_listener_session_by_uuid_locks_def list_all_iff)

lemma list_tidy [simp]:
  assumes "outermost wait hs"
  shows "tidy wait hs (b_api_list_locks bs)" "tidy wait hs (b_api_module_stats_locks bs)"
  using assms by (simp_all add: b_api_list_locks_def b_api_module_stats_locks_def list_all_iff)

lemma key_script_tidy: "key_script q \<Longrightarrow> tidy True [(Shared, (ConfigL, 0))] q"
  by (induction rule: key_script.induct) (simp_all add: outermost_def)

lemma create_tidy [simp]: "tidy wait [] (broadcast_create_locks b)"
  by (simp add: broadcast_create_locks_def broadcast_config_clone_profile_locks_def create_auto_record_locks_def
      broadcast_fire_critical_event_locks_def)

lemma handle_dtmf_tidy [simp]: "tidy wait [(Shared, (ConfigL, 0))] script \<Longrightarrow> tidy wait [] (broadcast_listener_handle_dtmf_locks b script)"
  by (simp add: broadcast_listener_handle_dtmf_locks_def b_listener_match_controls_locks_def b_listener_dispatch_control_locks_def)

lemma app_tidy [simp]:
  assumes "tidy wait [(Shared, (ConfigL, 0))] script"
  shows "tidy wait [] (broadcast_app_function_locks b m ms script)"
  using handle_dtmf_tidy [OF assms]
  by (simp add: broadcast_app_function_locks_def app_speaker_locks_def app_listener_locks_def
      broadcast_speaker_main_wait_locks_def broadcast_listener_run_locks_def broadcast_clear_speaker_if_current_locks_def
      broadcast_clear_speaker_locks_def broadcast_listener_del_locks_def broadcast_member_next_id_locks_def)

lemma producer_tidy [simp]: "tidy wait [] (broadcast_producer_run_locks b ms)"
  by (simp add: broadcast_producer_run_locks_def b_apply_silence_policy_locks_def list_all_iff)

lemma input_tidy [simp]: "tidy wait [] (broadcast_speaker_input_run_locks b m)"
  by (simp add: broadcast_speaker_input_run_locks_def)

lemma plays_tidy: "plays scripts t p \<Longrightarrow> (\<And>q. scripts q \<Longrightarrow> tidy wait [(Shared, (ConfigL, 0))] q) \<Longrightarrow> tidy wait [] p"
proof (induction rule: plays.induct)
  case plays_writer
  show ?case by (simp add: broadcast_record_writer_run_locks_def)
next
  case plays_emitter
  show ?case by (simp add: broadcast_event_emitter_run_locks_def emitter_pass_locks_def list_all_iff)
next
  case plays_runtime
  show ?case by (simp add: mod_broadcast_runtime_locks_def broadcast_runtime_housekeeping_locks_def housekeeping_heartbeat_locks_def
      b_hangup_listener_session_by_uuid_locks_def list_all_iff)
next
  case plays_api
  show ?case by (simp add: broadcast_api_dispatch_locks_def broadcast_config_reload_locks_def broadcast_config_load_locks_def)
next
  case plays_unload
  show ?case by (simp add: mod_broadcast_shutdown_locks_def broadcast_event_emitter_stop_locks_def broadcast_destroy_all_locks_def
      broadcast_config_unload_locks_def list_all_iff)
qed simp_all

text \<open>Who joins whom, and that no joined thread takes the configuration's lock.\<close>

fun proper_act :: "(data_id, thread_id) act \<Rightarrow> bool" where
  "proper_act (Join u) = is_worker u"
| "proper_act _ = True"

fun no_join :: "(data_id, thread_id) act \<Rightarrow> bool" where
  "no_join (Join u) = False"
| "no_join _ = True"

lemma key_script_proper: "key_script q \<Longrightarrow> all_acts proper_act q"
  by (induction rule: key_script.induct) (simp_all add: skeletons list_all_iff)

lemma plays_proper: "plays scripts t p \<Longrightarrow> (\<And>q. scripts q \<Longrightarrow> all_acts proper_act q) \<Longrightarrow> all_acts proper_act p"
  by (induction rule: plays.induct) (simp_all add: skeletons list_all_iff)

lemma workers_join_nobody: "plays scripts t p \<Longrightarrow> is_worker t \<Longrightarrow> all_acts no_join p"
  by (induction rule: plays.induct) (simp_all add: skeletons list_all_iff)

lemma workers_skip_config: "plays scripts t p \<Longrightarrow> is_worker t \<Longrightarrow> l \<in> locks_in p \<Longrightarrow> fst l \<noteq> ConfigL"
  by (induction rule: plays.induct) (auto simp: skeletons split: if_splits)

lemma plays_joins:
  assumes "plays scripts t p" "\<And>q. scripts q \<Longrightarrow> all_acts proper_act q" "Join u \<in> acts p"
  shows "is_worker u \<and> \<not> is_worker t"
  using plays_proper [OF assms(1,2), THEN all_actsD, of "Join u"] workers_join_nobody [OF assms(1), THEN all_actsD, of "Join u"] assms(3)
  by auto

lemma finite_levels: "finite (range (lock_level wait))"
proof (rule finite_subset)
  have "lock_level wait (k, i) \<le> 11" for k i by (cases k) (simp_all add: level_simps)
  then have "lock_level wait l \<le> 11" for l by (cases l) simp
  then show "range (lock_level wait) \<subseteq> {.. 11}" by auto
qed simp

text \<open>Applications bound to keys that stay outside the module, and those that may call it.\<close>

definition stays_outside :: "lskel \<Rightarrow> bool" where
  "stays_outside q \<longleftrightarrow> q = Do Outside"

interpretation waiting: lock_order "lock_level True" guard_of "kept_waiting True" "plays key_script" is_worker
proof
  show "finite (range (lock_level True))" by (rule finite_levels)
  show "kept_waiting True l \<Longrightarrow> \<not> kept_waiting True k \<Longrightarrow> lock_level True l < lock_level True k" for l k
    by (simp add: level_simps)
  show "plays key_script t p \<Longrightarrow> is_worker t \<Longrightarrow> l \<in> locks_in p \<Longrightarrow> \<not> kept_waiting True l" for t p l
    using workers_skip_config by (simp add: level_simps)
qed (use plays_tidy key_script_tidy plays_joins key_script_proper in blast)+

interpretation documented: lock_order fst guard_of "\<lambda>l. False" "plays stays_outside" is_worker
proof
  show "finite (range (fst :: lock_id \<Rightarrow> lock_kind))" by (rule finite_subset [OF subset_UNIV finite_lock_kinds])
  fix t p assume p: "plays stays_outside t p"
  have "tidy False [] p" by (rule plays_tidy [OF p]) (simp add: stays_outside_def)
  moreover have "above (lock_level False) l hs = above fst l hs" for l :: lock_id and hs :: "(access \<times> lock_id) list"
    by (simp add: above_def level_simps less_lock_kind_def)
  moreover have "kept_waiting False = (\<lambda>l. False)" by (rule ext) (simp add: level_simps)
  ultimately show "disciplined fst guard_of (\<lambda>l. False) [] p" using disciplined_same_order by metis
next
  show "plays stays_outside t p \<Longrightarrow> Join u \<in> acts p \<Longrightarrow> is_worker u \<and> \<not> is_worker t" for t p u
    by (rule plays_joins [where scripts = stays_outside]) (auto simp: stays_outside_def)
qed auto

section \<open>Theorems\<close>

text \<open>
  A reload, a session and a producer side by side, for the witnesses; the session's key-bound applications
  may destroy the broadcast.
\<close>

definition destroy_script :: lskel where
  "destroy_script = Then broadcast_find_and_ref_locks (maybe (broadcast_destroy_ex_locks 7 [3] []))"

lemma destroy_script_key: "q = destroy_script \<Longrightarrow> key_script q"
  by (simp add: destroy_script_def key_destroy)

definition reload_family :: "lskel \<Rightarrow> (lock_id, data_id, thread_id) threads" where
  "reload_family q t =
     ([], if t = ApiThread 0 then first_run broadcast_config_reload_locks
          else if t = SessionThread 3 then first_run (broadcast_app_function_locks 7 3 [3] q)
          else if t = ProducerThread 7 then first_run (broadcast_producer_run_locks 7 [3])
          else [])"

lemma reload_family_begins: "begins (plays (\<lambda>p. p = q)) (reload_family q)"
proof -
  have "runs (broadcast_api_dispatch_locks [] 7 [] []) (first_run broadcast_config_reload_locks)"
    by (auto simp: broadcast_api_dispatch_locks_def intro: runs.intros runs_first_run)
  then show ?thesis unfolding begins_def reload_family_def
    by (auto intro: plays.intros runs_first_run)
qed

lemma reload_family_active: "finite (active (reload_family q))"
  by (rule finite_subset [of _ "{ApiThread 0, SessionThread 3, ProducerThread 7}"]) (auto simp: active_def reload_family_def)

definition reload_writes :: "lskel \<Rightarrow> (lock_id, data_id, thread_id) threads" where
  "reload_writes q = (reload_family q)(ApiThread 0 := ([(Excl, (ConfigL, 0))], tl (first_run broadcast_config_reload_locks)))"

lemma reload_reaches: "(steps_to wp)\<^sup>*\<^sup>* (reload_family q) (reload_writes q)"
proof -
  have "steps_to wp (reload_family q) ((reload_family q)(ApiThread 0 := ((Excl, (ConfigL, 0)) # [], tl (first_run broadcast_config_reload_locks))))"
    by (rule step_acquire) (auto simp: reload_family_def broadcast_config_reload_locks_def grants_def)
  then show ?thesis by (simp add: reload_writes_def)
qed



text \<open>An application that calls a command of the module from a key takes the locks in the other order.\<close>

theorem script_breaks_documented_order:
  "\<exists>is. runs (broadcast_listener_handle_dtmf_locks b broadcast_find_and_ref_locks) is \<and> \<not> orderly fst guard_of (\<lambda>l. False) [] is"
proof -
  let ?h = "first_run broadcast_find_and_ref_locks"
  have "runs (one_of [Do Outside, Skip, broadcast_enqueue_event_locks b, broadcast_find_and_ref_locks]) ?h"
    by (auto intro: run_left run_right runs_first_run)
  then have "runs (rd ConfigL 0 (Then (look Profiles 0) (maybe (b_listener_dispatch_control_locks b broadcast_find_and_ref_locks))))
      (Acquire Shared (ConfigL, 0) # ([Act (Touch Shared (Profiles, 0))] @ ?h) @ [Release (ConfigL, 0)])"
    unfolding b_listener_dispatch_control_locks_def by (intro run_locked run_then run_do run_left)
  then have "runs (broadcast_listener_handle_dtmf_locks b broadcast_find_and_ref_locks)
      (Acquire Shared (ConfigL, 0) # ([Act (Touch Shared (Profiles, 0))] @ ?h) @ [Release (ConfigL, 0)])"
    unfolding broadcast_listener_handle_dtmf_locks_def b_listener_match_controls_locks_def by (intro run_left)
  moreover have "\<not> orderly fst guard_of (\<lambda>l. False) []
      (Acquire Shared (ConfigL, 0) # ([Act (Touch Shared (Profiles, 0))] @ ?h) @ [Release (ConfigL, 0)])"
    by (simp add: broadcast_find_and_ref_locks_def less_lock_kind_def)
  ultimately show ?thesis by blast
qed

text \<open>
  C5. No deadlock, as long as the applications bound to keys use of the module only its commands other than
  \<open>reload\<close> (\<open>key_script\<close>: in any order, choice and repetition, and anything outside the module): in no state that the module's threads can reach, in any
  interleaving and with or without preference for waiting writers, do unfinished threads wait for each
  other. With a \<open>reload\<close> in such an application the opposite holds (\<open>script_reload_deadlocks\<close>).
\<close>

theorem module_never_deadlocks:
  assumes "\<And>q. scripts q \<Longrightarrow> key_script q" "begins (plays scripts) s0" "(steps_to wp)\<^sup>*\<^sup>* s0 s"
  shows "\<not> stuck wp s"
  by (rule waiting.not_stuck [OF begins_mono [OF assms(2,1)] assms(3)])

theorem module_never_deadlocks_witness: "\<not> stuck True (reload_writes destroy_script)"
  by (rule module_never_deadlocks [OF destroy_script_key reload_family_begins reload_reaches])

text \<open>
  From every reachable state of finitely many threads all of them can be run to their ends with every
  lock given back, and no schedule takes more steps than there are instructions.
\<close>

theorem module_threads_finish:
  assumes "\<And>q. scripts q \<Longrightarrow> key_script q" "begins (plays scripts) s0" "finite (active s0)" "(steps_to wp ^^ n) s0 s"
  shows "(\<exists>s'. (steps_to wp)\<^sup>*\<^sup>* s s' \<and> (\<forall>t. s' t = ([], []))) \<and> n \<le> work s0"
  using waiting.can_finish [OF begins_mono [OF assms(2,1)] assms(3) relpowp_imp_rtranclp [OF assms(4)]] run_length [OF assms(3,4)]
  by simp

theorem module_threads_finish_witness:
  "\<exists>s'. (steps_to False)\<^sup>*\<^sup>* (reload_family destroy_script) s' \<and> (\<forall>t. s' t = ([], []))"
  using module_threads_finish [OF destroy_script_key reload_family_begins reload_family_active, where n = 0 and wp = False] by simp



text \<open>
  The exception is real: a session that looks up the default profile's name reads the settings while a
  reload is about to change them.
\<close>

theorem settings_race:
  "\<exists>s0 s is js. begins (plays (\<lambda>q. q = Do Outside)) s0 \<and> (steps_to False)\<^sup>*\<^sup>* s0 s
     \<and> todo s (ApiThread 0) = Act (Touch Excl (Settings, 0)) # is \<and> todo s (SessionThread 3) = Act (Touch Shared (Settings, 0)) # js"
proof -
  let ?r = "first_run broadcast_config_reload_locks"
  let ?c = "first_run (broadcast_create_locks 7)"
  let ?f = "first_run broadcast_find_and_ref_locks"
  let ?S = "\<lambda>hs js gs ks t. if t = ApiThread 0 then (hs, js) else if t = SessionThread 3 then (gs, ks)
      else ([] :: (access \<times> lock_id) list, [])"
  have up: "(?S hs js gs ks)(ApiThread 0 := (hs', js')) = ?S hs' js' gs ks"
    "(?S hs js gs ks)(SessionThread 3 := (hs', js')) = ?S hs js hs' js'" for hs js gs ks hs' js' by auto
  let ?s = "Act (Touch Shared (Settings, 0)) # ?c"
  have app: "runs (broadcast_app_function_locks 7 3 [3] (Do Outside)) (?f @ ?s)"
  proof -
    have "runs (Then (look Settings 0) (broadcast_create_locks 7)) ([Act (Touch Shared (Settings, 0))] @ ?c)"
      by (intro run_then run_do runs_first_run)
    then have "runs (Then (look Settings 0) (broadcast_create_locks 7)) ?s" by simp
    then show ?thesis unfolding broadcast_app_function_locks_def one_of.simps
      by (rule run_left [OF run_then [OF runs_first_run run_right [OF run_left]]])
  qed
  have api: "runs (broadcast_api_dispatch_locks [] 7 [] []) ?r"
    by (auto simp: broadcast_api_dispatch_locks_def intro: runs.intros runs_first_run)
  have b: "begins (plays (\<lambda>q. q = Do Outside)) (?S [] ?r [] (?f @ ?s))"
    unfolding begins_def using app api by (auto intro: plays.intros)
  have f: "?f = [Acquire Shared (HashL, 0), Act (Touch Shared (BroadcastTable, 0)), Release (HashL, 0)]"
    by (simp add: broadcast_find_and_ref_locks_def)
  obtain rest where r: "?r = [Acquire Excl (ConfigL, 0), Act (Touch Excl (Profiles, 0)), Act (Touch Excl (Settings, 0))] @ rest"
    by (simp add: broadcast_config_reload_locks_def)
  let ?h = "[(Excl, (ConfigL, 0))]" and ?g = "[(Shared, (HashL, 0))]"
  have 1: "steps_to False (?S [] ?r [] (?f @ ?s)) (?S [] ?r ?g (tl ?f @ ?s))"
    using step_acquire [of "?S [] ?r [] (?f @ ?s)" "SessionThread 3" "[]" Shared "(HashL, 0)" "tl ?f @ ?s" False] unfolding up
    by (simp add: f grants_def)
  have 2: "steps_to False (?S [] ?r ?g (tl ?f @ ?s)) (?S [] ?r ?g (tl (tl ?f) @ ?s))"
    using step_act [of "?S [] ?r ?g (tl ?f @ ?s)" "SessionThread 3" ?g _ "tl (tl ?f) @ ?s" False] unfolding up
    by (simp add: f may_act_def)
  have gb: "give_back (HashL, 0) ?g = []" by simp
  have 3: "steps_to False (?S [] ?r ?g (tl (tl ?f) @ ?s)) (?S [] ?r [] ?s)"
    using step_release [of "?S [] ?r ?g (tl (tl ?f) @ ?s)" "SessionThread 3" ?g "(HashL, 0)" ?s False] unfolding up gb
    by (simp add: f)
  have 4: "steps_to False (?S [] ?r [] ?s) (?S ?h (tl ?r) [] ?s)"
    using step_acquire [of "?S [] ?r [] ?s" "ApiThread 0" "[]" Excl "(ConfigL, 0)" "tl ?r" False] unfolding up
    by (simp add: r grants_def)
  have 5: "steps_to False (?S ?h (tl ?r) [] ?s) (?S ?h (tl (tl ?r)) [] ?s)"
    using step_act [of "?S ?h (tl ?r) [] ?s" "ApiThread 0" ?h _ "tl (tl ?r)" False] unfolding up
    by (simp add: r may_act_def)
  from 1 2 3 4 5 have "(steps_to False)\<^sup>*\<^sup>* (?S [] ?r [] (?f @ ?s)) (?S ?h (tl (tl ?r)) [] ?s)"
    by (meson r_into_rtranclp rtranclp_trans)
  with b r show ?thesis
    by (intro exI [of _ "?S [] ?r [] (?f @ ?s)"] exI [of _ "?S ?h (tl (tl ?r)) [] ?s"]) auto
qed

text \<open>Nobody sleeps or joins a thread with a lock in hand, but for \<open>config_rwlock\<close> around a key's application.\<close>

theorem waits_hold_no_lock:
  assumes "\<And>q. scripts q \<Longrightarrow> key_script q" "begins (plays scripts) s0" "(steps_to wp)\<^sup>*\<^sup>* s0 s"
    "todo s t = Act a # is" "a = Sleep \<or> a = Join u"
  shows "fst ` snd ` set (held s t) \<subseteq> {ConfigL} \<and> ((\<forall>q. scripts q \<longrightarrow> q = Do Outside) \<longrightarrow> held s t = [])"
proof
  have "kept_waiting True l" if "(m, l) \<in> set (held s t)" for m l
    by (rule waiting.waits_free [OF begins_mono [OF assms(2,1)] assms(3-5) that])
  then show "fst ` snd ` set (held s t) \<subseteq> {ConfigL}" by (auto simp: level_simps)
  show "(\<forall>q. scripts q \<longrightarrow> q = Do Outside) \<longrightarrow> held s t = []"
  proof
    assume "\<forall>q. scripts q \<longrightarrow> q = Do Outside"
    then have "begins (plays stays_outside) s0" using begins_mono [OF assms(2)] by (simp add: stays_outside_def)
    from documented.waits_free [OF this assms(3-5)] show "held s t = []"
      by (metis list.set_intros(1) neq_Nil_conv surj_pair)
  qed
qed

theorem waits_hold_no_lock_witness: "held (reload_writes (Do Outside)) (ProducerThread 7) = []"
proof -
  have "todo (reload_writes (Do Outside)) (ProducerThread 7) = Act Sleep # tl (first_run (broadcast_producer_run_locks 7 [3]))"
    by (simp add: reload_writes_def reload_family_def broadcast_producer_run_locks_def)
  from waits_hold_no_lock [of "\<lambda>q. q = Do Outside", OF _ reload_family_begins reload_reaches this] show ?thesis
    by (simp add: key_outside)
qed

text \<open>
  C37. The condition on key-bound applications is needed: a script that reloads the configuration from a key
  press waits for ever for the lock that its own session holds in read mode around the dispatch, even
  when no other thread runs.
\<close>

theorem script_reload_deadlocks:
  "\<exists>s0 s is. s0 = (\<lambda>t. ([], []))(SessionThread m := ([], is))
    \<and> runs (broadcast_listener_handle_dtmf_locks b broadcast_config_reload_locks) is
    \<and> (steps_to False)\<^sup>*\<^sup>* s0 s \<and> stuck False s"
proof -
  let ?r = "first_run broadcast_config_reload_locks"
  let ?is = "Acquire Shared (ConfigL, 0) # Act (Touch Shared (Profiles, 0)) # ?r @ [Release (ConfigL, 0)]"
  let ?S = "\<lambda>hs js t. if t = SessionThread m then (hs, js) else ([] :: (access \<times> lock_id) list, [])"
  let ?h = "[(Shared, (ConfigL, 0))]"
  have up: "(?S hs js)(SessionThread m := (hs', js')) = ?S hs' js'" for hs js hs' js' by auto
  have "runs (one_of [Do Outside, Skip, broadcast_enqueue_event_locks b, broadcast_config_reload_locks]) ?r"
    by (auto intro: run_left run_right runs_first_run)
  then have k: "runs (rd ConfigL 0 (Then (look Profiles 0) (maybe (b_listener_dispatch_control_locks b broadcast_config_reload_locks))))
      (Acquire Shared (ConfigL, 0) # ([Act (Touch Shared (Profiles, 0))] @ ?r) @ [Release (ConfigL, 0)])"
    unfolding b_listener_dispatch_control_locks_def by (intro run_locked run_then run_do run_left)
  then have r: "runs (broadcast_listener_handle_dtmf_locks b broadcast_config_reload_locks) ?is"
    unfolding broadcast_listener_handle_dtmf_locks_def b_listener_match_controls_locks_def by (intro run_left) (use k in simp)
  have "steps_to False (?S [] ?is) (?S ?h (tl ?is))"
    using step_acquire [of "?S [] ?is" "SessionThread m" "[]" Shared "(ConfigL, 0)" "tl ?is" False] unfolding up
    by (simp add: grants_def)
  moreover have "steps_to False (?S ?h (tl ?is)) (?S ?h (tl (tl ?is)))"
    using step_act [of "?S ?h (tl ?is)" "SessionThread m" ?h _ "tl (tl ?is)" False] unfolding up
    by (simp add: may_act_def)
  ultimately have st: "(steps_to False)\<^sup>*\<^sup>* (?S [] ?is) (?S ?h (tl (tl ?is)))" by (meson r_into_rtranclp rtranclp_trans)
  have hd: "todo (?S ?h (tl (tl ?is))) (SessionThread m) = Acquire Excl (ConfigL, 0) # tl ?r @ [Release (ConfigL, 0)]"
    by (simp add: broadcast_config_reload_locks_def)
  have "stuck False (?S ?h (tl (tl ?is)))"
    by (rule self_blocked [of _ "SessionThread m" ?h "(ConfigL, 0)" "tl ?r @ [Release (ConfigL, 0)]" Shared]) (use hd in auto)
  with r st show ?thesis by (intro exI [of _ "?S [] ?is"] exI [of _ "?S ?h (tl (tl ?is))"] exI [of _ ?is]) auto
qed

end
