(* ===== verification/Spec2Isabelle.thy ===== *)
theory Spec2Isabelle
  imports Event_Queue Listener_List Frame_Ring Ring_Steps Producer Recorder Config Controls Listener_Loop Speaker Registry
    Event_Fire Housekeeping Room_Tag App Api_Report Api Histogram Lock_Order Locks
begin

text \<open>
  mod_broadcast: one-to-many audio broadcast. A verification development of the module's C sources.

  1. The program.

  A broadcast (\<open>struct broadcast_obj\<close>) has one producer thread, at most one speaker, a list of listeners and a list of
  recordings. At every timer event the producer takes one frame of audio, from a playing file, from the
  speaker's buffer, or made by the silence policy, and publishes it in a ring (broadcast_producer.c). Each listener's own
  session thread follows the ring with a cursor and sends one frame per tick (broadcast_listener.c); each
  recording's writer thread drains the ring into a file (broadcast_record.c). The speaker's input thread reads the
  session, detects talking, and fills the buffer the producer reads (broadcast_speaker.c). Members join, are promoted and
  leave through a linked list under a lock (broadcast_member.c). Broadcasts live in a table with reference counts, are created
  on demand and torn down by command (broadcast_core.c). Events go through a ring per broadcast to one emitter
  thread (broadcast_events.c). Profiles and caller controls come from XML (broadcast_config.c). The dialplan
  application and the module's entry points are in mod_broadcast.c, the commands in broadcast_api.c.

  2. Theories, by the source they model.

  Bcast_Prelude: machine integers (\<open>u8\<close>, \<open>u32\<close>, \<open>u64\<close>; times are \<open>int\<close>), C strings, status codes, flag words, checked copies,
  decimal printing; the collections \<open>flag_simps\<close> and \<open>preserved\<close>.
  Bcast_Types: the enums, constants, flags and structs of mod_broadcast.h, one record per struct.
  Event_Queue: \<open>broadcast_enqueue_event\<close>, the emitter's loop (\<open>emit_one\<close>, \<open>emitter_drain\<close>, \<open>emitter_visit\<close>, \<open>emitter_pass\<close>), the subclass
  names; interface \<open>lossy_queue\<close>.
  Event_Fire: what an event carries (\<open>b_fire_evt_msg\<close>), critical events, start and stop of the emitter.
  Listener_List: \<open>broadcast_listener_add\<close>, \<open>broadcast_listener_unlink_for_promotion\<close>, \<open>broadcast_listener_del\<close> on a heap of
  members; interface \<open>member_list\<close>.
  Frame_Ring: publication in its three stores, the slot check, the cursors of listener and recorder; interface \<open>media_ring\<close>.
  Ring_Steps: the same ring with every store of the producer and every load of a listener's tick a step of its own.
  Producer: one tick and the loop of the producer thread (\<open>producer_tick\<close>, \<open>producer_loop\<close>, \<open>broadcast_producer_run\<close>).
  Listener_Loop: one tick and the loop of a listener (\<open>listener_tick\<close>, \<open>broadcast_listener_run\<close>).
  Controls: digits, matching and dispatch of caller controls (\<open>broadcast_listener_handle_dtmf\<close>).
  Recorder: \<open>broadcast_record_start\<close>, \<open>broadcast_record_stop\<close>, the writer thread.
  Config: parameters, profiles, control groups, load, reload, unload, lookup.
  Speaker: codecs and buffers of a member, \<open>broadcast_set_speaker\<close> and its relatives, promotion, the input thread, the speaker's wait;
  the step relation \<open>sp_step\<close> of the speaker pointer's life.
  Registry: \<open>broadcast_find_and_ref\<close>, \<open>broadcast_release\<close>, \<open>broadcast_create\<close>, kicking, \<open>broadcast_destroy_ex\<close>, \<open>broadcast_destroy_all\<close>.
  Housekeeping: \<open>broadcast_runtime_housekeeping\<close> and the runtime loop.
  Room_Tag: that no operation inside a room changes its name or reference count.
  App: \<open>broadcast_app_function\<close> in its parts, the exit variables, \<open>mod_broadcast_load\<close>, \<open>mod_broadcast_shutdown\<close>.
  Api_Report: the formatting helpers and reports of broadcast_api.c.
  Api: member lookup for commands, the commands, \<open>broadcast_api_dispatch\<close>.
  Histogram: the tick histogram and its report, of builds with \<open>BROADCAST_ENABLE_HISTOGRAM\<close>; the dispatcher of \<open>Api\<close> answers as
  builds without it do.
  Lock_Order: threads that take readers-writer locks, their interleavings, and the discipline that keeps them from deadlocks and data
  races; interface \<open>lock_order\<close>.
  Locks: the lock skeleton of every function of the module that takes a lock, waits, or touches shared data (\<open>f_locks\<close> for the function
  \<open>f\<close>), the threads that run them (\<open>plays\<close>), and two interpretations of \<open>lock_order\<close>: \<open>documented\<close>, with the order of mod_broadcast.h, and
  \<open>waiting\<close>, for sessions whose keys run applications that call the module again.

  3. State and effects.

  A broadcast with the heap of its members is a \<open>room\<close>; the table with all rooms is a \<open>registry\<close>. Every C function becomes a function from
  state to state. An access through NULL or to a freed object, or outside a buffer, is the value \<open>None\<close> (or a constructor of
  its own), so a theorem that gives \<open>Some\<close> is also one of memory safety; only the slot check \<open>ring_lookup\<close> has \<open>None\<close> for a slot with
  another number too, and its theorems exclude a missing slot by \<open>ring_hist\<close>. Each function runs as the source runs it between two points where
  another thread can act; where it gives up a lock, waits or starts a thread in the middle, what the others do there is an argument: a
  function on the state (\<open>others\<close>, \<open>di_grace\<close>, \<open>ap_pinned\<close>), or one for each poll of a wait. The theorems say what they ask of these
  functions, mostly that they keep a name or a reference count (\<open>keeps_name\<close>, \<open>keeps_tag\<close>, \<open>keeps_tick\<close>).
  That a locked section runs as one step is what \<open>Locks\<close> justifies: there the same functions appear without their values, as the locks they
  take, the guarded data they touch and the places where they wait, with all branches and loops, and run in every interleaving.

  4. What stands for code outside the sources.

  The core's services are arguments: \<open>copy_string\<close> (a bounded copy, contract \<open>copy_string_ok\<close>, met by \<open>cut_copy\<close>), \<open>separate\<close>
  (splitting at a delimiter, \<open>separate_ok\<close>, met by \<open>cut_sep\<close>), \<open>switch_true\<close>, the opening and reading of files, codecs, threads, timers, the
  location of sessions, clocks and time conversion. Their outcomes are fields of the records \<open>tick_io\<close>, \<open>lt_io\<close>, \<open>create_io\<close>, \<open>destroy_io\<close>,
  \<open>prep_io\<close>, \<open>fire_io\<close>, \<open>app_io\<close> and \<open>api_io\<close>. The hash table is an association list in its order of enumeration. \<open>printf\<close> of integers, of
  hexadecimal numbers and of the two floating-point figures of the info report (a correctly rounded quotient, printed with ties
  to even) is defined, since it is the language's library.

  5. Loops.

  Loops over a list of members are \<open>partial_function (option)\<close> (\<open>list_find\<close>, \<open>list_count\<close>, \<open>wedged_walk\<close>, \<open>list_members\<close>): on a cyclic list they have
  no value, and the theorems prove that they have one under \<open>listener_rep\<close>. Loops that wait for the clock or for other threads
  run over a list of what each round sees; when the list is used up they are still waiting, which is a result of its own
  (\<open>StillPolling\<close>, \<open>SegBlocked\<close>, \<open>Continue\<close>). Where a limit ends such a wait the theorem asks only that the list goes past it
  (\<open>expires\<close>). The scaling of a quotient to 53 bits has fuel 1074, more than the 53 doublings its arguments can need.

  6. What is shown.

  The ring: what the producer has published is a history, of which the ring always holds the newest frames; listeners that keep up
  send all of it, and the four outcomes of a cursor are exactly these; recordings get every
  frame that is still there. When single stores and loads interleave, the frames a listener sends are a subsequence of the history as long as
  the producer is less than the ring size ahead of each when its copy is complete. The producer never fails and publishes one whole frame per tick; a listener's tick sends one.
  Lists and queues: the listener list refines a duplicate-free list under any sequence of calls; the event ring refines a queue that loses
  events, with the losses counted. Lifetimes: the speaker pointer never dangles under the protocol of \<open>sp_step\<close>; the table keeps its invariant
  over creation, lookup, release and teardown; what a new object satisfies, and for which profiles not; teardown ends, if
  the speaker it replaces stays allocated while it polls, and frees nothing in use when its waits were not cut short; every
  application call that returns and every command but destroy gives back exactly the reference it took. Behaviour of
  the members: joins, kicks, exits, caller controls, talk detection, heartbeats, wedged listeners. Text: argument strings, member
  ids, flags and event data are read back from what was written; the JSON answer of \<open>list\<close> is the document it reports with its strings
  as they are, which is JSON exactly when none of them needs an escape.
  Threads: where the applications bound to keys stay outside the module, every branch of every function takes its locks in the documented order
  and holds none when it sleeps or joins a thread. Where they use of the module only its commands other than \<open>reload\<close>
  (\<open>key_script\<close>), the producers, writers, input threads, emitter, housekeeping, sessions, API callers and unloading still never deadlock, all
  finish, and never touch data that has a lock while another changes it. The settings, the listener counter and the state of a
  recording have no lock that all their readers and writers take; they are excepted by name.
  Some theorems exhibit defects: \<open>promotion_rollback_relinks\<close>, \<open>create_loses_a_reference\<close>, \<open>replaced_speaker_use_after_free\<close>,
  \<open>destroy_reads_departed_speaker\<close>, \<open>destroy_grace_sleeps_seconds\<close>, \<open>member_event_headers\<close>, \<open>failed_play_is_read\<close>, \<open>recordings_json_cut\<close>,
  \<open>reserved_names_unreachable\<close>, \<open>utc_label_is_local_time\<close>, \<open>script_reload_deadlocks\<close>,
  \<open>script_breaks_documented_order\<close>, \<open>settings_race\<close>, \<open>slot_being_filled\<close>.

  7. Not modelled.

  Logging; the registration of the application and the command with the core; memory pools; the locks of the core and of its sessions;
  the atomic accesses to flags and cursors beyond their order in each function; memory models weaker than sequential consistency. A locked
  section of the functional model is not divided, and outside \<open>Ring_Steps\<close> neither is a publication or a listener's tick. During the waits of
  a teardown the other threads act on its broadcast only: creations, lookups and teardowns of other callers, and a second
  teardown of the same broadcast, come before or after it (what two teardowns at once can do is a finding, not a theorem).
  Of an application bound to a key, \<open>Controls\<close> gives the call, \<open>Locks\<close> the locks that it takes.
  In \<open>Locks\<close> threads exist from the start, as if each could begin at any time, and a wait that polls is any number of sleeps.
  \<open>atoi\<close> is the C library's for values that fit; outside it reduces modulo \<open>2^32\<close>.
\<close>

end
